(* ===== verification/ISCSI_Prelude.thy ===== *)
theory ISCSI_Prelude
  imports Main "HOL-Library.Word"
begin

unbundle bit_operations_syntax

text \<open>
  Shared vocabulary of the development.

  \<^item> Go's fixed-width unsigned integers are words (\<open>uint8\<close> is \<open>u8\<close>, and so on): \<open>+\<close>, \<open>-\<close> and
    \<open>*\<close> wrap as Go's do, and a conversion between widths is \<open>ucast\<close>.
  \<^item> A Go \<open>[]byte\<close> or byte array is a list of \<open>u8\<close>. \<open>slice b i j\<close> is \<open>b[i:j]\<close>; a store into an
    existing array is \<open>put_at\<close>, which writes byte by byte and never changes the length.
  \<^item> \<open>PutUint16\<close>, \<open>PutUint32\<close>, \<open>PutUint64\<close> and \<open>Uint16\<close>, \<open>Uint32\<close>, \<open>Uint64\<close> are the big-endian
    accessors of \<open>encoding/binary\<close>; the little-endian 32-bit pair is used by the digest code.

  Three collections carry the component proofs: \<open>wire\<close> (reading back what was stored),
  \<open>flags\<close> (single bits of a flag byte) and \<open>gosimps\<close> (slices of lists).
\<close>

section \<open>Types and collections\<close>

type_synonym u8 = "8 word"
type_synonym u16 = "16 word"
type_synonym u32 = "32 word"
type_synonym u64 = "64 word"
type_synonym bytes = "u8 list"

named_theorems wire \<open>reading back stored bytes\<close>
named_theorems flags \<open>bits of a flag byte\<close>
named_theorems gosimps \<open>slices and prefixes of lists\<close>

section \<open>Slices and stores\<close>

definition slice :: "'a list \<Rightarrow> nat \<Rightarrow> nat \<Rightarrow> 'a list" where
  "slice b i j = take (j - i) (drop i b)"

fun put_at :: "'a list \<Rightarrow> nat \<Rightarrow> 'a list \<Rightarrow> 'a list" where
  "put_at b i [] = b"
| "put_at b i (x # xs) = put_at (b[i := x]) (Suc i) xs"

definition or_if :: "bool \<Rightarrow> bytes \<Rightarrow> nat \<Rightarrow> u8 \<Rightarrow> bytes" where
  "or_if c b i m = (if c then b[i := b ! i OR m] else b)"

lemma length_slice [simp]: "length (slice b i j) = min (j - i) (length b - i)"
  by (simp add: slice_def)

lemma nth_slice: "k < j - i \<Longrightarrow> i + k < length b \<Longrightarrow> slice b i j ! k = b ! (i + k)"
  by (simp add: slice_def)

lemma length_put_at [simp]: "length (put_at b i xs) = length b"
  by (induction b i xs rule: put_at.induct) auto

lemma nth_put_at:
  "i + length xs \<le> length b \<Longrightarrow>
   put_at b i xs ! k = (if i \<le> k \<and> k < i + length xs then xs ! (k - i) else b ! k)"
proof (induction b i xs rule: put_at.induct)
  case (2 b i x xs)
  then show ?case
    by (cases "k = i") (auto simp: nth_Cons' Suc_le_eq)
qed auto

lemma nth_put_at_other [wire]:
  "k < i \<or> i + length xs \<le> k \<Longrightarrow> put_at b i xs ! k = b ! k"
  by (induction b i xs rule: put_at.induct) auto

lemma put_at_update_other:
  "k < i \<or> i + length xs \<le> k \<Longrightarrow> put_at (b[k := x]) i xs = (put_at b i xs)[k := x]"
proof (induction b i xs rule: put_at.induct)
  case (2 b i y ys)
  then show ?case by (auto simp: list_update_swap)
qed simp

lemma slice_update_other [wire]:
  "k < i \<or> j \<le> k \<Longrightarrow> slice (b[k := x]) i j = slice b i j"
  by (rule nth_equalityI) (auto simp: nth_slice)

lemma slice_put_at_other [wire]:
  "j \<le> i \<or> i + length xs \<le> k \<Longrightarrow> slice (put_at b i xs) k j = slice b k j"
  by (rule nth_equalityI; clarsimp simp: nth_slice; subst nth_put_at_other; auto)

lemma slice_put_at_same [wire]:
  "k = i \<Longrightarrow> j = i + length xs \<Longrightarrow> i + length xs \<le> length b \<Longrightarrow> slice (put_at b i xs) k j = xs"
  by (rule nth_equalityI) (auto simp: nth_slice nth_put_at)

lemma or_if_update [wire]: "or_if c b i m = b[i := b ! i OR (if c then m else 0)]"
  by (simp add: or_if_def)

lemma slice_append_left [gosimps]: "j \<le> length a \<Longrightarrow> slice (a @ b) i j = slice a i j"
  by (rule nth_equalityI) (auto simp: nth_slice nth_append)

lemma slice_append_right [gosimps]:
  "length a \<le> i \<Longrightarrow> slice (a @ b) i j = slice b (i - length a) (j - length a)"
  by (rule nth_equalityI) (auto simp: nth_slice nth_append)

lemma slice_split: "i \<le> j \<Longrightarrow> j \<le> k \<Longrightarrow> slice b i k = slice b i j @ slice b j k"
  using take_add [of "j - i" "k - j" "drop i b"] by (simp add: slice_def)

lemma slice_all [gosimps]: "i = 0 \<Longrightarrow> length b \<le> j \<Longrightarrow> slice b i j = b"
  by (simp add: slice_def)

section \<open>Big-endian and little-endian integers\<close>

definition be16 :: "u16 \<Rightarrow> bytes" where
  "be16 v = [ucast (drop_bit 8 v), ucast v]"

definition be32 :: "u32 \<Rightarrow> bytes" where
  "be32 v = [ucast (drop_bit 24 v), ucast (drop_bit 16 v), ucast (drop_bit 8 v), ucast v]"

definition be64 :: "u64 \<Rightarrow> bytes" where
  "be64 v = be32 (ucast (drop_bit 32 v)) @ be32 (ucast v)"

definition le32 :: "u32 \<Rightarrow> bytes" where
  "le32 v = rev (be32 v)"

definition Uint16 :: "bytes \<Rightarrow> u16" where
  "Uint16 b = push_bit 8 (ucast (b ! 0)) OR ucast (b ! 1)"

definition Uint32 :: "bytes \<Rightarrow> u32" where
  "Uint32 b = push_bit 24 (ucast (b ! 0)) OR push_bit 16 (ucast (b ! 1))
     OR push_bit 8 (ucast (b ! 2)) OR ucast (b ! 3)"

definition Uint64 :: "bytes \<Rightarrow> u64" where
  "Uint64 b = push_bit 32 (ucast (Uint32 (slice b 0 4))) OR ucast (Uint32 (slice b 4 8))"

definition LEUint32 :: "bytes \<Rightarrow> u32" where
  "LEUint32 b = Uint32 (rev (slice b 0 4))"

definition PutUint16 :: "bytes \<Rightarrow> nat \<Rightarrow> u16 \<Rightarrow> bytes" where
  "PutUint16 b i v = put_at b i (be16 v)"

definition PutUint32 :: "bytes \<Rightarrow> nat \<Rightarrow> u32 \<Rightarrow> bytes" where
  "PutUint32 b i v = put_at b i (be32 v)"

definition PutUint64 :: "bytes \<Rightarrow> nat \<Rightarrow> u64 \<Rightarrow> bytes" where
  "PutUint64 b i v = put_at b i (be64 v)"

lemma length_be [simp]:
  "length (be16 a) = 2" "length (be32 b) = 4" "length (be64 c) = 8" "length (le32 b) = 4"
  by (simp_all add: be16_def be32_def be64_def le32_def)

lemma length_PutUint [simp]:
  "length (PutUint16 b i a) = length b" "length (PutUint32 b i c) = length b"
  "length (PutUint64 b i d) = length b"
  by (simp_all add: PutUint16_def PutUint32_def PutUint64_def)

lemma Uint16_be16 [wire]: "Uint16 (be16 v) = v"
proof (rule bit_word_eqI)
  fix n assume "n < LENGTH(16)"
  then consider "n < 8" | "8 \<le> n" "n < 16" by force
  then show "bit (Uint16 (be16 v)) n = bit v n"
    by cases (auto simp: Uint16_def be16_def bit_simps)
qed

lemma Uint32_be32 [wire]: "Uint32 (be32 v) = v"
proof (rule bit_word_eqI)
  fix n assume "n < LENGTH(32)"
  then consider "n < 8" | "8 \<le> n" "n < 16" | "16 \<le> n" "n < 24" | "24 \<le> n" "n < 32" by force
  then show "bit (Uint32 (be32 v)) n = bit v n"
    by cases (auto simp: Uint32_def be32_def bit_simps)
qed

lemma Uint64_be64 [wire]: "Uint64 (be64 v) = v"
proof (rule bit_word_eqI)
  fix n assume "n < LENGTH(64)"
  then consider "n < 32" | "32 \<le> n" "n < 64" by force
  then show "bit (Uint64 (be64 v)) n = bit v n"
    by cases (auto simp: Uint64_def be64_def gosimps wire bit_simps)
qed

lemma LEUint32_le32 [wire]: "LEUint32 (le32 v) = v"
  by (simp add: LEUint32_def le32_def gosimps wire)

lemma list_2_conv: "length b = 2 \<Longrightarrow> b = [b ! 0, b ! 1]"
  by (rule nth_equalityI) (auto simp: less_Suc_eq numeral_2_eq_2)

lemma list_4_conv: "length b = 4 \<Longrightarrow> b = [b ! 0, b ! 1, b ! 2, b ! 3]"
  by (rule nth_equalityI) (auto simp: less_Suc_eq numeral_eq_Suc)

lemma be16_Uint16 [wire]: "length b = 2 \<Longrightarrow> be16 (Uint16 b) = b"
proof -
  have "ucast (drop_bit 8 (push_bit 8 (ucast x) OR ucast y :: u16)) = x"
    "ucast (push_bit 8 (ucast x) OR ucast y :: u16) = y" for x y :: u8
    by (rule bit_word_eqI; auto simp: bit_simps dest: bit_imp_le_length)+
  then show "length b = 2 \<Longrightarrow> be16 (Uint16 b) = b"
    by (subst (3) list_2_conv) (simp_all add: be16_def Uint16_def)
qed

lemma Uint32_bytes:
  fixes a b c d :: u8
  defines "v \<equiv> push_bit 24 (ucast a) OR push_bit 16 (ucast b) OR push_bit 8 (ucast c) OR ucast d :: u32"
  shows "ucast (drop_bit 24 v) = a" "ucast (drop_bit 16 v) = b" "ucast (drop_bit 8 v) = c" "ucast v = d"
  unfolding v_def by (rule bit_word_eqI; auto simp: bit_simps dest: bit_imp_le_length)+

lemma be32_Uint32 [wire]: "length b = 4 \<Longrightarrow> be32 (Uint32 b) = b"
  unfolding be32_def Uint32_def Uint32_bytes by (rule list_4_conv [symmetric])

lemma nth_PutUint_other [wire]:
  "k < i \<or> i + 2 \<le> k \<Longrightarrow> PutUint16 b i a ! k = b ! k"
  "k < i \<or> i + 4 \<le> k \<Longrightarrow> PutUint32 b i c ! k = b ! k"
  "k < i \<or> i + 8 \<le> k \<Longrightarrow> PutUint64 b i d ! k = b ! k"
  by (simp_all add: PutUint16_def PutUint32_def PutUint64_def nth_put_at_other)

lemma slice_PutUint_other [wire]:
  "j \<le> i \<or> i + 2 \<le> k \<Longrightarrow> slice (PutUint16 b i a) k j = slice b k j"
  "j \<le> i \<or> i + 4 \<le> k \<Longrightarrow> slice (PutUint32 b i c) k j = slice b k j"
  "j \<le> i \<or> i + 8 \<le> k \<Longrightarrow> slice (PutUint64 b i d) k j = slice b k j"
  by (simp_all add: PutUint16_def PutUint32_def PutUint64_def slice_put_at_other)

lemma slice_PutUint_same [wire]:
  "k = i \<Longrightarrow> j = i + 2 \<Longrightarrow> i + 2 \<le> length b \<Longrightarrow> slice (PutUint16 b i a) k j = be16 a"
  "k = i \<Longrightarrow> j = i + 4 \<Longrightarrow> i + 4 \<le> length b \<Longrightarrow> slice (PutUint32 b i c) k j = be32 c"
  "k = i \<Longrightarrow> j = i + 8 \<Longrightarrow> i + 8 \<le> length b \<Longrightarrow> slice (PutUint64 b i d) k j = be64 d"
  by (simp_all add: PutUint16_def PutUint32_def PutUint64_def slice_put_at_same)

section \<open>Flag bytes\<close>

lemma flag_and [flags]: "(if c then (m::u8) else 0) AND k = (if c then m AND k else 0)"
  by simp

lemmas flag_dist [flags] = bit.conj_disj_distrib2 [where 'a = "8 word"] and.assoc [where 'a = "8 word"]

lemma mask_below:
  assumes "unat (x::u8) < 2 ^ n" shows "x AND mask n = x"
proof -
  have "unat (take_bit n x) = unat x"
    using assms by (simp add: unsigned_take_bit_eq take_bit_nat_eq_self)
  then show ?thesis by (simp add: take_bit_eq_mask word_unat_eq_iff)
qed

lemma low_bits [flags]:
  "unat (x::u8) < 4 \<Longrightarrow> x AND 3 = x" "unat x < 8 \<Longrightarrow> x AND 7 = x"
  "unat x < 16 \<Longrightarrow> x AND 15 = x" "unat x < 64 \<Longrightarrow> x AND 63 = x" "unat x < 128 \<Longrightarrow> x AND 127 = x"
  using mask_below [of x 2] mask_below [of x 3] mask_below [of x 4] mask_below [of x 6]
    mask_below [of x 7]
  by (simp_all add: mask_eq_exp_minus_1)

lemma above_mask:
  assumes "unat (x::u8) < 2 ^ n" and "mask n AND k = 0" shows "x AND k = 0"
proof -
  have "x AND k = (x AND mask n) AND k" using mask_below [OF assms(1)] by simp
  also have "\<dots> = 0" by (simp add: and.assoc assms(2))
  finally show ?thesis .
qed

lemma high_bits [flags]:
  "unat (x::u8) < 4 \<Longrightarrow> x AND 128 = 0" "unat x < 4 \<Longrightarrow> x AND 64 = 0"
  "unat x < 8 \<Longrightarrow> x AND 128 = 0" "unat x < 8 \<Longrightarrow> x AND 64 = 0" "unat x < 8 \<Longrightarrow> x AND 32 = 0"
  "unat x < 16 \<Longrightarrow> x AND 128 = 0" "unat x < 128 \<Longrightarrow> x AND 128 = 0"
  using above_mask [of x 2] above_mask [of x 3] above_mask [of x 4] above_mask [of x 7]
  by (simp_all add: mask_eq_exp_minus_1)

text \<open>The two-bit CSG field sits above the two-bit NSG field.\<close>

lemma unat_push_2: "unat (x::u8) < 4 \<Longrightarrow> unat (push_bit 2 x) = 4 * unat x"
  by (simp add: push_bit_eq_mult unat_word_ariths)

lemma stage_bits [flags]:
  assumes "unat (x::u8) < 4"
  shows "push_bit 2 x AND 128 = 0" "push_bit 2 x AND 64 = 0" "push_bit 2 x AND 3 = 0"
    "drop_bit 2 x = 0" "drop_bit 2 (push_bit 2 x) = x"
proof -
  have u: "unat (push_bit 2 x) < 2 ^ 4" using assms unat_push_2 by simp
  show "push_bit 2 x AND 128 = 0" "push_bit 2 x AND 64 = 0"
    by (rule above_mask [OF u]; simp add: mask_eq_exp_minus_1)+
  show "push_bit 2 x AND 3 = 0"
    by (rule bit_word_eqI) (auto simp: bit_simps mask_eq_exp_minus_1 [of 2, where 'a = "8 word", simplified, symmetric])
  have "unat (drop_bit 2 x) = 0"
    using assms by (subst unat_drop_bit_eq) (simp add: drop_bit_eq_div)
  then show "drop_bit 2 x = 0" by (simp add: unat_eq_0)
  have "unat (drop_bit 2 (push_bit 2 x)) = unat x"
    using assms by (subst unat_drop_bit_eq) (simp add: drop_bit_eq_div unat_push_2)
  then show "drop_bit 2 (push_bit 2 x) = x" by (simp only: word_unat_eq_iff)
qed

lemma drop_bit_flag [flags]:
  "drop_bit n (if c then (m::u8) else 0) = (if c then drop_bit n m else 0)"
  by simp

section \<open>Stores at the end of a prefix, and sizes without wrap-around\<close>

lemma put_at_next:
  "length a = off \<Longrightarrow> length xs \<le> length b \<Longrightarrow> put_at (a @ b) off xs = (a @ xs) @ drop (length xs) b"
  by (rule nth_equalityI) (auto simp: nth_put_at nth_append)

lemma unat_of_nat_u32: "n < 2 ^ 32 \<Longrightarrow> unat (of_nat n :: u32) = n"
  by (simp add: unat_of_nat take_bit_nat_eq_self)

lemma unat_plus_u32: "unat (a::u32) + unat b < 2 ^ 32 \<Longrightarrow> unat (a + b) = unat a + unat b"
  by (simp add: unat_word_ariths)

lemma unat_u8_less: "unat (x::u8) < 256"
  using unsigned_less [of x] by simp

lemma put_at_if:
  "(if length xs > 0 then (put_at b off xs, off + length xs) else (b, off)) = (put_at b off xs, off + length xs)"
  by simp

end
