(* ===== verification/Serial.thy ===== *)
theory Serial
  imports ISCSI_Prelude
begin

text \<open>
  \<open>internal/serial/serial.go\<close>: RFC 1982 serial-number arithmetic on 32-bit sequence numbers.
  The four functions are translated as they are; \<open>int32(s1-s2)\<close> is \<open>sint (s1 - s2)\<close>, the
  two's-complement reading of the wrapped difference.

  The clients (the command window, the StatSN tracking) use the comparisons through the
  locale \<open>serial_arith\<close>: each comparison is a statement about the unsigned distance between
  two numbers, and the facts about windows and increments follow from that alone.
\<close>

section \<open>The functions of the package\<close>

definition LessThan :: "u32 \<Rightarrow> u32 \<Rightarrow> bool" where
  "LessThan s1 s2 \<longleftrightarrow> s1 \<noteq> s2 \<and> sint (s1 - s2) < 0"

definition GreaterThan :: "u32 \<Rightarrow> u32 \<Rightarrow> bool" where
  "GreaterThan s1 s2 \<longleftrightarrow> s1 \<noteq> s2 \<and> sint (s1 - s2) > 0"

definition InWindow :: "u32 \<Rightarrow> u32 \<Rightarrow> u32 \<Rightarrow> bool" where
  "InWindow sn lo hi \<longleftrightarrow> sn = lo \<or> sn = hi \<or> (GreaterThan sn lo \<and> LessThan sn hi)"

definition Incr :: "u32 \<Rightarrow> u32" where
  "Incr s = s + 1"

section \<open>Distances\<close>

definition dist32 :: "u32 \<Rightarrow> u32 \<Rightarrow> nat" where
  "dist32 a b = unat (b - a)"

lemma dist32_same [simp]: "dist32 a a = 0"
  by (simp add: dist32_def)

lemma dist32_eq_0 [simp]: "dist32 a b = 0 \<longleftrightarrow> a = b"
  by (auto simp: dist32_def unat_eq_0)

lemma dist32_less [simp]: "dist32 a b < 2 ^ 32"
  using unsigned_less [of "b - a", where 'a = nat] by (simp add: dist32_def)

lemma dist32_add: "n < 2 ^ 32 \<Longrightarrow> dist32 a (a + of_nat n) = n"
  by (simp add: dist32_def unat_of_nat take_bit_nat_eq_self)

lemma dist32_of_nat: "b = a + of_nat (dist32 a b)"
  by (simp add: dist32_def)

lemma dist32_pos [simp]: "0 < dist32 a b \<longleftrightarrow> a \<noteq> b"
  using dist32_eq_0 [of a b] by linarith

lemma dist32_mod: "dist32 a c = (dist32 a b + dist32 b c) mod 2 ^ 32"
proof -
  have "c - a = (b - a) + (c - b)" by simp
  then show ?thesis unfolding dist32_def by (simp only: unat_word_ariths) simp
qed

lemma dist32_trans:
  "dist32 a c = (if dist32 a b + dist32 b c < 2 ^ 32 then dist32 a b + dist32 b c
                 else dist32 a b + dist32 b c - 2 ^ 32)"
  using dist32_less [of a b] dist32_less [of b c] by (simp add: dist32_mod [of a c b] mod_if)

lemma dist32_swap: "a \<noteq> b \<Longrightarrow> dist32 b a = 2 ^ 32 - dist32 a b"
  using dist32_trans [of a a b] dist32_pos [of a b] dist32_less [of a b] by (auto split: if_splits)

lemma sint_u32: "sint (x::u32) = (if uint x < 2 ^ 31 then uint x else uint x - 2 ^ 32)"
proof -
  have u: "0 \<le> uint x" "uint x < 2 ^ 32" using unsigned_less [of x, where 'a = int] by simp_all
  have "sint x = (uint x + 2 ^ 31) mod 2 ^ 32 - 2 ^ 31"
    by (simp add: sint_uint signed_take_bit_eq_take_bit_shift take_bit_eq_mod)
  moreover have "(uint x + 2 ^ 31) mod 2 ^ 32
      = (if uint x < 2 ^ 31 then uint x + 2 ^ 31 else uint x - 2 ^ 31)"
    using u mod_pos_pos_trivial [of "uint x + 2 ^ 31" "2 ^ 32"]
      mod_pos_pos_trivial [of "uint x - 2 ^ 31" "2 ^ 32"] mod_add_self2 [of "uint x - 2 ^ 31" "2 ^ 32"]
    by (auto simp: add.commute)
  ultimately show ?thesis by auto
qed

lemma sint_dist: "sint (a - b)
    = (if dist32 b a < 2 ^ 31 then int (dist32 b a) else int (dist32 b a) - 2 ^ 32)"
proof -
  have "uint (a - b) = int (dist32 b a)" by (simp add: dist32_def)
  then show ?thesis by (simp add: sint_u32)
qed

lemma LessThan_dist: "LessThan a b \<longleftrightarrow> 0 < dist32 a b \<and> dist32 a b \<le> 2 ^ 31"
  using dist32_less [of a b] dist32_less [of b a] dist32_swap [of a b]
  by (auto simp: LessThan_def sint_dist split: if_splits)

lemma GreaterThan_dist: "GreaterThan a b \<longleftrightarrow> 0 < dist32 b a \<and> dist32 b a < 2 ^ 31"
  using dist32_less [of b a] dist32_pos [of b a]
  by (auto simp: GreaterThan_def sint_dist simp del: dist32_pos)

section \<open>The interface of the package\<close>

locale serial_arith =
  fixes lt gt :: "u32 \<Rightarrow> u32 \<Rightarrow> bool"
    and inw :: "u32 \<Rightarrow> u32 \<Rightarrow> u32 \<Rightarrow> bool"
    and incr :: "u32 \<Rightarrow> u32"
  assumes lt_iff: "lt a b \<longleftrightarrow> 0 < dist32 a b \<and> dist32 a b \<le> 2 ^ 31"
    and gt_iff: "gt a b \<longleftrightarrow> 0 < dist32 b a \<and> dist32 b a < 2 ^ 31"
    and inw_iff: "dist32 lo hi < 2 ^ 31 \<Longrightarrow> inw sn lo hi \<longleftrightarrow> dist32 lo sn \<le> dist32 lo hi"
    and incr_eq: "incr a = a + 1"
begin

lemma dist_incr: "dist32 a b < 2 ^ 32 - 1 \<Longrightarrow> dist32 a (incr b) = Suc (dist32 a b)"
  using dist32_trans [of a "incr b" b] dist32_add [of 1 b] by (simp add: incr_eq)

lemma incr_gt: "gt (incr a) a"
  using dist32_add [of 1 a] by (simp add: gt_iff incr_eq)

lemma lt_irrefl: "\<not> lt a a"
  by (simp add: lt_iff)

lemma trichotomy:
  assumes "dist32 a b \<noteq> 2 ^ 31"
  shows "lt a b \<noteq> (a = b \<or> gt a b)" and "gt a b \<longleftrightarrow> lt b a"
proof -
  have "a \<noteq> b \<Longrightarrow> dist32 b a = 2 ^ 32 - dist32 a b \<and> 0 < dist32 a b \<and> dist32 a b < 2 ^ 32"
    by (metis dist32_swap dist32_pos dist32_less)
  with assms show "lt a b \<noteq> (a = b \<or> gt a b)" and "gt a b \<longleftrightarrow> lt b a"
    by (cases "a = b"; force simp: lt_iff gt_iff simp del: dist32_pos)+
qed

lemma lt_trans_near:
  "lt a b \<Longrightarrow> lt b c \<Longrightarrow> dist32 a b + dist32 b c \<le> 2 ^ 31 \<Longrightarrow> lt a c"
  using dist32_trans [of a c b] by (auto simp: lt_iff)

lemma inw_incr:
  "dist32 lo hi < 2 ^ 31 \<Longrightarrow> inw sn lo hi \<Longrightarrow> sn \<noteq> hi \<Longrightarrow> inw (incr sn) lo hi"
proof -
  assume d: "dist32 lo hi < 2 ^ 31" and i: "inw sn lo hi" and n: "sn \<noteq> hi"
  have "dist32 lo sn \<le> dist32 lo hi" using d i by (simp add: inw_iff)
  moreover have "dist32 lo sn \<noteq> dist32 lo hi"
    using n dist32_of_nat [of sn lo] dist32_of_nat [of hi lo] by auto
  ultimately show ?thesis using d dist_incr [of lo sn] by (simp add: inw_iff)
qed

end

interpretation serial: serial_arith LessThan GreaterThan InWindow Incr
proof unfold_locales
  fix lo hi sn :: u32
  assume d: "dist32 lo hi < 2 ^ 31"
  show "InWindow sn lo hi \<longleftrightarrow> dist32 lo sn \<le> dist32 lo hi"
    using d dist32_trans [of lo hi sn] dist32_less [of sn hi] dist32_less [of lo sn]
    by (auto simp: InWindow_def LessThan_dist GreaterThan_dist split: if_splits)
qed (simp_all add: LessThan_dist GreaterThan_dist Incr_def)

section \<open>Properties\<close>

text \<open>C36. The command window test is exactly membership in the arithmetic progression that starts at
  \<open>ExpCmdSN\<close> and ends at \<open>MaxCmdSN\<close>, across the wrap at \<open>2 ^ 32\<close>, for every window narrower than half
  of the number space.\<close>

theorem window_membership:
  assumes "k < 2 ^ 31"
  shows "InWindow sn lo (lo + of_nat k) \<longleftrightarrow> (\<exists>i \<le> k. sn = lo + of_nat i)"
proof -
  have d: "dist32 lo (lo + of_nat k) = k" using assms by (simp add: dist32_add)
  have "InWindow sn lo (lo + of_nat k) \<longleftrightarrow> dist32 lo sn \<le> k"
    using serial.inw_iff [of lo "lo + of_nat k"] assms by (simp add: d)
  moreover have "dist32 lo (lo + of_nat i) \<le> k" if "i \<le> k" for i
    using that assms by (simp add: dist32_add)
  ultimately show ?thesis using dist32_of_nat [of sn lo] by metis
qed

theorem window_membership_witness:
  "(3::nat) < 2 ^ 31 \<and> (InWindow 1 0xFFFFFFFF (0xFFFFFFFF + of_nat 3) \<longleftrightarrow> (\<exists>i \<le> (3::nat). 1 = 0xFFFFFFFF + (of_nat i :: u32)))"
  using window_membership [of 3 1 "0xFFFFFFFF"] by simp

text \<open>RFC 1982 comparison: two different serial numbers are ordered one way or the other, and
  \<open>GreaterThan\<close> is the converse of \<open>LessThan\<close>, except for the numbers exactly half the space apart,
  where \<open>LessThan\<close> holds in both directions.\<close>

lemma serial_comparison:
  "(LessThan a b \<and> LessThan b a \<longleftrightarrow> b = a + 2 ^ 31) \<and>
   (a \<noteq> b \<and> b \<noteq> a + 2 ^ 31 \<longrightarrow> LessThan a b \<noteq> LessThan b a \<and> GreaterThan b a = LessThan a b)"
proof -
  have "b = a + 2 ^ 31 \<longleftrightarrow> dist32 a b = 2 ^ 31"
    using dist32_of_nat [of b a] dist32_add [of "2 ^ 31" a] by auto
  moreover have "dist32 b a \<noteq> 2 ^ 31" if "dist32 a b \<noteq> 2 ^ 31" "a \<noteq> b"
    using that dist32_swap [OF that(2)] dist32_less [of a b] by auto
  moreover have "dist32 a b = 2 ^ 31 \<Longrightarrow> dist32 b a = 2 ^ 31"
    using dist32_swap [of a b] by fastforce
  ultimately show ?thesis
    using serial.trichotomy [of a b] serial.trichotomy [of b a] serial.lt_irrefl [of a]
    by (auto simp: LessThan_dist)
qed

theorem serial_comparison_witness:
  "LessThan 0xFFFFFFFF (1::u32) \<noteq> LessThan 1 0xFFFFFFFF \<and> GreaterThan 1 0xFFFFFFFF"
  using serial_comparison [of "0xFFFFFFFF" 1] by (simp add: LessThan_def)

end
