(* ===== verification/Pdu_Base.thy ===== *)
theory Pdu_Base
  imports ISCSI_Prelude
begin

text \<open>
  The parts of \<open>internal/pdu\<close> that every PDU type shares: \<open>opcode.go\<close>, \<open>errors.go\<close>,
  \<open>padding.go\<close>, \<open>bhs.go\<close> and the \<open>Header\<close> of \<open>header.go\<close>. A Basic Header Segment is a list of
  48 bytes; a Go \<open>error\<close> result is the left side of a sum.

  The locale \<open>bhs_codec\<close> is Go's interface \<open>PDU\<close>: what a concrete type's \<open>MarshalBHS\<close> and
  \<open>UnmarshalBHS\<close> owe each other. It is interpreted once per PDU type.
\<close>

section \<open>Opcodes\<close>

abbreviation (input) OpNOPOut :: u8 where "OpNOPOut \<equiv> 0x00"
abbreviation (input) OpSCSICommand :: u8 where "OpSCSICommand \<equiv> 0x01"
abbreviation (input) OpTaskMgmtReq :: u8 where "OpTaskMgmtReq \<equiv> 0x02"
abbreviation (input) OpLoginReq :: u8 where "OpLoginReq \<equiv> 0x03"
abbreviation (input) OpTextReq :: u8 where "OpTextReq \<equiv> 0x04"
abbreviation (input) OpDataOut :: u8 where "OpDataOut \<equiv> 0x05"
abbreviation (input) OpLogoutReq :: u8 where "OpLogoutReq \<equiv> 0x06"
abbreviation (input) OpSNACKReq :: u8 where "OpSNACKReq \<equiv> 0x10"
abbreviation (input) OpNOPIn :: u8 where "OpNOPIn \<equiv> 0x20"
abbreviation (input) OpSCSIResponse :: u8 where "OpSCSIResponse \<equiv> 0x21"
abbreviation (input) OpTaskMgmtResp :: u8 where "OpTaskMgmtResp \<equiv> 0x22"
abbreviation (input) OpLoginResp :: u8 where "OpLoginResp \<equiv> 0x23"
abbreviation (input) OpTextResp :: u8 where "OpTextResp \<equiv> 0x24"
abbreviation (input) OpDataIn :: u8 where "OpDataIn \<equiv> 0x25"
abbreviation (input) OpLogoutResp :: u8 where "OpLogoutResp \<equiv> 0x26"
abbreviation (input) OpR2T :: u8 where "OpR2T \<equiv> 0x31"
abbreviation (input) OpAsyncMsg :: u8 where "OpAsyncMsg \<equiv> 0x32"
abbreviation (input) OpReject :: u8 where "OpReject \<equiv> 0x3f"

definition opcodeNames :: "(u8 \<times> string) list" where
  "opcodeNames =
    [(OpNOPOut, ''NOP-Out''), (OpSCSICommand, ''SCSI Command''),
     (OpTaskMgmtReq, ''Task Management Request''), (OpLoginReq, ''Login Request''),
     (OpTextReq, ''Text Request''), (OpDataOut, ''Data-Out''),
     (OpLogoutReq, ''Logout Request''), (OpSNACKReq, ''SNACK Request''),
     (OpNOPIn, ''NOP-In''), (OpSCSIResponse, ''SCSI Response''),
     (OpTaskMgmtResp, ''Task Management Response''), (OpLoginResp, ''Login Response''),
     (OpTextResp, ''Text Response''), (OpDataIn, ''Data-In''),
     (OpLogoutResp, ''Logout Response''), (OpR2T, ''Ready To Transfer''),
     (OpAsyncMsg, ''Async Message''), (OpReject, ''Reject'')]"

definition IsInitiator :: "u8 \<Rightarrow> bool" where
  "IsInitiator o' \<longleftrightarrow> o' AND 0x20 = 0"

definition IsTarget :: "u8 \<Rightarrow> bool" where
  "IsTarget o' \<longleftrightarrow> o' AND 0x20 \<noteq> 0"

section \<open>Protocol errors\<close>

datatype ViolationKind = BadOpcode | OversizedSegment | MalformedBHS | MRDSLExceeded

text \<open>\<open>ProtocolError\<close> without its formatted \<open>Detail\<close> text.\<close>

record ProtocolError =
  pe_Kind :: ViolationKind
  pe_Op :: string
  pe_Opcode :: u8
  pe_Got :: u32
  pe_Limit :: u32

section \<open>Padding\<close>

definition PadLen :: "u32 \<Rightarrow> u32" where
  "PadLen n = (4 - n mod 4) mod 4"

lemma unat_PadLen: "unat (PadLen n) = (4 - unat n mod 4) mod 4"
proof -
  have m: "unat (n mod 4) = unat n mod 4" by (simp add: unat_mod_distrib)
  have "n mod 4 \<le> 4" by (simp add: word_le_nat_alt m less_imp_le)
  then have "unat (4 - n mod 4) = 4 - unat n mod 4" by (simp add: unat_sub m)
  then show ?thesis by (simp add: PadLen_def unat_mod_distrib)
qed

lemma pad_aligned: "(n + (4 - n mod 4) mod 4) mod 4 = (0::nat)"
proof -
  have "n mod 4 < 4" by simp
  then consider "n mod 4 = 0" | "n mod 4 = 1" | "n mod 4 = 2" | "n mod 4 = 3" by linarith
  then show ?thesis by cases (simp_all, presburger+)
qed

lemma unat_PadLen_less: "unat (PadLen n) < 4"
  by (simp add: unat_PadLen)

section \<open>BHS fields\<close>

abbreviation BHSLength :: nat where "BHSLength \<equiv> 48"

definition encodeDataSegmentLength :: "bytes \<Rightarrow> u32 \<Rightarrow> ProtocolError + bytes" where
  "encodeDataSegmentLength bhs dsLen =
     (if dsLen > 0xFFFFFF
      then Inl \<lparr>pe_Kind = OversizedSegment, pe_Op = ''encode'', pe_Opcode = 0,
                pe_Got = dsLen, pe_Limit = 0xFFFFFF\<rparr>
      else let bhs = bhs[5 := ucast (drop_bit 16 dsLen)];
               bhs = bhs[6 := ucast (drop_bit 8 dsLen)];
               bhs = bhs[7 := ucast dsLen]
           in Inr bhs)"

definition decodeDataSegmentLength :: "bytes \<Rightarrow> u32" where
  "decodeDataSegmentLength bhs =
     push_bit 16 (ucast (bhs ! 5)) OR push_bit 8 (ucast (bhs ! 6)) OR ucast (bhs ! 7)"

definition encodeOpcodeByte :: "u8 \<Rightarrow> bool \<Rightarrow> u8" where
  "encodeOpcodeByte opcode immediate =
     (let b = opcode AND 0x3f in if immediate then b OR 0x40 else b)"

definition decodeOpcodeByte :: "u8 \<Rightarrow> u8 \<times> bool" where
  "decodeOpcodeByte b = (b AND 0x3f, b AND 0x40 \<noteq> 0)"

lemma u32_24_bits:
  assumes "(v::u32) \<le> 0xFFFFFF" and "24 \<le> n" shows "\<not> bit v n"
proof -
  have "unat v < 2 ^ 24" using assms(1) by (simp add: word_le_nat_alt)
  then have "take_bit 24 v = v"
    by (simp add: word_unat_eq_iff unsigned_take_bit_eq take_bit_nat_eq_self)
  then have "bit v n \<longleftrightarrow> bit (take_bit 24 v) n" by simp
  then show ?thesis using assms(2) by (simp add: bit_take_bit_iff)
qed

lemma dsl_roundtrip:
  assumes "(v::u32) \<le> 0xFFFFFF"
  shows "push_bit 16 (ucast (ucast (drop_bit 16 v) :: u8))
      OR push_bit 8 (ucast (ucast (drop_bit 8 v) :: u8)) OR ucast (ucast v :: u8) = (v::u32)"
proof (rule bit_word_eqI)
  fix n assume "n < LENGTH(32)"
  then consider "n < 8" | "8 \<le> n" "n < 16" | "16 \<le> n" "n < 24" | "24 \<le> n" "n < 32" by force
  then show "bit (push_bit 16 (ucast (ucast (drop_bit 16 v) :: u8))
      OR push_bit 8 (ucast (ucast (drop_bit 8 v) :: u8)) OR ucast (ucast v :: u8) :: u32) n = bit v n"
    using u32_24_bits [OF assms, of n] by cases (auto simp: bit_simps)
qed

section \<open>LUN encoding\<close>

definition EncodeSAMLUN :: "u64 \<Rightarrow> bytes option" where
  \<comment> \<open>\<open>None\<close> is the panic\<close>
  "EncodeSAMLUN lun =
     (if lun > 0xFFFF then None else Some (PutUint16 (replicate 8 0) 0 (ucast lun)))"

definition DecodeSAMLUN :: "bytes \<Rightarrow> u64" where
  "DecodeSAMLUN b = (if length b < 2 then 0 else ucast (Uint16 (slice b 0 2)))"

section \<open>The common header\<close>

record Header =
  Immediate :: bool
  OpCode :: u8
  Final :: bool
  TotalAHSLength :: u8
  DataSegmentLen :: u32
  LUN :: bytes
  InitiatorTaskTag :: u32

definition zeroHeader :: Header where
  "zeroHeader = \<lparr>Immediate = False, OpCode = 0, Final = False, TotalAHSLength = 0,
     DataSegmentLen = 0, LUN = replicate 8 0, InitiatorTaskTag = 0\<rparr>"

definition marshalHeader :: "Header \<Rightarrow> bytes \<Rightarrow> ProtocolError + bytes" where
  "marshalHeader h bhs =
     (let bhs = bhs[0 := encodeOpcodeByte (OpCode h) (Immediate h)];
          bhs = or_if (Final h) bhs 1 0x80;
          bhs = bhs[4 := TotalAHSLength h]
      in case encodeDataSegmentLength bhs (DataSegmentLen h) of
           Inl e \<Rightarrow> Inl e
         | Inr bhs \<Rightarrow>
             let bhs = put_at bhs 8 (LUN h)
             in Inr (PutUint32 bhs 16 (InitiatorTaskTag h)))"

definition unmarshalHeader :: "bytes \<Rightarrow> Header" where
  "unmarshalHeader bhs =
     (let (op, imm) = decodeOpcodeByte (bhs ! 0)
      in \<lparr>Immediate = imm, OpCode = op, Final = (bhs ! 1 AND 0x80 \<noteq> 0),
          TotalAHSLength = bhs ! 4, DataSegmentLen = decodeDataSegmentLength bhs,
          LUN = slice bhs 8 16, InitiatorTaskTag = Uint32 (slice bhs 16 20)\<rparr>)"

text \<open>
  Every \<open>MarshalBHS\<close> starts from 48 zero bytes, writes the header and returns its error, and
  otherwise goes on with the fields of its own type.
\<close>

definition marshalWith :: "Header \<Rightarrow> (bytes \<Rightarrow> bytes) \<Rightarrow> ProtocolError + bytes" where
  "marshalWith h rest =
     (case marshalHeader h (replicate BHSLength 0) of
        Inl e \<Rightarrow> Inl e
      | Inr bhs \<Rightarrow> Inr (rest bhs))"

definition wf_Header :: "Header \<Rightarrow> bool" where
  "wf_Header h \<longleftrightarrow> length (LUN h) = 8 \<and> DataSegmentLen h \<le> 0xFFFFFF"

definition oversized :: "u32 \<Rightarrow> ProtocolError" where
  "oversized n = \<lparr>pe_Kind = OversizedSegment, pe_Op = ''encode'', pe_Opcode = 0,
                  pe_Got = n, pe_Limit = 0xFFFFFF\<rparr>"

lemma marshalWith_oversized:
  "DataSegmentLen h > 0xFFFFFF \<Longrightarrow> marshalWith h rest = Inl (oversized (DataSegmentLen h))"
  by (simp add: marshalWith_def marshalHeader_def encodeDataSegmentLength_def oversized_def Let_def)

lemma marshalHeader_ok:
  "wf_Header h \<Longrightarrow> marshalHeader h bhs = Inr
     (PutUint32 (put_at (bhs[0 := encodeOpcodeByte (OpCode h) (Immediate h),
        1 := bhs[0 := encodeOpcodeByte (OpCode h) (Immediate h)] ! 1 OR (if Final h then 0x80 else 0),
        4 := TotalAHSLength h, 5 := ucast (drop_bit 16 (DataSegmentLen h)),
        6 := ucast (drop_bit 8 (DataSegmentLen h)), 7 := ucast (DataSegmentLen h)]) 8 (LUN h))
      16 (InitiatorTaskTag h))"
  by (simp add: marshalHeader_def encodeDataSegmentLength_def wf_Header_def or_if_update Let_def
      not_less [symmetric])

lemma encodeOpcodeByte_decode [wire]:
  "decodeOpcodeByte (encodeOpcodeByte op imm) = (op AND 0x3f, imm)"
  by (simp add: decodeOpcodeByte_def encodeOpcodeByte_def Let_def flags)

section \<open>The contract of a PDU type\<close>

definition bhs_ok :: "u8 \<Rightarrow> bytes \<Rightarrow> bool" where
  "bhs_ok op b \<longleftrightarrow> length b = BHSLength \<and> fst (decodeOpcodeByte (b ! 0)) = op"

locale bhs_codec =
  fixes marshal :: "'p \<Rightarrow> ProtocolError + bytes"
    and unmarshal :: "bytes \<Rightarrow> 'p"
    and wf :: "'p \<Rightarrow> bool"
    and norm :: "'p \<Rightarrow> 'p"
    and hdr :: "'p \<Rightarrow> Header"
    and op :: u8
  assumes roundtrip: "wf p \<Longrightarrow> \<exists>b. marshal p = Inr b \<and> bhs_ok op b \<and> unmarshal b = norm p"
    and too_long: "DataSegmentLen (hdr p) > 0xFFFFFF \<Longrightarrow>
          marshal p = Inl (oversized (DataSegmentLen (hdr p)))"
    and wf_hdr: "wf p \<Longrightarrow> wf_Header (hdr p)"
    and hdr_unmarshal: "hdr (unmarshal b) = unmarshalHeader b"
begin

lemma marshal_ok: "wf p \<Longrightarrow> marshal p = Inr b \<Longrightarrow> bhs_ok op b \<and> unmarshal b = norm p"
  using roundtrip by fastforce

lemma marshal_total: "wf p \<Longrightarrow> \<exists>b. marshal p = Inr b"
  using roundtrip by blast

lemma marshal_inj: "wf p \<Longrightarrow> wf q \<Longrightarrow> marshal p = marshal q \<Longrightarrow> norm p = norm q"
  using marshal_ok marshal_total by metis

lemma marshal_error_iff: "length (LUN (hdr p)) = 8 \<Longrightarrow> \<not> wf_Header (hdr p) \<Longrightarrow>
    marshal p = Inl (oversized (DataSegmentLen (hdr p)))"
  using too_long by (simp add: wf_Header_def not_le)

end

lemmas bhs_codec_simps = marshalWith_def marshalHeader_ok unmarshalHeader_def bhs_ok_def
  decodeDataSegmentLength_def wire flags dsl_roundtrip wf_Header_def Let_def

end
