(* ===== verification/Pdu_Initiator.thy ===== *)
theory Pdu_Initiator
  imports Pdu_Base
begin

text \<open>
  \<open>internal/pdu/initiator.go\<close>: the eight PDU types an initiator sends. Each Go struct is a record
  whose first field is the embedded \<open>Header\<close>; \<open>MarshalBHS\<close> and \<open>UnmarshalBHS\<close> store and read the
  same bytes in the same order as the source. \<open>wf\<close> says that array fields have their array's
  length and that sub-byte fields fit their bits; \<open>norm\<close> is what a decoded header cannot carry:
  the data segment is dropped and the opcode is the type's own (in a Login Request the T bit
  sits where \<open>Final\<close> does and the ISID and TSIH where the LUN does).
\<close>

section \<open>NOPOut\<close>

record NOPOut =
  no_Header :: Header
  no_TargetTransferTag :: u32
  no_CmdSN :: u32
  no_ExpStatSN :: u32
  no_Data :: bytes

definition NOPOut_MarshalBHS :: "NOPOut \<Rightarrow> ProtocolError + bytes" where
  "NOPOut_MarshalBHS p = marshalWith ((no_Header p)\<lparr>OpCode := OpNOPOut\<rparr>) (\<lambda>bhs.
     let bhs = PutUint32 bhs 20 (no_TargetTransferTag p);
         bhs = PutUint32 bhs 24 (no_CmdSN p);
         bhs = PutUint32 bhs 28 (no_ExpStatSN p)
     in bhs)"

definition NOPOut_UnmarshalBHS :: "bytes \<Rightarrow> NOPOut" where
  "NOPOut_UnmarshalBHS bhs = \<lparr>no_Header = unmarshalHeader bhs,
     no_TargetTransferTag = Uint32 (slice bhs 20 24),
     no_CmdSN = Uint32 (slice bhs 24 28),
     no_ExpStatSN = Uint32 (slice bhs 28 32),
     no_Data = []\<rparr>"

definition wf_NOPOut :: "NOPOut \<Rightarrow> bool" where
  "wf_NOPOut p \<longleftrightarrow> wf_Header (no_Header p)"

definition norm_NOPOut :: "NOPOut \<Rightarrow> NOPOut" where
  "norm_NOPOut p = p\<lparr>no_Header := (no_Header p)\<lparr>OpCode := OpNOPOut\<rparr>, no_Data := []\<rparr>"

interpretation nopout: bhs_codec NOPOut_MarshalBHS NOPOut_UnmarshalBHS wf_NOPOut norm_NOPOut no_Header OpNOPOut
proof unfold_locales
  fix p :: NOPOut
  assume "wf_NOPOut p"
  then show "\<exists>b. NOPOut_MarshalBHS p = Inr b \<and> bhs_ok OpNOPOut b \<and> NOPOut_UnmarshalBHS b = norm_NOPOut p"
    by (cases p) (simp add: NOPOut_MarshalBHS_def wf_NOPOut_def norm_NOPOut_def NOPOut_UnmarshalBHS_def bhs_codec_simps)
qed (simp_all add: NOPOut_MarshalBHS_def NOPOut_UnmarshalBHS_def norm_NOPOut_def marshalWith_oversized wf_NOPOut_def)

section \<open>SCSICommand\<close>

record SCSICommand =
  sc_Header :: Header
  sc_Read :: bool
  sc_Write :: bool
  sc_Attr :: u8
  sc_ExpectedDataTransferLength :: u32
  sc_CmdSN :: u32
  sc_ExpStatSN :: u32
  sc_CDB :: bytes
  sc_ImmediateData :: bytes

definition SCSICommand_MarshalBHS :: "SCSICommand \<Rightarrow> ProtocolError + bytes" where
  "SCSICommand_MarshalBHS p = marshalWith ((sc_Header p)\<lparr>OpCode := OpSCSICommand\<rparr>) (\<lambda>bhs.
     let bhs = or_if (sc_Read p) bhs 1 0x40;
         bhs = or_if (sc_Write p) bhs 1 0x20;
         bhs = bhs[1 := bhs ! 1 OR (sc_Attr p AND 0x07)];
         bhs = PutUint32 bhs 20 (sc_ExpectedDataTransferLength p);
         bhs = PutUint32 bhs 24 (sc_CmdSN p);
         bhs = PutUint32 bhs 28 (sc_ExpStatSN p);
         bhs = put_at bhs 32 (sc_CDB p)
     in bhs)"

definition SCSICommand_UnmarshalBHS :: "bytes \<Rightarrow> SCSICommand" where
  "SCSICommand_UnmarshalBHS bhs = \<lparr>sc_Header = unmarshalHeader bhs,
     sc_Read = (bhs ! 1 AND 0x40 \<noteq> 0),
     sc_Write = (bhs ! 1 AND 0x20 \<noteq> 0),
     sc_Attr = bhs ! 1 AND 0x07,
     sc_ExpectedDataTransferLength = Uint32 (slice bhs 20 24),
     sc_CmdSN = Uint32 (slice bhs 24 28),
     sc_ExpStatSN = Uint32 (slice bhs 28 32),
     sc_CDB = slice bhs 32 48,
     sc_ImmediateData = []\<rparr>"

definition wf_SCSICommand :: "SCSICommand \<Rightarrow> bool" where
  "wf_SCSICommand p \<longleftrightarrow> wf_Header (sc_Header p) \<and> unat (sc_Attr p) < 8 \<and> length (sc_CDB p) = 16"

definition norm_SCSICommand :: "SCSICommand \<Rightarrow> SCSICommand" where
  "norm_SCSICommand p = p\<lparr>sc_Header := (sc_Header p)\<lparr>OpCode := OpSCSICommand\<rparr>, sc_ImmediateData := []\<rparr>"

interpretation scsicommand: bhs_codec SCSICommand_MarshalBHS SCSICommand_UnmarshalBHS wf_SCSICommand norm_SCSICommand sc_Header OpSCSICommand
proof unfold_locales
  fix p :: SCSICommand
  assume "wf_SCSICommand p"
  then show "\<exists>b. SCSICommand_MarshalBHS p = Inr b \<and> bhs_ok OpSCSICommand b \<and> SCSICommand_UnmarshalBHS b = norm_SCSICommand p"
    by (cases p) (simp add: SCSICommand_MarshalBHS_def wf_SCSICommand_def norm_SCSICommand_def SCSICommand_UnmarshalBHS_def bhs_codec_simps)
qed (simp_all add: SCSICommand_MarshalBHS_def SCSICommand_UnmarshalBHS_def norm_SCSICommand_def marshalWith_oversized wf_SCSICommand_def)

section \<open>TaskMgmtReq\<close>

record TaskMgmtReq =
  tm_Header :: Header
  tm_Function :: u8
  tm_ReferencedTaskTag :: u32
  tm_CmdSN :: u32
  tm_ExpStatSN :: u32
  tm_RefCmdSN :: u32

definition TaskMgmtReq_MarshalBHS :: "TaskMgmtReq \<Rightarrow> ProtocolError + bytes" where
  "TaskMgmtReq_MarshalBHS p = marshalWith ((tm_Header p)\<lparr>OpCode := OpTaskMgmtReq\<rparr>) (\<lambda>bhs.
     let bhs = bhs[1 := bhs ! 1 OR (tm_Function p AND 0x7f)];
         bhs = PutUint32 bhs 20 (tm_ReferencedTaskTag p);
         bhs = PutUint32 bhs 24 (tm_CmdSN p);
         bhs = PutUint32 bhs 28 (tm_ExpStatSN p);
         bhs = PutUint32 bhs 32 (tm_RefCmdSN p)
     in bhs)"

definition TaskMgmtReq_UnmarshalBHS :: "bytes \<Rightarrow> TaskMgmtReq" where
  "TaskMgmtReq_UnmarshalBHS bhs = \<lparr>tm_Header = unmarshalHeader bhs,
     tm_Function = bhs ! 1 AND 0x7f,
     tm_ReferencedTaskTag = Uint32 (slice bhs 20 24),
     tm_CmdSN = Uint32 (slice bhs 24 28),
     tm_ExpStatSN = Uint32 (slice bhs 28 32),
     tm_RefCmdSN = Uint32 (slice bhs 32 36)\<rparr>"

definition wf_TaskMgmtReq :: "TaskMgmtReq \<Rightarrow> bool" where
  "wf_TaskMgmtReq p \<longleftrightarrow> wf_Header (tm_Header p) \<and> unat (tm_Function p) < 128"

definition norm_TaskMgmtReq :: "TaskMgmtReq \<Rightarrow> TaskMgmtReq" where
  "norm_TaskMgmtReq p = p\<lparr>tm_Header := (tm_Header p)\<lparr>OpCode := OpTaskMgmtReq\<rparr>\<rparr>"

interpretation taskmgmtreq: bhs_codec TaskMgmtReq_MarshalBHS TaskMgmtReq_UnmarshalBHS wf_TaskMgmtReq norm_TaskMgmtReq tm_Header OpTaskMgmtReq
proof unfold_locales
  fix p :: TaskMgmtReq
  assume "wf_TaskMgmtReq p"
  then show "\<exists>b. TaskMgmtReq_MarshalBHS p = Inr b \<and> bhs_ok OpTaskMgmtReq b \<and> TaskMgmtReq_UnmarshalBHS b = norm_TaskMgmtReq p"
    by (cases p) (simp add: TaskMgmtReq_MarshalBHS_def wf_TaskMgmtReq_def norm_TaskMgmtReq_def TaskMgmtReq_UnmarshalBHS_def bhs_codec_simps)
qed (simp_all add: TaskMgmtReq_MarshalBHS_def TaskMgmtReq_UnmarshalBHS_def norm_TaskMgmtReq_def marshalWith_oversized wf_TaskMgmtReq_def)

section \<open>LoginReq\<close>

record LoginReq =
  lq_Header :: Header
  lq_Transit :: bool
  lq_Continue :: bool
  lq_CSG :: u8
  lq_NSG :: u8
  lq_VersionMax :: u8
  lq_VersionMin :: u8
  lq_ISID :: bytes
  lq_TSIH :: u16
  lq_CID :: u16
  lq_CmdSN :: u32
  lq_ExpStatSN :: u32
  lq_Data :: bytes

definition LoginReq_MarshalBHS :: "LoginReq \<Rightarrow> ProtocolError + bytes" where
  "LoginReq_MarshalBHS p = marshalWith ((lq_Header p)\<lparr>OpCode := OpLoginReq\<rparr>) (\<lambda>bhs.
     let bhs = bhs[1 := 0];
         bhs = or_if (lq_Transit p) bhs 1 0x80;
         bhs = or_if (lq_Continue p) bhs 1 0x40;
         bhs = bhs[1 := bhs ! 1 OR push_bit 2 (lq_CSG p AND 0x03)];
         bhs = bhs[1 := bhs ! 1 OR (lq_NSG p AND 0x03)];
         bhs = bhs[2 := lq_VersionMax p];
         bhs = bhs[3 := lq_VersionMin p];
         bhs = put_at bhs 8 (lq_ISID p);
         bhs = PutUint16 bhs 14 (lq_TSIH p);
         bhs = PutUint16 bhs 20 (lq_CID p);
         bhs = PutUint32 bhs 24 (lq_CmdSN p);
         bhs = PutUint32 bhs 28 (lq_ExpStatSN p)
     in bhs)"

definition LoginReq_UnmarshalBHS :: "bytes \<Rightarrow> LoginReq" where
  "LoginReq_UnmarshalBHS bhs = \<lparr>lq_Header = unmarshalHeader bhs,
     lq_Transit = (bhs ! 1 AND 0x80 \<noteq> 0),
     lq_Continue = (bhs ! 1 AND 0x40 \<noteq> 0),
     lq_CSG = drop_bit 2 (bhs ! 1) AND 0x03,
     lq_NSG = bhs ! 1 AND 0x03,
     lq_VersionMax = bhs ! 2,
     lq_VersionMin = bhs ! 3,
     lq_ISID = slice bhs 8 14,
     lq_TSIH = Uint16 (slice bhs 14 16),
     lq_CID = Uint16 (slice bhs 20 22),
     lq_CmdSN = Uint32 (slice bhs 24 28),
     lq_ExpStatSN = Uint32 (slice bhs 28 32),
     lq_Data = []\<rparr>"

definition wf_LoginReq :: "LoginReq \<Rightarrow> bool" where
  "wf_LoginReq p \<longleftrightarrow> wf_Header (lq_Header p) \<and> unat (lq_CSG p) < 4 \<and> unat (lq_NSG p) < 4 \<and> length (lq_ISID p) = 6"

definition norm_LoginReq :: "LoginReq \<Rightarrow> LoginReq" where
  "norm_LoginReq p = p\<lparr>lq_Header := (lq_Header p)\<lparr>OpCode := OpLoginReq, Final := lq_Transit p,
       LUN := lq_ISID p @ be16 (lq_TSIH p)\<rparr>, lq_Data := []\<rparr>"

interpretation loginreq: bhs_codec LoginReq_MarshalBHS LoginReq_UnmarshalBHS wf_LoginReq norm_LoginReq lq_Header OpLoginReq
proof unfold_locales
  fix p :: LoginReq
  assume "wf_LoginReq p"
  then show "\<exists>b. LoginReq_MarshalBHS p = Inr b \<and> bhs_ok OpLoginReq b \<and> LoginReq_UnmarshalBHS b = norm_LoginReq p"
    by (cases p) (simp add: LoginReq_MarshalBHS_def wf_LoginReq_def norm_LoginReq_def LoginReq_UnmarshalBHS_def bhs_codec_simps slice_split [of 8 14 16])
qed (simp_all add: LoginReq_MarshalBHS_def LoginReq_UnmarshalBHS_def norm_LoginReq_def marshalWith_oversized wf_LoginReq_def)

section \<open>TextReq\<close>

record TextReq =
  tq_Header :: Header
  tq_Continue :: bool
  tq_TargetTransferTag :: u32
  tq_CmdSN :: u32
  tq_ExpStatSN :: u32
  tq_Data :: bytes

definition TextReq_MarshalBHS :: "TextReq \<Rightarrow> ProtocolError + bytes" where
  "TextReq_MarshalBHS p = marshalWith ((tq_Header p)\<lparr>OpCode := OpTextReq\<rparr>) (\<lambda>bhs.
     let bhs = or_if (tq_Continue p) bhs 1 0x40;
         bhs = PutUint32 bhs 20 (tq_TargetTransferTag p);
         bhs = PutUint32 bhs 24 (tq_CmdSN p);
         bhs = PutUint32 bhs 28 (tq_ExpStatSN p)
     in bhs)"

definition TextReq_UnmarshalBHS :: "bytes \<Rightarrow> TextReq" where
  "TextReq_UnmarshalBHS bhs = \<lparr>tq_Header = unmarshalHeader bhs,
     tq_Continue = (bhs ! 1 AND 0x40 \<noteq> 0),
     tq_TargetTransferTag = Uint32 (slice bhs 20 24),
     tq_CmdSN = Uint32 (slice bhs 24 28),
     tq_ExpStatSN = Uint32 (slice bhs 28 32),
     tq_Data = []\<rparr>"

definition wf_TextReq :: "TextReq \<Rightarrow> bool" where
  "wf_TextReq p \<longleftrightarrow> wf_Header (tq_Header p)"

definition norm_TextReq :: "TextReq \<Rightarrow> TextReq" where
  "norm_TextReq p = p\<lparr>tq_Header := (tq_Header p)\<lparr>OpCode := OpTextReq\<rparr>, tq_Data := []\<rparr>"

interpretation textreq: bhs_codec TextReq_MarshalBHS TextReq_UnmarshalBHS wf_TextReq norm_TextReq tq_Header OpTextReq
proof unfold_locales
  fix p :: TextReq
  assume "wf_TextReq p"
  then show "\<exists>b. TextReq_MarshalBHS p = Inr b \<and> bhs_ok OpTextReq b \<and> TextReq_UnmarshalBHS b = norm_TextReq p"
    by (cases p) (simp add: TextReq_MarshalBHS_def wf_TextReq_def norm_TextReq_def TextReq_UnmarshalBHS_def bhs_codec_simps)
qed (simp_all add: TextReq_MarshalBHS_def TextReq_UnmarshalBHS_def norm_TextReq_def marshalWith_oversized wf_TextReq_def)

section \<open>DataOut\<close>

record DataOut =
  do_Header :: Header
  do_TargetTransferTag :: u32
  do_ExpStatSN :: u32
  do_DataSN :: u32
  do_BufferOffset :: u32
  do_Data :: bytes

definition DataOut_MarshalBHS :: "DataOut \<Rightarrow> ProtocolError + bytes" where
  "DataOut_MarshalBHS p = marshalWith ((do_Header p)\<lparr>OpCode := OpDataOut\<rparr>) (\<lambda>bhs.
     let bhs = PutUint32 bhs 20 (do_TargetTransferTag p);
         bhs = PutUint32 bhs 28 (do_ExpStatSN p);
         bhs = PutUint32 bhs 36 (do_DataSN p);
         bhs = PutUint32 bhs 40 (do_BufferOffset p)
     in bhs)"

definition DataOut_UnmarshalBHS :: "bytes \<Rightarrow> DataOut" where
  "DataOut_UnmarshalBHS bhs = \<lparr>do_Header = unmarshalHeader bhs,
     do_TargetTransferTag = Uint32 (slice bhs 20 24),
     do_ExpStatSN = Uint32 (slice bhs 28 32),
     do_DataSN = Uint32 (slice bhs 36 40),
     do_BufferOffset = Uint32 (slice bhs 40 44),
     do_Data = []\<rparr>"

definition wf_DataOut :: "DataOut \<Rightarrow> bool" where
  "wf_DataOut p \<longleftrightarrow> wf_Header (do_Header p)"

definition norm_DataOut :: "DataOut \<Rightarrow> DataOut" where
  "norm_DataOut p = p\<lparr>do_Header := (do_Header p)\<lparr>OpCode := OpDataOut\<rparr>, do_Data := []\<rparr>"

interpretation dataout: bhs_codec DataOut_MarshalBHS DataOut_UnmarshalBHS wf_DataOut norm_DataOut do_Header OpDataOut
proof unfold_locales
  fix p :: DataOut
  assume "wf_DataOut p"
  then show "\<exists>b. DataOut_MarshalBHS p = Inr b \<and> bhs_ok OpDataOut b \<and> DataOut_UnmarshalBHS b = norm_DataOut p"
    by (cases p) (simp add: DataOut_MarshalBHS_def wf_DataOut_def norm_DataOut_def DataOut_UnmarshalBHS_def bhs_codec_simps)
qed (simp_all add: DataOut_MarshalBHS_def DataOut_UnmarshalBHS_def norm_DataOut_def marshalWith_oversized wf_DataOut_def)

section \<open>LogoutReq\<close>

record LogoutReq =
  lo_Header :: Header
  lo_ReasonCode :: u8
  lo_CID :: u16
  lo_CmdSN :: u32
  lo_ExpStatSN :: u32

definition LogoutReq_MarshalBHS :: "LogoutReq \<Rightarrow> ProtocolError + bytes" where
  "LogoutReq_MarshalBHS p = marshalWith ((lo_Header p)\<lparr>OpCode := OpLogoutReq\<rparr>) (\<lambda>bhs.
     let bhs = bhs[1 := bhs ! 1 OR (lo_ReasonCode p AND 0x7f)];
         bhs = PutUint16 bhs 20 (lo_CID p);
         bhs = PutUint32 bhs 24 (lo_CmdSN p);
         bhs = PutUint32 bhs 28 (lo_ExpStatSN p)
     in bhs)"

definition LogoutReq_UnmarshalBHS :: "bytes \<Rightarrow> LogoutReq" where
  "LogoutReq_UnmarshalBHS bhs = \<lparr>lo_Header = unmarshalHeader bhs,
     lo_ReasonCode = bhs ! 1 AND 0x7f,
     lo_CID = Uint16 (slice bhs 20 22),
     lo_CmdSN = Uint32 (slice bhs 24 28),
     lo_ExpStatSN = Uint32 (slice bhs 28 32)\<rparr>"

definition wf_LogoutReq :: "LogoutReq \<Rightarrow> bool" where
  "wf_LogoutReq p \<longleftrightarrow> wf_Header (lo_Header p) \<and> unat (lo_ReasonCode p) < 128"

definition norm_LogoutReq :: "LogoutReq \<Rightarrow> LogoutReq" where
  "norm_LogoutReq p = p\<lparr>lo_Header := (lo_Header p)\<lparr>OpCode := OpLogoutReq\<rparr>\<rparr>"

interpretation logoutreq: bhs_codec LogoutReq_MarshalBHS LogoutReq_UnmarshalBHS wf_LogoutReq norm_LogoutReq lo_Header OpLogoutReq
proof unfold_locales
  fix p :: LogoutReq
  assume "wf_LogoutReq p"
  then show "\<exists>b. LogoutReq_MarshalBHS p = Inr b \<and> bhs_ok OpLogoutReq b \<and> LogoutReq_UnmarshalBHS b = norm_LogoutReq p"
    by (cases p) (simp add: LogoutReq_MarshalBHS_def wf_LogoutReq_def norm_LogoutReq_def LogoutReq_UnmarshalBHS_def bhs_codec_simps)
qed (simp_all add: LogoutReq_MarshalBHS_def LogoutReq_UnmarshalBHS_def norm_LogoutReq_def marshalWith_oversized wf_LogoutReq_def)

section \<open>SNACKReq\<close>

record SNACKReq =
  sn_Header :: Header
  sn_Type :: u8
  sn_TargetTransferTag :: u32
  sn_ExpStatSN :: u32
  sn_BegRun :: u32
  sn_RunLength :: u32

definition SNACKReq_MarshalBHS :: "SNACKReq \<Rightarrow> ProtocolError + bytes" where
  "SNACKReq_MarshalBHS p = marshalWith ((sn_Header p)\<lparr>OpCode := OpSNACKReq\<rparr>) (\<lambda>bhs.
     let bhs = bhs[1 := bhs ! 1 OR (sn_Type p AND 0x0f)];
         bhs = PutUint32 bhs 20 (sn_TargetTransferTag p);
         bhs = PutUint32 bhs 28 (sn_ExpStatSN p);
         bhs = PutUint32 bhs 40 (sn_BegRun p);
         bhs = PutUint32 bhs 44 (sn_RunLength p)
     in bhs)"

definition SNACKReq_UnmarshalBHS :: "bytes \<Rightarrow> SNACKReq" where
  "SNACKReq_UnmarshalBHS bhs = \<lparr>sn_Header = unmarshalHeader bhs,
     sn_Type = bhs ! 1 AND 0x0f,
     sn_TargetTransferTag = Uint32 (slice bhs 20 24),
     sn_ExpStatSN = Uint32 (slice bhs 28 32),
     sn_BegRun = Uint32 (slice bhs 40 44),
     sn_RunLength = Uint32 (slice bhs 44 48)\<rparr>"

definition wf_SNACKReq :: "SNACKReq \<Rightarrow> bool" where
  "wf_SNACKReq p \<longleftrightarrow> wf_Header (sn_Header p) \<and> unat (sn_Type p) < 16"

definition norm_SNACKReq :: "SNACKReq \<Rightarrow> SNACKReq" where
  "norm_SNACKReq p = p\<lparr>sn_Header := (sn_Header p)\<lparr>OpCode := OpSNACKReq\<rparr>\<rparr>"

interpretation snackreq: bhs_codec SNACKReq_MarshalBHS SNACKReq_UnmarshalBHS wf_SNACKReq norm_SNACKReq sn_Header OpSNACKReq
proof unfold_locales
  fix p :: SNACKReq
  assume "wf_SNACKReq p"
  then show "\<exists>b. SNACKReq_MarshalBHS p = Inr b \<and> bhs_ok OpSNACKReq b \<and> SNACKReq_UnmarshalBHS b = norm_SNACKReq p"
    by (cases p) (simp add: SNACKReq_MarshalBHS_def wf_SNACKReq_def norm_SNACKReq_def SNACKReq_UnmarshalBHS_def bhs_codec_simps)
qed (simp_all add: SNACKReq_MarshalBHS_def SNACKReq_UnmarshalBHS_def norm_SNACKReq_def marshalWith_oversized wf_SNACKReq_def)

end
