(* ===== verification/Pdu_Target.thy ===== *)
theory Pdu_Target
  imports Pdu_Base
begin

text \<open>
  \<open>internal/pdu/target.go\<close>: the ten PDU types a target sends, in the form of \<open>Pdu_Initiator\<close>.
\<close>

section \<open>NOPIn\<close>

record NOPIn =
  ni_Header :: Header
  ni_TargetTransferTag :: u32
  ni_StatSN :: u32
  ni_ExpCmdSN :: u32
  ni_MaxCmdSN :: u32
  ni_Data :: bytes

definition NOPIn_MarshalBHS :: "NOPIn \<Rightarrow> ProtocolError + bytes" where
  "NOPIn_MarshalBHS p = marshalWith ((ni_Header p)\<lparr>OpCode := OpNOPIn\<rparr>) (\<lambda>bhs.
     let bhs = PutUint32 bhs 20 (ni_TargetTransferTag p);
         bhs = PutUint32 bhs 24 (ni_StatSN p);
         bhs = PutUint32 bhs 28 (ni_ExpCmdSN p);
         bhs = PutUint32 bhs 32 (ni_MaxCmdSN p)
     in bhs)"

definition NOPIn_UnmarshalBHS :: "bytes \<Rightarrow> NOPIn" where
  "NOPIn_UnmarshalBHS bhs = \<lparr>ni_Header = unmarshalHeader bhs,
     ni_TargetTransferTag = Uint32 (slice bhs 20 24),
     ni_StatSN = Uint32 (slice bhs 24 28),
     ni_ExpCmdSN = Uint32 (slice bhs 28 32),
     ni_MaxCmdSN = Uint32 (slice bhs 32 36),
     ni_Data = []\<rparr>"

definition wf_NOPIn :: "NOPIn \<Rightarrow> bool" where
  "wf_NOPIn p \<longleftrightarrow> wf_Header (ni_Header p)"

definition norm_NOPIn :: "NOPIn \<Rightarrow> NOPIn" where
  "norm_NOPIn p = p\<lparr>ni_Header := (ni_Header p)\<lparr>OpCode := OpNOPIn\<rparr>, ni_Data := []\<rparr>"

interpretation nopin: bhs_codec NOPIn_MarshalBHS NOPIn_UnmarshalBHS wf_NOPIn norm_NOPIn ni_Header OpNOPIn
proof unfold_locales
  fix p :: NOPIn
  assume "wf_NOPIn p"
  then show "\<exists>b. NOPIn_MarshalBHS p = Inr b \<and> bhs_ok OpNOPIn b \<and> NOPIn_UnmarshalBHS b = norm_NOPIn p"
    by (cases p) (simp add: NOPIn_MarshalBHS_def wf_NOPIn_def norm_NOPIn_def NOPIn_UnmarshalBHS_def bhs_codec_simps)
qed (simp_all add: NOPIn_MarshalBHS_def NOPIn_UnmarshalBHS_def norm_NOPIn_def marshalWith_oversized wf_NOPIn_def)

section \<open>SCSIResponse\<close>

record SCSIResponse =
  sr_Header :: Header
  sr_BidiOverflow :: bool
  sr_BidiUnderflow :: bool
  sr_Overflow :: bool
  sr_Underflow :: bool
  sr_Response :: u8
  sr_Status :: u8
  sr_SNACKTag :: u32
  sr_StatSN :: u32
  sr_ExpCmdSN :: u32
  sr_MaxCmdSN :: u32
  sr_ExpDataSN :: u32
  sr_BidiResidualCount :: u32
  sr_ResidualCount :: u32
  sr_Data :: bytes

definition SCSIResponse_MarshalBHS :: "SCSIResponse \<Rightarrow> ProtocolError + bytes" where
  "SCSIResponse_MarshalBHS p = marshalWith ((sr_Header p)\<lparr>OpCode := OpSCSIResponse\<rparr>) (\<lambda>bhs.
     let bhs = or_if (sr_BidiOverflow p) bhs 1 0x10;
         bhs = or_if (sr_BidiUnderflow p) bhs 1 0x08;
         bhs = or_if (sr_Overflow p) bhs 1 0x04;
         bhs = or_if (sr_Underflow p) bhs 1 0x02;
         bhs = bhs[2 := sr_Response p];
         bhs = bhs[3 := sr_Status p];
         bhs = PutUint32 bhs 20 (sr_SNACKTag p);
         bhs = PutUint32 bhs 24 (sr_StatSN p);
         bhs = PutUint32 bhs 28 (sr_ExpCmdSN p);
         bhs = PutUint32 bhs 32 (sr_MaxCmdSN p);
         bhs = PutUint32 bhs 36 (sr_ExpDataSN p);
         bhs = PutUint32 bhs 40 (sr_BidiResidualCount p);
         bhs = PutUint32 bhs 44 (sr_ResidualCount p)
     in bhs)"

definition SCSIResponse_UnmarshalBHS :: "bytes \<Rightarrow> SCSIResponse" where
  "SCSIResponse_UnmarshalBHS bhs = \<lparr>sr_Header = unmarshalHeader bhs,
     sr_BidiOverflow = (bhs ! 1 AND 0x10 \<noteq> 0),
     sr_BidiUnderflow = (bhs ! 1 AND 0x08 \<noteq> 0),
     sr_Overflow = (bhs ! 1 AND 0x04 \<noteq> 0),
     sr_Underflow = (bhs ! 1 AND 0x02 \<noteq> 0),
     sr_Response = bhs ! 2,
     sr_Status = bhs ! 3,
     sr_SNACKTag = Uint32 (slice bhs 20 24),
     sr_StatSN = Uint32 (slice bhs 24 28),
     sr_ExpCmdSN = Uint32 (slice bhs 28 32),
     sr_MaxCmdSN = Uint32 (slice bhs 32 36),
     sr_ExpDataSN = Uint32 (slice bhs 36 40),
     sr_BidiResidualCount = Uint32 (slice bhs 40 44),
     sr_ResidualCount = Uint32 (slice bhs 44 48),
     sr_Data = []\<rparr>"

definition wf_SCSIResponse :: "SCSIResponse \<Rightarrow> bool" where
  "wf_SCSIResponse p \<longleftrightarrow> wf_Header (sr_Header p)"

definition norm_SCSIResponse :: "SCSIResponse \<Rightarrow> SCSIResponse" where
  "norm_SCSIResponse p = p\<lparr>sr_Header := (sr_Header p)\<lparr>OpCode := OpSCSIResponse\<rparr>, sr_Data := []\<rparr>"

interpretation scsiresponse: bhs_codec SCSIResponse_MarshalBHS SCSIResponse_UnmarshalBHS wf_SCSIResponse norm_SCSIResponse sr_Header OpSCSIResponse
proof unfold_locales
  fix p :: SCSIResponse
  assume "wf_SCSIResponse p"
  then show "\<exists>b. SCSIResponse_MarshalBHS p = Inr b \<and> bhs_ok OpSCSIResponse b \<and> SCSIResponse_UnmarshalBHS b = norm_SCSIResponse p"
    by (cases p) (simp add: SCSIResponse_MarshalBHS_def wf_SCSIResponse_def norm_SCSIResponse_def SCSIResponse_UnmarshalBHS_def bhs_codec_simps)
qed (simp_all add: SCSIResponse_MarshalBHS_def SCSIResponse_UnmarshalBHS_def norm_SCSIResponse_def marshalWith_oversized wf_SCSIResponse_def)

section \<open>TaskMgmtResp\<close>

record TaskMgmtResp =
  tr_Header :: Header
  tr_Response :: u8
  tr_StatSN :: u32
  tr_ExpCmdSN :: u32
  tr_MaxCmdSN :: u32

definition TaskMgmtResp_MarshalBHS :: "TaskMgmtResp \<Rightarrow> ProtocolError + bytes" where
  "TaskMgmtResp_MarshalBHS p = marshalWith ((tr_Header p)\<lparr>OpCode := OpTaskMgmtResp\<rparr>) (\<lambda>bhs.
     let bhs = bhs[2 := tr_Response p];
         bhs = PutUint32 bhs 24 (tr_StatSN p);
         bhs = PutUint32 bhs 28 (tr_ExpCmdSN p);
         bhs = PutUint32 bhs 32 (tr_MaxCmdSN p)
     in bhs)"

definition TaskMgmtResp_UnmarshalBHS :: "bytes \<Rightarrow> TaskMgmtResp" where
  "TaskMgmtResp_UnmarshalBHS bhs = \<lparr>tr_Header = unmarshalHeader bhs,
     tr_Response = bhs ! 2,
     tr_StatSN = Uint32 (slice bhs 24 28),
     tr_ExpCmdSN = Uint32 (slice bhs 28 32),
     tr_MaxCmdSN = Uint32 (slice bhs 32 36)\<rparr>"

definition wf_TaskMgmtResp :: "TaskMgmtResp \<Rightarrow> bool" where
  "wf_TaskMgmtResp p \<longleftrightarrow> wf_Header (tr_Header p)"

definition norm_TaskMgmtResp :: "TaskMgmtResp \<Rightarrow> TaskMgmtResp" where
  "norm_TaskMgmtResp p = p\<lparr>tr_Header := (tr_Header p)\<lparr>OpCode := OpTaskMgmtResp\<rparr>\<rparr>"

interpretation taskmgmtresp: bhs_codec TaskMgmtResp_MarshalBHS TaskMgmtResp_UnmarshalBHS wf_TaskMgmtResp norm_TaskMgmtResp tr_Header OpTaskMgmtResp
proof unfold_locales
  fix p :: TaskMgmtResp
  assume "wf_TaskMgmtResp p"
  then show "\<exists>b. TaskMgmtResp_MarshalBHS p = Inr b \<and> bhs_ok OpTaskMgmtResp b \<and> TaskMgmtResp_UnmarshalBHS b = norm_TaskMgmtResp p"
    by (cases p) (simp add: TaskMgmtResp_MarshalBHS_def wf_TaskMgmtResp_def norm_TaskMgmtResp_def TaskMgmtResp_UnmarshalBHS_def bhs_codec_simps)
qed (simp_all add: TaskMgmtResp_MarshalBHS_def TaskMgmtResp_UnmarshalBHS_def norm_TaskMgmtResp_def marshalWith_oversized wf_TaskMgmtResp_def)

section \<open>LoginResp\<close>

record LoginResp =
  lr_Header :: Header
  lr_Transit :: bool
  lr_Continue :: bool
  lr_CSG :: u8
  lr_NSG :: u8
  lr_VersionMax :: u8
  lr_VersionActive :: u8
  lr_ISID :: bytes
  lr_TSIH :: u16
  lr_StatSN :: u32
  lr_ExpCmdSN :: u32
  lr_MaxCmdSN :: u32
  lr_StatusClass :: u8
  lr_StatusDetail :: u8
  lr_Data :: bytes

definition LoginResp_MarshalBHS :: "LoginResp \<Rightarrow> ProtocolError + bytes" where
  "LoginResp_MarshalBHS p = marshalWith ((lr_Header p)\<lparr>OpCode := OpLoginResp\<rparr>) (\<lambda>bhs.
     let bhs = bhs[1 := 0];
         bhs = or_if (lr_Transit p) bhs 1 0x80;
         bhs = or_if (lr_Continue p) bhs 1 0x40;
         bhs = bhs[1 := bhs ! 1 OR push_bit 2 (lr_CSG p AND 0x03)];
         bhs = bhs[1 := bhs ! 1 OR (lr_NSG p AND 0x03)];
         bhs = bhs[2 := lr_VersionMax p];
         bhs = bhs[3 := lr_VersionActive p];
         bhs = put_at bhs 8 (lr_ISID p);
         bhs = PutUint16 bhs 14 (lr_TSIH p);
         bhs = PutUint32 bhs 24 (lr_StatSN p);
         bhs = PutUint32 bhs 28 (lr_ExpCmdSN p);
         bhs = PutUint32 bhs 32 (lr_MaxCmdSN p);
         bhs = bhs[36 := lr_StatusClass p];
         bhs = bhs[37 := lr_StatusDetail p]
     in bhs)"

definition LoginResp_UnmarshalBHS :: "bytes \<Rightarrow> LoginResp" where
  "LoginResp_UnmarshalBHS bhs = \<lparr>lr_Header = unmarshalHeader bhs,
     lr_Transit = (bhs ! 1 AND 0x80 \<noteq> 0),
     lr_Continue = (bhs ! 1 AND 0x40 \<noteq> 0),
     lr_CSG = drop_bit 2 (bhs ! 1) AND 0x03,
     lr_NSG = bhs ! 1 AND 0x03,
     lr_VersionMax = bhs ! 2,
     lr_VersionActive = bhs ! 3,
     lr_ISID = slice bhs 8 14,
     lr_TSIH = Uint16 (slice bhs 14 16),
     lr_StatSN = Uint32 (slice bhs 24 28),
     lr_ExpCmdSN = Uint32 (slice bhs 28 32),
     lr_MaxCmdSN = Uint32 (slice bhs 32 36),
     lr_StatusClass = bhs ! 36,
     lr_StatusDetail = bhs ! 37,
     lr_Data = []\<rparr>"

definition wf_LoginResp :: "LoginResp \<Rightarrow> bool" where
  "wf_LoginResp p \<longleftrightarrow> wf_Header (lr_Header p) \<and> unat (lr_CSG p) < 4 \<and> unat (lr_NSG p) < 4 \<and> length (lr_ISID p) = 6"

definition norm_LoginResp :: "LoginResp \<Rightarrow> LoginResp" where
  "norm_LoginResp p = p\<lparr>lr_Header := (lr_Header p)\<lparr>OpCode := OpLoginResp, Final := lr_Transit p,
       LUN := lr_ISID p @ be16 (lr_TSIH p)\<rparr>, lr_Data := []\<rparr>"

interpretation loginresp: bhs_codec LoginResp_MarshalBHS LoginResp_UnmarshalBHS wf_LoginResp norm_LoginResp lr_Header OpLoginResp
proof unfold_locales
  fix p :: LoginResp
  assume "wf_LoginResp p"
  then show "\<exists>b. LoginResp_MarshalBHS p = Inr b \<and> bhs_ok OpLoginResp b \<and> LoginResp_UnmarshalBHS b = norm_LoginResp p"
    by (cases p) (simp add: LoginResp_MarshalBHS_def wf_LoginResp_def norm_LoginResp_def LoginResp_UnmarshalBHS_def bhs_codec_simps slice_split [of 8 14 16])
qed (simp_all add: LoginResp_MarshalBHS_def LoginResp_UnmarshalBHS_def norm_LoginResp_def marshalWith_oversized wf_LoginResp_def)

section \<open>TextResp\<close>

record TextResp =
  te_Header :: Header
  te_Continue :: bool
  te_TargetTransferTag :: u32
  te_StatSN :: u32
  te_ExpCmdSN :: u32
  te_MaxCmdSN :: u32
  te_Data :: bytes

definition TextResp_MarshalBHS :: "TextResp \<Rightarrow> ProtocolError + bytes" where
  "TextResp_MarshalBHS p = marshalWith ((te_Header p)\<lparr>OpCode := OpTextResp\<rparr>) (\<lambda>bhs.
     let bhs = or_if (te_Continue p) bhs 1 0x40;
         bhs = PutUint32 bhs 20 (te_TargetTransferTag p);
         bhs = PutUint32 bhs 24 (te_StatSN p);
         bhs = PutUint32 bhs 28 (te_ExpCmdSN p);
         bhs = PutUint32 bhs 32 (te_MaxCmdSN p)
     in bhs)"

definition TextResp_UnmarshalBHS :: "bytes \<Rightarrow> TextResp" where
  "TextResp_UnmarshalBHS bhs = \<lparr>te_Header = unmarshalHeader bhs,
     te_Continue = (bhs ! 1 AND 0x40 \<noteq> 0),
     te_TargetTransferTag = Uint32 (slice bhs 20 24),
     te_StatSN = Uint32 (slice bhs 24 28),
     te_ExpCmdSN = Uint32 (slice bhs 28 32),
     te_MaxCmdSN = Uint32 (slice bhs 32 36),
     te_Data = []\<rparr>"

definition wf_TextResp :: "TextResp \<Rightarrow> bool" where
  "wf_TextResp p \<longleftrightarrow> wf_Header (te_Header p)"

definition norm_TextResp :: "TextResp \<Rightarrow> TextResp" where
  "norm_TextResp p = p\<lparr>te_Header := (te_Header p)\<lparr>OpCode := OpTextResp\<rparr>, te_Data := []\<rparr>"

interpretation textresp: bhs_codec TextResp_MarshalBHS TextResp_UnmarshalBHS wf_TextResp norm_TextResp te_Header OpTextResp
proof unfold_locales
  fix p :: TextResp
  assume "wf_TextResp p"
  then show "\<exists>b. TextResp_MarshalBHS p = Inr b \<and> bhs_ok OpTextResp b \<and> TextResp_UnmarshalBHS b = norm_TextResp p"
    by (cases p) (simp add: TextResp_MarshalBHS_def wf_TextResp_def norm_TextResp_def TextResp_UnmarshalBHS_def bhs_codec_simps)
qed (simp_all add: TextResp_MarshalBHS_def TextResp_UnmarshalBHS_def norm_TextResp_def marshalWith_oversized wf_TextResp_def)

section \<open>DataIn\<close>

record DataIn =
  di_Header :: Header
  di_Acknowledge :: bool
  di_ResidualOverflow :: bool
  di_ResidualUnderflow :: bool
  di_HasStatus :: bool
  di_Status :: u8
  di_TargetTransferTag :: u32
  di_StatSN :: u32
  di_ExpCmdSN :: u32
  di_MaxCmdSN :: u32
  di_DataSN :: u32
  di_BufferOffset :: u32
  di_ResidualCount :: u32
  di_Data :: bytes

definition DataIn_MarshalBHS :: "DataIn \<Rightarrow> ProtocolError + bytes" where
  "DataIn_MarshalBHS p = marshalWith ((di_Header p)\<lparr>OpCode := OpDataIn\<rparr>) (\<lambda>bhs.
     let bhs = or_if (di_Acknowledge p) bhs 1 0x40;
         bhs = or_if (di_ResidualOverflow p) bhs 1 0x04;
         bhs = or_if (di_ResidualUnderflow p) bhs 1 0x08;
         bhs = or_if (di_HasStatus p) bhs 1 0x01;
         bhs = bhs[3 := di_Status p];
         bhs = PutUint32 bhs 20 (di_TargetTransferTag p);
         bhs = PutUint32 bhs 24 (di_StatSN p);
         bhs = PutUint32 bhs 28 (di_ExpCmdSN p);
         bhs = PutUint32 bhs 32 (di_MaxCmdSN p);
         bhs = PutUint32 bhs 36 (di_DataSN p);
         bhs = PutUint32 bhs 40 (di_BufferOffset p);
         bhs = PutUint32 bhs 44 (di_ResidualCount p)
     in bhs)"

definition DataIn_UnmarshalBHS :: "bytes \<Rightarrow> DataIn" where
  "DataIn_UnmarshalBHS bhs = \<lparr>di_Header = unmarshalHeader bhs,
     di_Acknowledge = (bhs ! 1 AND 0x40 \<noteq> 0),
     di_ResidualOverflow = (bhs ! 1 AND 0x04 \<noteq> 0),
     di_ResidualUnderflow = (bhs ! 1 AND 0x08 \<noteq> 0),
     di_HasStatus = (bhs ! 1 AND 0x01 \<noteq> 0),
     di_Status = bhs ! 3,
     di_TargetTransferTag = Uint32 (slice bhs 20 24),
     di_StatSN = Uint32 (slice bhs 24 28),
     di_ExpCmdSN = Uint32 (slice bhs 28 32),
     di_MaxCmdSN = Uint32 (slice bhs 32 36),
     di_DataSN = Uint32 (slice bhs 36 40),
     di_BufferOffset = Uint32 (slice bhs 40 44),
     di_ResidualCount = Uint32 (slice bhs 44 48),
     di_Data = []\<rparr>"

definition wf_DataIn :: "DataIn \<Rightarrow> bool" where
  "wf_DataIn p \<longleftrightarrow> wf_Header (di_Header p)"

definition norm_DataIn :: "DataIn \<Rightarrow> DataIn" where
  "norm_DataIn p = p\<lparr>di_Header := (di_Header p)\<lparr>OpCode := OpDataIn\<rparr>, di_Data := []\<rparr>"

interpretation datain: bhs_codec DataIn_MarshalBHS DataIn_UnmarshalBHS wf_DataIn norm_DataIn di_Header OpDataIn
proof unfold_locales
  fix p :: DataIn
  assume "wf_DataIn p"
  then show "\<exists>b. DataIn_MarshalBHS p = Inr b \<and> bhs_ok OpDataIn b \<and> DataIn_UnmarshalBHS b = norm_DataIn p"
    by (cases p) (simp add: DataIn_MarshalBHS_def wf_DataIn_def norm_DataIn_def DataIn_UnmarshalBHS_def bhs_codec_simps)
qed (simp_all add: DataIn_MarshalBHS_def DataIn_UnmarshalBHS_def norm_DataIn_def marshalWith_oversized wf_DataIn_def)

section \<open>LogoutResp\<close>

record LogoutResp =
  lp_Header :: Header
  lp_Response :: u8
  lp_StatSN :: u32
  lp_ExpCmdSN :: u32
  lp_MaxCmdSN :: u32
  lp_Time2Wait :: u16
  lp_Time2Retain :: u16

definition LogoutResp_MarshalBHS :: "LogoutResp \<Rightarrow> ProtocolError + bytes" where
  "LogoutResp_MarshalBHS p = marshalWith ((lp_Header p)\<lparr>OpCode := OpLogoutResp\<rparr>) (\<lambda>bhs.
     let bhs = bhs[2 := lp_Response p];
         bhs = PutUint32 bhs 24 (lp_StatSN p);
         bhs = PutUint32 bhs 28 (lp_ExpCmdSN p);
         bhs = PutUint32 bhs 32 (lp_MaxCmdSN p);
         bhs = PutUint16 bhs 40 (lp_Time2Wait p);
         bhs = PutUint16 bhs 42 (lp_Time2Retain p)
     in bhs)"

definition LogoutResp_UnmarshalBHS :: "bytes \<Rightarrow> LogoutResp" where
  "LogoutResp_UnmarshalBHS bhs = \<lparr>lp_Header = unmarshalHeader bhs,
     lp_Response = bhs ! 2,
     lp_StatSN = Uint32 (slice bhs 24 28),
     lp_ExpCmdSN = Uint32 (slice bhs 28 32),
     lp_MaxCmdSN = Uint32 (slice bhs 32 36),
     lp_Time2Wait = Uint16 (slice bhs 40 42),
     lp_Time2Retain = Uint16 (slice bhs 42 44)\<rparr>"

definition wf_LogoutResp :: "LogoutResp \<Rightarrow> bool" where
  "wf_LogoutResp p \<longleftrightarrow> wf_Header (lp_Header p)"

definition norm_LogoutResp :: "LogoutResp \<Rightarrow> LogoutResp" where
  "norm_LogoutResp p = p\<lparr>lp_Header := (lp_Header p)\<lparr>OpCode := OpLogoutResp\<rparr>\<rparr>"

interpretation logoutresp: bhs_codec LogoutResp_MarshalBHS LogoutResp_UnmarshalBHS wf_LogoutResp norm_LogoutResp lp_Header OpLogoutResp
proof unfold_locales
  fix p :: LogoutResp
  assume "wf_LogoutResp p"
  then show "\<exists>b. LogoutResp_MarshalBHS p = Inr b \<and> bhs_ok OpLogoutResp b \<and> LogoutResp_UnmarshalBHS b = norm_LogoutResp p"
    by (cases p) (simp add: LogoutResp_MarshalBHS_def wf_LogoutResp_def norm_LogoutResp_def LogoutResp_UnmarshalBHS_def bhs_codec_simps)
qed (simp_all add: LogoutResp_MarshalBHS_def LogoutResp_UnmarshalBHS_def norm_LogoutResp_def marshalWith_oversized wf_LogoutResp_def)

section \<open>R2T\<close>

record R2T =
  rt_Header :: Header
  rt_TargetTransferTag :: u32
  rt_StatSN :: u32
  rt_ExpCmdSN :: u32
  rt_MaxCmdSN :: u32
  rt_R2TSN :: u32
  rt_BufferOffset :: u32
  rt_DesiredDataTransferLength :: u32

definition R2T_MarshalBHS :: "R2T \<Rightarrow> ProtocolError + bytes" where
  "R2T_MarshalBHS p = marshalWith ((rt_Header p)\<lparr>OpCode := OpR2T\<rparr>) (\<lambda>bhs.
     let bhs = PutUint32 bhs 20 (rt_TargetTransferTag p);
         bhs = PutUint32 bhs 24 (rt_StatSN p);
         bhs = PutUint32 bhs 28 (rt_ExpCmdSN p);
         bhs = PutUint32 bhs 32 (rt_MaxCmdSN p);
         bhs = PutUint32 bhs 36 (rt_R2TSN p);
         bhs = PutUint32 bhs 40 (rt_BufferOffset p);
         bhs = PutUint32 bhs 44 (rt_DesiredDataTransferLength p)
     in bhs)"

definition R2T_UnmarshalBHS :: "bytes \<Rightarrow> R2T" where
  "R2T_UnmarshalBHS bhs = \<lparr>rt_Header = unmarshalHeader bhs,
     rt_TargetTransferTag = Uint32 (slice bhs 20 24),
     rt_StatSN = Uint32 (slice bhs 24 28),
     rt_ExpCmdSN = Uint32 (slice bhs 28 32),
     rt_MaxCmdSN = Uint32 (slice bhs 32 36),
     rt_R2TSN = Uint32 (slice bhs 36 40),
     rt_BufferOffset = Uint32 (slice bhs 40 44),
     rt_DesiredDataTransferLength = Uint32 (slice bhs 44 48)\<rparr>"

definition wf_R2T :: "R2T \<Rightarrow> bool" where
  "wf_R2T p \<longleftrightarrow> wf_Header (rt_Header p)"

definition norm_R2T :: "R2T \<Rightarrow> R2T" where
  "norm_R2T p = p\<lparr>rt_Header := (rt_Header p)\<lparr>OpCode := OpR2T\<rparr>\<rparr>"

interpretation r2t: bhs_codec R2T_MarshalBHS R2T_UnmarshalBHS wf_R2T norm_R2T rt_Header OpR2T
proof unfold_locales
  fix p :: R2T
  assume "wf_R2T p"
  then show "\<exists>b. R2T_MarshalBHS p = Inr b \<and> bhs_ok OpR2T b \<and> R2T_UnmarshalBHS b = norm_R2T p"
    by (cases p) (simp add: R2T_MarshalBHS_def wf_R2T_def norm_R2T_def R2T_UnmarshalBHS_def bhs_codec_simps)
qed (simp_all add: R2T_MarshalBHS_def R2T_UnmarshalBHS_def norm_R2T_def marshalWith_oversized wf_R2T_def)

section \<open>AsyncMsg\<close>

record AsyncMsg =
  am_Header :: Header
  am_StatSN :: u32
  am_ExpCmdSN :: u32
  am_MaxCmdSN :: u32
  am_AsyncEvent :: u8
  am_AsyncVCode :: u8
  am_Parameter1 :: u16
  am_Parameter2 :: u16
  am_Parameter3 :: u16
  am_Data :: bytes

definition AsyncMsg_MarshalBHS :: "AsyncMsg \<Rightarrow> ProtocolError + bytes" where
  "AsyncMsg_MarshalBHS p = marshalWith ((am_Header p)\<lparr>OpCode := OpAsyncMsg\<rparr>) (\<lambda>bhs.
     let bhs = PutUint32 bhs 24 (am_StatSN p);
         bhs = PutUint32 bhs 28 (am_ExpCmdSN p);
         bhs = PutUint32 bhs 32 (am_MaxCmdSN p);
         bhs = bhs[36 := am_AsyncEvent p];
         bhs = bhs[37 := am_AsyncVCode p];
         bhs = PutUint16 bhs 38 (am_Parameter1 p);
         bhs = PutUint16 bhs 40 (am_Parameter2 p);
         bhs = PutUint16 bhs 42 (am_Parameter3 p)
     in bhs)"

definition AsyncMsg_UnmarshalBHS :: "bytes \<Rightarrow> AsyncMsg" where
  "AsyncMsg_UnmarshalBHS bhs = \<lparr>am_Header = unmarshalHeader bhs,
     am_StatSN = Uint32 (slice bhs 24 28),
     am_ExpCmdSN = Uint32 (slice bhs 28 32),
     am_MaxCmdSN = Uint32 (slice bhs 32 36),
     am_AsyncEvent = bhs ! 36,
     am_AsyncVCode = bhs ! 37,
     am_Parameter1 = Uint16 (slice bhs 38 40),
     am_Parameter2 = Uint16 (slice bhs 40 42),
     am_Parameter3 = Uint16 (slice bhs 42 44),
     am_Data = []\<rparr>"

definition wf_AsyncMsg :: "AsyncMsg \<Rightarrow> bool" where
  "wf_AsyncMsg p \<longleftrightarrow> wf_Header (am_Header p)"

definition norm_AsyncMsg :: "AsyncMsg \<Rightarrow> AsyncMsg" where
  "norm_AsyncMsg p = p\<lparr>am_Header := (am_Header p)\<lparr>OpCode := OpAsyncMsg\<rparr>, am_Data := []\<rparr>"

interpretation asyncmsg: bhs_codec AsyncMsg_MarshalBHS AsyncMsg_UnmarshalBHS wf_AsyncMsg norm_AsyncMsg am_Header OpAsyncMsg
proof unfold_locales
  fix p :: AsyncMsg
  assume "wf_AsyncMsg p"
  then show "\<exists>b. AsyncMsg_MarshalBHS p = Inr b \<and> bhs_ok OpAsyncMsg b \<and> AsyncMsg_UnmarshalBHS b = norm_AsyncMsg p"
    by (cases p) (simp add: AsyncMsg_MarshalBHS_def wf_AsyncMsg_def norm_AsyncMsg_def AsyncMsg_UnmarshalBHS_def bhs_codec_simps)
qed (simp_all add: AsyncMsg_MarshalBHS_def AsyncMsg_UnmarshalBHS_def norm_AsyncMsg_def marshalWith_oversized wf_AsyncMsg_def)

section \<open>Reject\<close>

record Reject =
  rj_Header :: Header
  rj_Reason :: u8
  rj_StatSN :: u32
  rj_ExpCmdSN :: u32
  rj_MaxCmdSN :: u32
  rj_DataSN :: u32
  rj_Data :: bytes

definition Reject_MarshalBHS :: "Reject \<Rightarrow> ProtocolError + bytes" where
  "Reject_MarshalBHS p = marshalWith ((rj_Header p)\<lparr>OpCode := OpReject\<rparr>) (\<lambda>bhs.
     let bhs = bhs[2 := rj_Reason p];
         bhs = PutUint32 bhs 24 (rj_StatSN p);
         bhs = PutUint32 bhs 28 (rj_ExpCmdSN p);
         bhs = PutUint32 bhs 32 (rj_MaxCmdSN p);
         bhs = PutUint32 bhs 36 (rj_DataSN p)
     in bhs)"

definition Reject_UnmarshalBHS :: "bytes \<Rightarrow> Reject" where
  "Reject_UnmarshalBHS bhs = \<lparr>rj_Header = unmarshalHeader bhs,
     rj_Reason = bhs ! 2,
     rj_StatSN = Uint32 (slice bhs 24 28),
     rj_ExpCmdSN = Uint32 (slice bhs 28 32),
     rj_MaxCmdSN = Uint32 (slice bhs 32 36),
     rj_DataSN = Uint32 (slice bhs 36 40),
     rj_Data = []\<rparr>"

definition wf_Reject :: "Reject \<Rightarrow> bool" where
  "wf_Reject p \<longleftrightarrow> wf_Header (rj_Header p)"

definition norm_Reject :: "Reject \<Rightarrow> Reject" where
  "norm_Reject p = p\<lparr>rj_Header := (rj_Header p)\<lparr>OpCode := OpReject\<rparr>, rj_Data := []\<rparr>"

interpretation reject: bhs_codec Reject_MarshalBHS Reject_UnmarshalBHS wf_Reject norm_Reject rj_Header OpReject
proof unfold_locales
  fix p :: Reject
  assume "wf_Reject p"
  then show "\<exists>b. Reject_MarshalBHS p = Inr b \<and> bhs_ok OpReject b \<and> Reject_UnmarshalBHS b = norm_Reject p"
    by (cases p) (simp add: Reject_MarshalBHS_def wf_Reject_def norm_Reject_def Reject_UnmarshalBHS_def bhs_codec_simps)
qed (simp_all add: Reject_MarshalBHS_def Reject_UnmarshalBHS_def norm_Reject_def marshalWith_oversized wf_Reject_def)

end
