(* ===== verification/Pdu.thy ===== *)
theory Pdu
  imports Pdu_Initiator Pdu_Target
begin

text \<open>
  \<open>internal/pdu\<close> as a whole: the interface type \<open>PDU\<close> (a datatype with one constructor per Go
  type), \<open>DecodeBHS\<close> of \<open>header.go\<close>, \<open>EncodePDU\<close> of \<open>pdu.go\<close> and the Additional Header
  Segments of \<open>ahs.go\<close>.

  The lemmas lift the per-type contract to the union: what \<open>MarshalBHS\<close> writes, \<open>DecodeBHS\<close>
  reads back, for every PDU type at once; an oversized data segment is the only encoding
  error; an encoded PDU is 4-byte aligned; a list of AHS survives the wire.
\<close>

section \<open>The PDU interface\<close>

datatype PDU =
    PNOPOut NOPOut
  | PSCSICommand SCSICommand
  | PTaskMgmtReq TaskMgmtReq
  | PLoginReq LoginReq
  | PTextReq TextReq
  | PDataOut DataOut
  | PLogoutReq LogoutReq
  | PSNACKReq SNACKReq
  | PNOPIn NOPIn
  | PSCSIResponse SCSIResponse
  | PTaskMgmtResp TaskMgmtResp
  | PLoginResp LoginResp
  | PTextResp TextResp
  | PDataIn DataIn
  | PLogoutResp LogoutResp
  | PR2T R2T
  | PAsyncMsg AsyncMsg
  | PReject Reject

primrec Opcode :: "PDU \<Rightarrow> u8" where
  "Opcode (PNOPOut p) = OpNOPOut"
| "Opcode (PSCSICommand p) = OpSCSICommand"
| "Opcode (PTaskMgmtReq p) = OpTaskMgmtReq"
| "Opcode (PLoginReq p) = OpLoginReq"
| "Opcode (PTextReq p) = OpTextReq"
| "Opcode (PDataOut p) = OpDataOut"
| "Opcode (PLogoutReq p) = OpLogoutReq"
| "Opcode (PSNACKReq p) = OpSNACKReq"
| "Opcode (PNOPIn p) = OpNOPIn"
| "Opcode (PSCSIResponse p) = OpSCSIResponse"
| "Opcode (PTaskMgmtResp p) = OpTaskMgmtResp"
| "Opcode (PLoginResp p) = OpLoginResp"
| "Opcode (PTextResp p) = OpTextResp"
| "Opcode (PDataIn p) = OpDataIn"
| "Opcode (PLogoutResp p) = OpLogoutResp"
| "Opcode (PR2T p) = OpR2T"
| "Opcode (PAsyncMsg p) = OpAsyncMsg"
| "Opcode (PReject p) = OpReject"

primrec MarshalBHS :: "PDU \<Rightarrow> ProtocolError + bytes" where
  "MarshalBHS (PNOPOut p) = NOPOut_MarshalBHS p"
| "MarshalBHS (PSCSICommand p) = SCSICommand_MarshalBHS p"
| "MarshalBHS (PTaskMgmtReq p) = TaskMgmtReq_MarshalBHS p"
| "MarshalBHS (PLoginReq p) = LoginReq_MarshalBHS p"
| "MarshalBHS (PTextReq p) = TextReq_MarshalBHS p"
| "MarshalBHS (PDataOut p) = DataOut_MarshalBHS p"
| "MarshalBHS (PLogoutReq p) = LogoutReq_MarshalBHS p"
| "MarshalBHS (PSNACKReq p) = SNACKReq_MarshalBHS p"
| "MarshalBHS (PNOPIn p) = NOPIn_MarshalBHS p"
| "MarshalBHS (PSCSIResponse p) = SCSIResponse_MarshalBHS p"
| "MarshalBHS (PTaskMgmtResp p) = TaskMgmtResp_MarshalBHS p"
| "MarshalBHS (PLoginResp p) = LoginResp_MarshalBHS p"
| "MarshalBHS (PTextResp p) = TextResp_MarshalBHS p"
| "MarshalBHS (PDataIn p) = DataIn_MarshalBHS p"
| "MarshalBHS (PLogoutResp p) = LogoutResp_MarshalBHS p"
| "MarshalBHS (PR2T p) = R2T_MarshalBHS p"
| "MarshalBHS (PAsyncMsg p) = AsyncMsg_MarshalBHS p"
| "MarshalBHS (PReject p) = Reject_MarshalBHS p"

primrec DataSegment :: "PDU \<Rightarrow> bytes" where
  "DataSegment (PNOPOut p) = no_Data p"
| "DataSegment (PSCSICommand p) = sc_ImmediateData p"
| "DataSegment (PTaskMgmtReq p) = []"
| "DataSegment (PLoginReq p) = lq_Data p"
| "DataSegment (PTextReq p) = tq_Data p"
| "DataSegment (PDataOut p) = do_Data p"
| "DataSegment (PLogoutReq p) = []"
| "DataSegment (PSNACKReq p) = []"
| "DataSegment (PNOPIn p) = ni_Data p"
| "DataSegment (PSCSIResponse p) = sr_Data p"
| "DataSegment (PTaskMgmtResp p) = []"
| "DataSegment (PLoginResp p) = lr_Data p"
| "DataSegment (PTextResp p) = te_Data p"
| "DataSegment (PDataIn p) = di_Data p"
| "DataSegment (PLogoutResp p) = []"
| "DataSegment (PR2T p) = []"
| "DataSegment (PAsyncMsg p) = am_Data p"
| "DataSegment (PReject p) = rj_Data p"

definition DecodeBHS :: "bytes \<Rightarrow> ProtocolError + PDU" where
  "DecodeBHS bhs =
     (let opcode = fst (decodeOpcodeByte (bhs ! 0)) in
      if opcode = OpNOPOut then Inr (PNOPOut (NOPOut_UnmarshalBHS bhs)) else
      if opcode = OpSCSICommand then Inr (PSCSICommand (SCSICommand_UnmarshalBHS bhs)) else
      if opcode = OpTaskMgmtReq then Inr (PTaskMgmtReq (TaskMgmtReq_UnmarshalBHS bhs)) else
      if opcode = OpLoginReq then Inr (PLoginReq (LoginReq_UnmarshalBHS bhs)) else
      if opcode = OpTextReq then Inr (PTextReq (TextReq_UnmarshalBHS bhs)) else
      if opcode = OpDataOut then Inr (PDataOut (DataOut_UnmarshalBHS bhs)) else
      if opcode = OpLogoutReq then Inr (PLogoutReq (LogoutReq_UnmarshalBHS bhs)) else
      if opcode = OpSNACKReq then Inr (PSNACKReq (SNACKReq_UnmarshalBHS bhs)) else
      if opcode = OpNOPIn then Inr (PNOPIn (NOPIn_UnmarshalBHS bhs)) else
      if opcode = OpSCSIResponse then Inr (PSCSIResponse (SCSIResponse_UnmarshalBHS bhs)) else
      if opcode = OpTaskMgmtResp then Inr (PTaskMgmtResp (TaskMgmtResp_UnmarshalBHS bhs)) else
      if opcode = OpLoginResp then Inr (PLoginResp (LoginResp_UnmarshalBHS bhs)) else
      if opcode = OpTextResp then Inr (PTextResp (TextResp_UnmarshalBHS bhs)) else
      if opcode = OpDataIn then Inr (PDataIn (DataIn_UnmarshalBHS bhs)) else
      if opcode = OpLogoutResp then Inr (PLogoutResp (LogoutResp_UnmarshalBHS bhs)) else
      if opcode = OpR2T then Inr (PR2T (R2T_UnmarshalBHS bhs)) else
      if opcode = OpAsyncMsg then Inr (PAsyncMsg (AsyncMsg_UnmarshalBHS bhs)) else
      if opcode = OpReject then Inr (PReject (Reject_UnmarshalBHS bhs)) else
      Inl \<lparr>pe_Kind = BadOpcode, pe_Op = ''decode'', pe_Opcode = opcode,
           pe_Got = ucast opcode, pe_Limit = 0\<rparr>)"

definition EncodePDU :: "PDU \<Rightarrow> ProtocolError + bytes" where
  "EncodePDU p =
     (case MarshalBHS p of
        Inl e \<Rightarrow> Inl e
      | Inr bhs \<Rightarrow>
          let data = DataSegment p;
              dataLen = length data;
              padLen = unat (PadLen (of_nat dataLen));
              out = replicate (BHSLength + dataLen + padLen) 0;
              out = put_at out 0 bhs;
              out = (if dataLen > 0 then put_at out BHSLength data else out)
          in Inr out)"

section \<open>Well-formed PDUs and what decoding keeps\<close>

primrec pdu_header :: "PDU \<Rightarrow> Header" where
  "pdu_header (PNOPOut p) = no_Header p"
| "pdu_header (PSCSICommand p) = sc_Header p"
| "pdu_header (PTaskMgmtReq p) = tm_Header p"
| "pdu_header (PLoginReq p) = lq_Header p"
| "pdu_header (PTextReq p) = tq_Header p"
| "pdu_header (PDataOut p) = do_Header p"
| "pdu_header (PLogoutReq p) = lo_Header p"
| "pdu_header (PSNACKReq p) = sn_Header p"
| "pdu_header (PNOPIn p) = ni_Header p"
| "pdu_header (PSCSIResponse p) = sr_Header p"
| "pdu_header (PTaskMgmtResp p) = tr_Header p"
| "pdu_header (PLoginResp p) = lr_Header p"
| "pdu_header (PTextResp p) = te_Header p"
| "pdu_header (PDataIn p) = di_Header p"
| "pdu_header (PLogoutResp p) = lp_Header p"
| "pdu_header (PR2T p) = rt_Header p"
| "pdu_header (PAsyncMsg p) = am_Header p"
| "pdu_header (PReject p) = rj_Header p"

primrec wf_PDU :: "PDU \<Rightarrow> bool" where
  "wf_PDU (PNOPOut p) = wf_NOPOut p"
| "wf_PDU (PSCSICommand p) = wf_SCSICommand p"
| "wf_PDU (PTaskMgmtReq p) = wf_TaskMgmtReq p"
| "wf_PDU (PLoginReq p) = wf_LoginReq p"
| "wf_PDU (PTextReq p) = wf_TextReq p"
| "wf_PDU (PDataOut p) = wf_DataOut p"
| "wf_PDU (PLogoutReq p) = wf_LogoutReq p"
| "wf_PDU (PSNACKReq p) = wf_SNACKReq p"
| "wf_PDU (PNOPIn p) = wf_NOPIn p"
| "wf_PDU (PSCSIResponse p) = wf_SCSIResponse p"
| "wf_PDU (PTaskMgmtResp p) = wf_TaskMgmtResp p"
| "wf_PDU (PLoginResp p) = wf_LoginResp p"
| "wf_PDU (PTextResp p) = wf_TextResp p"
| "wf_PDU (PDataIn p) = wf_DataIn p"
| "wf_PDU (PLogoutResp p) = wf_LogoutResp p"
| "wf_PDU (PR2T p) = wf_R2T p"
| "wf_PDU (PAsyncMsg p) = wf_AsyncMsg p"
| "wf_PDU (PReject p) = wf_Reject p"

primrec norm_PDU :: "PDU \<Rightarrow> PDU" where
  "norm_PDU (PNOPOut p) = PNOPOut (norm_NOPOut p)"
| "norm_PDU (PSCSICommand p) = PSCSICommand (norm_SCSICommand p)"
| "norm_PDU (PTaskMgmtReq p) = PTaskMgmtReq (norm_TaskMgmtReq p)"
| "norm_PDU (PLoginReq p) = PLoginReq (norm_LoginReq p)"
| "norm_PDU (PTextReq p) = PTextReq (norm_TextReq p)"
| "norm_PDU (PDataOut p) = PDataOut (norm_DataOut p)"
| "norm_PDU (PLogoutReq p) = PLogoutReq (norm_LogoutReq p)"
| "norm_PDU (PSNACKReq p) = PSNACKReq (norm_SNACKReq p)"
| "norm_PDU (PNOPIn p) = PNOPIn (norm_NOPIn p)"
| "norm_PDU (PSCSIResponse p) = PSCSIResponse (norm_SCSIResponse p)"
| "norm_PDU (PTaskMgmtResp p) = PTaskMgmtResp (norm_TaskMgmtResp p)"
| "norm_PDU (PLoginResp p) = PLoginResp (norm_LoginResp p)"
| "norm_PDU (PTextResp p) = PTextResp (norm_TextResp p)"
| "norm_PDU (PDataIn p) = PDataIn (norm_DataIn p)"
| "norm_PDU (PLogoutResp p) = PLogoutResp (norm_LogoutResp p)"
| "norm_PDU (PR2T p) = PR2T (norm_R2T p)"
| "norm_PDU (PAsyncMsg p) = PAsyncMsg (norm_AsyncMsg p)"
| "norm_PDU (PReject p) = PReject (norm_Reject p)"

lemmas pdu_roundtrip =
  nopout.roundtrip scsicommand.roundtrip taskmgmtreq.roundtrip loginreq.roundtrip textreq.roundtrip dataout.roundtrip logoutreq.roundtrip snackreq.roundtrip nopin.roundtrip scsiresponse.roundtrip taskmgmtresp.roundtrip loginresp.roundtrip textresp.roundtrip datain.roundtrip logoutresp.roundtrip r2t.roundtrip asyncmsg.roundtrip reject.roundtrip

lemmas pdu_too_long =
  nopout.too_long scsicommand.too_long taskmgmtreq.too_long loginreq.too_long textreq.too_long dataout.too_long logoutreq.too_long snackreq.too_long nopin.too_long scsiresponse.too_long taskmgmtresp.too_long loginresp.too_long textresp.too_long datain.too_long logoutresp.too_long r2t.too_long asyncmsg.too_long reject.too_long

lemmas pdu_wf_hdr =
  nopout.wf_hdr scsicommand.wf_hdr taskmgmtreq.wf_hdr loginreq.wf_hdr textreq.wf_hdr dataout.wf_hdr logoutreq.wf_hdr snackreq.wf_hdr nopin.wf_hdr scsiresponse.wf_hdr taskmgmtresp.wf_hdr loginresp.wf_hdr textresp.wf_hdr datain.wf_hdr logoutresp.wf_hdr r2t.wf_hdr asyncmsg.wf_hdr reject.wf_hdr

lemmas pdu_hdr_unmarshal =
  nopout.hdr_unmarshal scsicommand.hdr_unmarshal taskmgmtreq.hdr_unmarshal loginreq.hdr_unmarshal textreq.hdr_unmarshal dataout.hdr_unmarshal logoutreq.hdr_unmarshal snackreq.hdr_unmarshal nopin.hdr_unmarshal scsiresponse.hdr_unmarshal taskmgmtresp.hdr_unmarshal loginresp.hdr_unmarshal textresp.hdr_unmarshal datain.hdr_unmarshal logoutresp.hdr_unmarshal r2t.hdr_unmarshal asyncmsg.hdr_unmarshal reject.hdr_unmarshal

lemma MarshalBHS_roundtrip:
  "wf_PDU p \<Longrightarrow> \<exists>b. MarshalBHS p = Inr b \<and> bhs_ok (Opcode p) b \<and> DecodeBHS b = Inr (norm_PDU p)"
  by (cases p) (simp_all add: DecodeBHS_def bhs_ok_def, (drule pdu_roundtrip, force simp: bhs_ok_def)+)

lemma MarshalBHS_too_long:
  "DataSegmentLen (pdu_header p) > 0xFFFFFF \<Longrightarrow>
   MarshalBHS p = Inl (oversized (DataSegmentLen (pdu_header p)))"
  by (cases p) (simp_all add: pdu_too_long)

lemma wf_PDU_header: "wf_PDU p \<Longrightarrow> wf_Header (pdu_header p)"
  by (cases p) (simp_all add: pdu_wf_hdr)

lemma MarshalBHS_length: "wf_PDU p \<Longrightarrow> MarshalBHS p = Inr b \<Longrightarrow> length b = BHSLength"
  using MarshalBHS_roundtrip [of p] by (auto simp: bhs_ok_def)

lemma DecodeBHS_header: "DecodeBHS b = Inr p \<Longrightarrow> pdu_header p = unmarshalHeader b"
  by (auto simp: DecodeBHS_def Let_def pdu_hdr_unmarshal split: if_splits)

lemma DecodeBHS_opcode: "DecodeBHS b = Inr p \<Longrightarrow> Opcode p = fst (decodeOpcodeByte (b ! 0))"
  by (auto simp: DecodeBHS_def Let_def split: if_splits)

lemma DecodeBHS_error: "DecodeBHS b = Inl e \<Longrightarrow> pe_Kind e = BadOpcode"
  by (auto simp: DecodeBHS_def Let_def split: if_splits)

lemma DecodeBHS_known: "(\<exists>p. DecodeBHS b = Inr p) \<longleftrightarrow>
    fst (decodeOpcodeByte (b ! 0)) \<in> fst ` set opcodeNames"
  by (simp add: DecodeBHS_def Let_def opcodeNames_def)

lemma put_at_append:
  "length xs = length a \<Longrightarrow> put_at (a @ b) 0 xs = xs @ b"
  by (rule nth_equalityI) (auto simp: nth_put_at nth_append)

lemma EncodePDU_layout:
  assumes "wf_PDU p" "MarshalBHS p = Inr b"
  shows "EncodePDU p = Inr (b @ DataSegment p @ replicate (unat (PadLen (of_nat (length (DataSegment p))))) 0)"
proof -
  let ?d = "DataSegment p" and ?n = "unat (PadLen (of_nat (length (DataSegment p))))"
  have b: "length b = 48" using MarshalBHS_length [OF assms] .
  have "put_at (replicate (48 + length ?d + ?n) 0) 0 b = b @ replicate (length ?d + ?n) 0"
    using put_at_append [of b "replicate 48 0" "replicate (length ?d + ?n) 0"] b
    by (simp add: replicate_add)
  moreover have "put_at (b @ replicate (length ?d + ?n) 0) 48 ?d = b @ ?d @ replicate ?n 0"
    by (rule nth_equalityI) (auto simp: nth_put_at nth_append b)
  ultimately show ?thesis
    by (cases "DataSegment p = []") (simp_all add: EncodePDU_def assms(2) Let_def)
qed

section \<open>Additional header segments\<close>

record AHS =
  ahs_Type :: u8
  ahs_Data :: bytes

datatype AHSError = TruncatedHeader | InvalidLength | LengthTooLarge nat | DataExceeds

definition marshalSegment :: "AHS \<Rightarrow> bytes" where
  "marshalSegment seg =
     (let ahsLen = of_nat (2 + length (ahs_Data seg)) :: u16;
          hdr = replicate 4 0;
          hdr = PutUint16 hdr 0 ahsLen;
          hdr = hdr[2 := ahs_Type seg];
          hdr = hdr[3 := 0];
          totalLen = of_nat (4 + length (ahs_Data seg)) :: u32;
          pad = PadLen totalLen
      in hdr @ ahs_Data seg @ replicate (unat pad) 0)"

fun MarshalAHS :: "AHS list \<Rightarrow> bytes" where
  "MarshalAHS [] = []"
| "MarshalAHS (seg # segs) = marshalSegment seg @ MarshalAHS segs"

lemma padded_total:
  assumes "n \<le> 16384"
  shows "unat (of_nat (4 + n) + PadLen (of_nat (4 + n)) :: u32) = 4 + n + unat (PadLen (of_nat (4 + n)))"
proof -
  have "unat (of_nat (4 + n) :: u32) = 4 + n"
    using assms by (simp add: unat_of_nat take_bit_nat_eq_self del: of_nat_add of_nat_Suc)
  moreover have "unat (PadLen (of_nat (4 + n))) < 4" by (rule unat_PadLen_less)
  ultimately show ?thesis using assms by (simp add: unat_word_ariths)
qed

function ahsLoop :: "bytes \<Rightarrow> nat \<Rightarrow> AHS list \<Rightarrow> AHSError + AHS list" where
  "ahsLoop data offset segments =
     (if offset < length data then
        if offset + 4 > length data then Inl TruncatedHeader
        else
          let ahsLen = unat (Uint16 (slice data offset (offset + 2)));
              ahsType = data ! (offset + 2)
          in if ahsLen < 2 then Inl InvalidLength
             else
               let dataLen = ahsLen - 2
               in if dataLen > 16384 then Inl (LengthTooLarge dataLen)
                  else
                    let dataStart = offset + 4; dataEnd = dataStart + dataLen
                    in if dataEnd > length data then Inl DataExceeds
                       else
                         let totalLen = of_nat (4 + dataLen) :: u32
                         in ahsLoop data (offset + unat (totalLen + PadLen totalLen))
                              (segments @ [\<lparr>ahs_Type = ahsType,
                                             ahs_Data = slice data dataStart dataEnd\<rparr>])
      else Inr segments)"
  by pat_completeness auto
termination
proof (relation "measure (\<lambda>(data, offset, _). length data - offset)", goal_cases)
  case (2 data offset segments ahsLen ahsType dataLen dataStart dataEnd totalLen)
  then show ?case using padded_total [of dataLen] by simp
qed simp

declare ahsLoop.simps [simp del]

definition UnmarshalAHS :: "bytes \<Rightarrow> AHSError + AHS list" where
  "UnmarshalAHS data = (if length data = 0 then Inr [] else ahsLoop data 0 [])"

definition wf_AHS :: "AHS \<Rightarrow> bool" where
  "wf_AHS seg \<longleftrightarrow> length (ahs_Data seg) \<le> 16384"

lemma length_marshalSegment:
  "length (marshalSegment seg) = 4 + length (ahs_Data seg)
     + unat (PadLen (of_nat (4 + length (ahs_Data seg))))"
  by (simp add: marshalSegment_def Let_def)

lemma ahsLoop_step:
  assumes "unat (Uint16 (slice data offset (offset + 2))) = 2 + n"
    and "n \<le> 16384" and "offset + 4 + n \<le> length data"
  shows "ahsLoop data offset segs
    = ahsLoop data (offset + (4 + n + unat (PadLen (of_nat (4 + n)))))
        (segs @ [\<lparr>ahs_Type = data ! (offset + 2), ahs_Data = slice data (offset + 4) (offset + 4 + n)\<rparr>])"
proof -
  have "offset < length data" "\<not> offset + 4 > length data" using assms(3) by simp_all
  with assms(2,3) show ?thesis
    by (subst ahsLoop.simps) (simp only: assms(1) Let_def if_True if_False, simp add: padded_total [OF assms(2), simplified])
qed

lemma ahsLoop_marshal:
  "list_all wf_AHS segs \<Longrightarrow> ahsLoop (pre @ MarshalAHS segs) (length pre) acc = Inr (acc @ segs)"
proof (induction segs arbitrary: pre acc)
  case Nil
  then show ?case by (simp add: ahsLoop.simps)
next
  case (Cons seg segs)
  let ?n = "length (ahs_Data seg)"
  let ?all = "pre @ marshalSegment seg @ MarshalAHS segs"
  from Cons.prems have n: "?n \<le> 16384" by (simp add: wf_AHS_def)
  have len: "length ?all = length pre + 4 + ?n + unat (PadLen (of_nat (4 + ?n))) + length (MarshalAHS segs)"
    by (simp add: length_marshalSegment)
  have seg: "marshalSegment seg = be16 (of_nat (2 + ?n)) @ [ahs_Type seg, 0] @ ahs_Data seg
      @ replicate (unat (PadLen (of_nat (4 + ?n)))) 0"
    by (simp add: marshalSegment_def Let_def PutUint16_def be16_def numeral_eq_Suc)
  have l: "unat (Uint16 (slice ?all (length pre) (length pre + 2))) = 2 + ?n"
    using n by (simp add: gosimps seg wire unat_of_nat take_bit_nat_eq_self del: of_nat_add of_nat_Suc)
  have t: "?all ! (length pre + 2) = ahs_Type seg"
    by (simp add: seg nth_append be16_def)
  have d: "slice ?all (length pre + 4) (length pre + 4 + ?n) = ahs_Data seg"
    by (simp add: seg gosimps be16_def slice_def)
  have eta: "\<lparr>ahs_Type = ahs_Type seg, ahs_Data = ahs_Data seg\<rparr> = seg" by simp
  have "ahsLoop ?all (length pre) acc
      = ahsLoop ?all (length pre + length (marshalSegment seg)) (acc @ [seg])"
    using len by (subst ahsLoop_step [OF l n], linarith) (simp only: t d eta length_marshalSegment)
  also have "\<dots> = Inr (acc @ seg # segs)"
    using Cons.IH [of "pre @ marshalSegment seg" "acc @ [seg]"] Cons.prems by simp
  finally show ?case by simp
qed

section \<open>Properties\<close>

definition sampleCommand :: PDU where
  "sampleCommand = PSCSICommand \<lparr>sc_Header = zeroHeader\<lparr>Final := True, DataSegmentLen := 3, InitiatorTaskTag := 7\<rparr>,
     sc_Read = False, sc_Write = True, sc_Attr = 1, sc_ExpectedDataTransferLength = 512, sc_CmdSN = 5, sc_ExpStatSN = 6,
     sc_CDB = 0x2a # replicate 15 0, sc_ImmediateData = [1, 2, 3]\<rparr>"

lemma sampleCommand_wf: "wf_PDU sampleCommand"
  by (simp add: sampleCommand_def wf_SCSICommand_def wf_Header_def zeroHeader_def)

text \<open>C12. Every one of the 18 PDU types survives the wire: encoding its Basic Header Segment
  succeeds with 48 bytes, and \<open>DecodeBHS\<close> returns the same type with the same fields.\<close>

theorem pdu_decode_encode:
  assumes "wf_PDU p"
  shows "\<exists>b. MarshalBHS p = Inr b \<and> length b = BHSLength \<and> DecodeBHS b = Inr (norm_PDU p)"
  using MarshalBHS_roundtrip [OF assms] by (auto simp: bhs_ok_def)

theorem pdu_decode_encode_witness:
  "wf_PDU sampleCommand \<and> (\<exists>b. MarshalBHS sampleCommand = Inr b \<and> length b = BHSLength \<and> DecodeBHS b = Inr (norm_PDU sampleCommand))"
  using sampleCommand_wf pdu_decode_encode [OF sampleCommand_wf] by blast

text \<open>The only error of \<open>MarshalBHS\<close> is a data segment beyond 24 bits, and it reports that length.\<close>

theorem pdu_encode_error:
  assumes "length (LUN (pdu_header p)) = 8" "wf_Header (pdu_header p) \<longrightarrow> wf_PDU p"
  shows "MarshalBHS p = Inl e \<longleftrightarrow> DataSegmentLen (pdu_header p) > 0xFFFFFF
    \<and> e = oversized (DataSegmentLen (pdu_header p))"
  using MarshalBHS_too_long [of p] MarshalBHS_roundtrip [of p] assms by (auto simp: wf_Header_def not_less)

theorem pdu_encode_error_witness:
  "MarshalBHS (PNOPOut \<lparr>no_Header = zeroHeader\<lparr>DataSegmentLen := 0x1000000\<rparr>, no_TargetTransferTag = 0, no_CmdSN = 0, no_ExpStatSN = 0, no_Data = []\<rparr>)
    = Inl (oversized 0x1000000)"
  using pdu_encode_error [of "PNOPOut \<lparr>no_Header = zeroHeader\<lparr>DataSegmentLen := 0x1000000\<rparr>, no_TargetTransferTag = 0, no_CmdSN = 0, no_ExpStatSN = 0, no_Data = []\<rparr>" "oversized 0x1000000"]
  by (simp add: zeroHeader_def wf_Header_def)

text \<open>\<open>DecodeBHS\<close> accepts exactly the opcodes of the opcode table, keeps the opcode and the common
  header of what it accepts, and reports the unknown opcode otherwise.\<close>

theorem decode_accepts_exactly_known_opcodes:
  "(case DecodeBHS b of
      Inr p \<Rightarrow> b ! 0 AND 0x3f \<in> fst ` set opcodeNames \<and> Opcode p = b ! 0 AND 0x3f \<and> pdu_header p = unmarshalHeader b
    | Inl e \<Rightarrow> b ! 0 AND 0x3f \<notin> fst ` set opcodeNames \<and> pe_Kind e = BadOpcode \<and> pe_Opcode e = b ! 0 AND 0x3f)"
proof (cases "DecodeBHS b")
  case (Inl e)
  then have "pe_Opcode e = b ! 0 AND 0x3f"
    by (auto simp: DecodeBHS_def Let_def decodeOpcodeByte_def split: if_splits)
  then show ?thesis using DecodeBHS_known [of b] DecodeBHS_error [OF Inl] Inl by (auto simp: decodeOpcodeByte_def)
next
  case (Inr p)
  then show ?thesis
    using DecodeBHS_known [of b] DecodeBHS_opcode [OF Inr] DecodeBHS_header [OF Inr]
    by (auto simp: decodeOpcodeByte_def)
qed

text \<open>An encoded PDU is its 48-byte header, its data and at most three zero bytes, and its length is
  a multiple of four.\<close>

lemma encoded_pdu_layout:
  assumes "wf_PDU p" "length (DataSegment p) < 2 ^ 32"
  shows "\<exists>b pad. EncodePDU p = Inr (b @ DataSegment p @ replicate pad 0) \<and> pad < 4 \<and>
     DecodeBHS b = Inr (norm_PDU p) \<and> length (b @ DataSegment p @ replicate pad 0) mod 4 = 0"
proof -
  obtain b where b: "MarshalBHS p = Inr b" "DecodeBHS b = Inr (norm_PDU p)" "length b = 48"
    using MarshalBHS_roundtrip [OF assms(1)] by (auto simp: bhs_ok_def)
  let ?n = "length (DataSegment p)" and ?pad = "unat (PadLen (of_nat (length (DataSegment p))))"
  have "?pad = (4 - ?n mod 4) mod 4" using assms(2) by (simp add: unat_PadLen unat_of_nat_u32)
  then have "(?n + ?pad) mod 4 = 0" using pad_aligned [of ?n] by simp
  then have "(48 + (?n + ?pad)) mod 4 = 0" by presburger
  then show ?thesis
    using b EncodePDU_layout [OF assms(1) b(1)] unat_PadLen_less [of "of_nat ?n"] by force
qed

theorem encoded_pdu_layout_witness:
  "\<exists>b pad. EncodePDU sampleCommand = Inr (b @ [1, 2, 3] @ replicate pad 0) \<and> pad < 4 \<and>
     DecodeBHS b = Inr (norm_PDU sampleCommand) \<and> length (b @ [1, 2, 3 :: u8] @ replicate pad 0) mod 4 = 0"
  using encoded_pdu_layout [OF sampleCommand_wf] by (simp add: sampleCommand_def)

text \<open>C37. Additional Header Segments survive the wire: what \<open>MarshalAHS\<close> writes, \<open>UnmarshalAHS\<close> reads back
  segment by segment, for any number of segments within the length limit.\<close>

theorem ahs_roundtrip:
  "list_all wf_AHS segs \<Longrightarrow> UnmarshalAHS (MarshalAHS segs) = Inr segs"
  using ahsLoop_marshal [of segs "[]" "[]"] by (cases segs) (simp_all add: UnmarshalAHS_def marshalSegment_def Let_def)

theorem ahs_roundtrip_witness:
  "UnmarshalAHS (MarshalAHS [\<lparr>ahs_Type = 1, ahs_Data = [9, 8, 7]\<rparr>, \<lparr>ahs_Type = 2, ahs_Data = []\<rparr>])
    = Inr [\<lparr>ahs_Type = 1, ahs_Data = [9, 8, 7]\<rparr>, \<lparr>ahs_Type = 2, ahs_Data = []\<rparr>]"
  by (rule ahs_roundtrip) (simp add: wf_AHS_def)

end
