(* ===== verification/Go_Text.thy ===== *)
theory Go_Text
  imports ISCSI_Prelude
begin

text \<open>
  The parts of Go's \<open>strings\<close>, \<open>strconv\<close>, \<open>encoding/hex\<close> and \<open>encoding/base64\<close> that the login code
  uses. A Go \<open>string\<close> is a \<open>string\<close> whose characters stand for its bytes.

  \<^item> \<open>splitOn\<close> and \<open>cutOn\<close> are \<open>strings.Split\<close>, \<open>bytes.Split\<close> and \<open>strings.Cut\<close> for a one-byte separator;
    \<open>joinWith\<close> is \<open>strings.Join\<close>.
  \<^item> \<open>TrimSpace\<close> removes white space as Unicode defines it; beyond ASCII these are the UTF-8
    sequences of \<open>wideSpaces\<close>, which is all that decoding the first or last rune can find.
  \<^item> \<open>ParseUint\<close> and \<open>FormatUint\<close> are the base-10 functions; a syntax or range error is the left side.
  \<^item> Base64 decoding is that of \<open>StdEncoding\<close>: padding required, line breaks ignored, trailing bits
    not checked.

  Locales state what the protocol code relies on: that printing and parsing numbers, and joining
  and splitting text, are inverse.
\<close>

section \<open>Strings and bytes\<close>

definition byte_of :: "char \<Rightarrow> u8" where
  "byte_of c = of_nat (of_char c)"

definition char_at :: "u8 \<Rightarrow> char" where
  "char_at x = char_of (unat x)"

definition bytes_of :: "string \<Rightarrow> bytes" where
  "bytes_of s = map byte_of s"

definition string_of :: "bytes \<Rightarrow> string" where
  "string_of b = map char_at b"

lemma of_char_less: "(of_char c :: nat) < 256"
  by (metis mod_less_divisor of_char_mod_256 zero_less_numeral)

lemma unat_byte_of: "unat (byte_of c) = of_char c"
  using of_char_less [of c] by (simp add: byte_of_def unat_of_nat take_bit_nat_eq_self)

lemma char_at_byte_of [simp]: "char_at (byte_of c) = c"
  by (simp add: char_at_def unat_byte_of)

lemma byte_of_char_at [simp]: "byte_of (char_at x) = x"
  using unat_u8_less [of x] by (simp add: byte_of_def char_at_def)

lemma string_of_bytes_of [simp]: "string_of (bytes_of s) = s"
  by (simp add: string_of_def bytes_of_def o_def)

lemma bytes_of_string_of [simp]: "bytes_of (string_of b) = b"
  by (simp add: string_of_def bytes_of_def o_def)

lemma byte_of_inj: "byte_of c = byte_of d \<longleftrightarrow> c = d"
  by (metis char_at_byte_of)

section \<open>Splitting and joining\<close>

fun splitOn :: "'a \<Rightarrow> 'a list \<Rightarrow> 'a list list" where
  "splitOn sep [] = [[]]"
| "splitOn sep (c # s) =
     (if c = sep then [] # splitOn sep s
      else (case splitOn sep s of w # ws \<Rightarrow> (c # w) # ws | [] \<Rightarrow> [[c]]))"

text \<open>\<open>strings.Cut\<close>: the text before and after the first separator, and whether there is one.\<close>

fun cutOn :: "'a \<Rightarrow> 'a list \<Rightarrow> 'a list \<times> 'a list \<times> bool" where
  "cutOn sep [] = ([], [], False)"
| "cutOn sep (c # s) =
     (if c = sep then ([], s, True)
      else (let (a, b, found) = cutOn sep s in (c # a, b, found)))"

fun joinWith :: "'a \<Rightarrow> 'a list list \<Rightarrow> 'a list" where
  "joinWith sep [] = []"
| "joinWith sep [w] = w"
| "joinWith sep (w # ws) = w @ sep # joinWith sep ws"

definition hasPrefix :: "'a list \<Rightarrow> 'a list \<Rightarrow> bool" where
  "hasPrefix s p \<longleftrightarrow> take (length p) s = p"

locale splitter =
  fixes split' :: "'a list \<Rightarrow> 'a list list" and join' :: "'a list list \<Rightarrow> 'a list"
    and clean :: "'a list \<Rightarrow> bool"
  assumes split_join: "ws \<noteq> [] \<Longrightarrow> (\<forall>w \<in> set ws. clean w) \<Longrightarrow> split' (join' ws) = ws"
    and join_split: "join' (split' s) = s"
begin

lemma join_inj: "ws \<noteq> [] \<Longrightarrow> vs \<noteq> [] \<Longrightarrow> (\<forall>w \<in> set ws. clean w) \<Longrightarrow> (\<forall>w \<in> set vs. clean w) \<Longrightarrow>
    join' ws = join' vs \<Longrightarrow> ws = vs"
  using split_join by metis

lemma split_inj: "split' s = split' t \<Longrightarrow> s = t"
  using join_split by metis

end

lemma splitOn_not_Nil [simp]: "splitOn sep s \<noteq> []"
  by (induction s) (auto split: list.splits)

lemma splitOn_append: "sep \<notin> set w \<Longrightarrow> splitOn sep (w @ sep # s) = w # splitOn sep s"
  by (induction w) auto

lemma splitOn_single: "sep \<notin> set w \<Longrightarrow> splitOn sep w = [w]"
  by (induction w) auto

lemma joinWith_Cons: "ws \<noteq> [] \<Longrightarrow> joinWith sep (w # ws) = w @ sep # joinWith sep ws"
  by (cases ws) auto

interpretation lst: splitter "splitOn sep" "joinWith sep" "\<lambda>w. sep \<notin> set w" for sep
proof unfold_locales
  show "ws \<noteq> [] \<Longrightarrow> \<forall>w \<in> set ws. sep \<notin> set w \<Longrightarrow> splitOn sep (joinWith sep ws) = ws" for ws :: "'a list list"
  proof (induction ws)
    case (Cons w ws)
    then show ?case by (cases "ws = []") (auto simp: joinWith_Cons splitOn_append splitOn_single)
  qed simp
  show "joinWith sep (splitOn sep s) = s" for s :: "'a list"
    by (induction s) (auto simp: joinWith_Cons split: list.splits, (metis joinWith_Cons append_Cons joinWith.simps(2))+)
qed

lemma cutOn_sep: "sep \<notin> set a \<Longrightarrow> cutOn sep (a @ sep # b) = (a, b, True)"
  by (induction a) auto

lemma cutOn_none: "sep \<notin> set a \<Longrightarrow> cutOn sep a = (a, [], False)"
  by (induction a) auto

section \<open>White space\<close>

definition asciiSpace :: "char \<Rightarrow> bool" where
  "asciiSpace c \<longleftrightarrow> of_char c \<in> {9 ..< 14} \<union> {32 :: nat}"

text \<open>U+0085, U+00A0, U+1680, U+2000 to U+200A, U+2028, U+2029, U+202F, U+205F and U+3000.\<close>

definition wideSpaces :: "string list" where
  "wideSpaces = map (map char_of)
     ([[0xC2, 0x85], [0xC2, 0xA0], [0xE1, 0x9A, 0x80]] @ map (\<lambda>k. [0xE2, 0x80, 0x80 + k]) [0 ..< 11]
      @ [[0xE2, 0x80, 0xA8], [0xE2, 0x80, 0xA9], [0xE2, 0x80, 0xAF], [0xE2, 0x81, 0x9F],
         [0xE3, 0x80, 0x80 :: nat]])"

definition leadingSpace :: "string \<Rightarrow> nat" where
  "leadingSpace s =
     (case s of
        [] \<Rightarrow> 0
      | c # _ \<Rightarrow> if asciiSpace c then 1
                 else (case List.find (hasPrefix s) wideSpaces of Some w \<Rightarrow> length w | None \<Rightarrow> 0))"

definition trailingSpace :: "string \<Rightarrow> nat" where
  "trailingSpace s =
     (case rev s of
        [] \<Rightarrow> 0
      | c # _ \<Rightarrow> if asciiSpace c then 1
                 else (case List.find (\<lambda>w. hasPrefix (rev s) (rev w)) wideSpaces of
                         Some w \<Rightarrow> length w | None \<Rightarrow> 0))"

function trimLeft :: "string \<Rightarrow> string" where
  "trimLeft s = (if leadingSpace s = 0 \<or> s = [] then s else trimLeft (drop (leadingSpace s) s))"
  by pat_completeness auto
termination by (relation "measure length") auto

function trimRight :: "string \<Rightarrow> string" where
  "trimRight s = (if trailingSpace s = 0 \<or> s = [] then s else trimRight (take (length s - trailingSpace s) s))"
  by pat_completeness auto
termination by (relation "measure length") auto

declare trimLeft.simps [simp del] trimRight.simps [simp del]

definition TrimSpace :: "string \<Rightarrow> string" where
  "TrimSpace s = trimRight (trimLeft s)"

section \<open>Decimal numbers\<close>

datatype ParseError = ErrSyntax | ErrRange

definition digitVal :: "char \<Rightarrow> nat option" where
  "digitVal c = (let n = of_char c in if 48 \<le> n \<and> n \<le> 57 then Some (n - 48) else None)"

fun parseDigits :: "nat \<Rightarrow> nat \<Rightarrow> string \<Rightarrow> ParseError + nat" where
  "parseDigits maxVal n [] = Inr n"
| "parseDigits maxVal n (c # s) =
     (case digitVal c of
        None \<Rightarrow> Inl ErrSyntax
      | Some d \<Rightarrow> if n * 10 + d > maxVal then Inl ErrRange else parseDigits maxVal (n * 10 + d) s)"

definition ParseUint :: "string \<Rightarrow> nat \<Rightarrow> ParseError + nat" where
  "ParseUint s bits = (if s = [] then Inl ErrSyntax else parseDigits (2 ^ bits - 1) 0 s)"

fun FormatUint :: "nat \<Rightarrow> string" where
  "FormatUint n = (if n < 10 then [char_of (48 + n)] else FormatUint (n div 10) @ [char_of (48 + n mod 10)])"

declare FormatUint.simps [simp del]

lemma digitVal_char: "d < 10 \<Longrightarrow> digitVal (char_of (48 + d)) = Some d"
  by (simp add: digitVal_def)

lemma parseDigits_append:
  "parseDigits m n (s @ t) = (case parseDigits m n s of Inl e \<Rightarrow> Inl e | Inr k \<Rightarrow> parseDigits m k t)"
  by (induction s arbitrary: n) (auto split: option.split)

lemma FormatUint_not_Nil [simp]: "FormatUint n \<noteq> []"
  by (subst FormatUint.simps) simp

lemma parseDigits_FormatUint: "n \<le> m \<Longrightarrow> parseDigits m 0 (FormatUint n) = Inr n"
proof (induction n rule: FormatUint.induct)
  case (1 n)
  show ?case
  proof (cases "n < 10")
    case True
    then show ?thesis using 1(2) by (subst FormatUint.simps) (simp add: digitVal_char)
  next
    case False
    then have "parseDigits m 0 (FormatUint (n div 10)) = Inr (n div 10)" using 1 by simp
    then show ?thesis using 1(2) False
      by (subst FormatUint.simps) (simp add: parseDigits_append digitVal_char)
  qed
qed

lemma parseDigits_bound: "parseDigits m n s = Inr k \<Longrightarrow> n \<le> m \<Longrightarrow> k \<le> m"
  by (induction s arbitrary: n) (auto split: option.splits if_splits)

locale number_text =
  fixes parse :: "string \<Rightarrow> 'e + nat" and format :: "nat \<Rightarrow> string" and limit :: nat
  assumes parse_format: "n \<le> limit \<Longrightarrow> parse (format n) = Inr n"
    and parse_bound: "parse s = Inr n \<Longrightarrow> n \<le> limit"
begin

lemma format_inj: "m \<le> limit \<Longrightarrow> n \<le> limit \<Longrightarrow> format m = format n \<Longrightarrow> m = n"
  using parse_format by (metis sum.inject(2))

lemma reparse: "parse s = Inr n \<Longrightarrow> parse (format n) = Inr n"
  using parse_format parse_bound by blast

end

interpretation num: number_text "\<lambda>s. ParseUint s bits" FormatUint "2 ^ bits - 1" for bits
  by unfold_locales (auto simp: ParseUint_def parseDigits_FormatUint dest: parseDigits_bound split: if_splits)

section \<open>Hexadecimal and Base64\<close>

definition hexDigit :: "nat \<Rightarrow> char" where
  "hexDigit d = (if d < 10 then char_of (48 + d) else char_of (87 + d))"

definition hexVal :: "char \<Rightarrow> nat option" where
  "hexVal c = (let n = of_char c in
     if 48 \<le> n \<and> n \<le> 57 then Some (n - 48)
     else if 97 \<le> n \<and> n \<le> 102 then Some (n - 87)
     else if 65 \<le> n \<and> n \<le> 70 then Some (n - 55) else None)"

fun hexEncode :: "bytes \<Rightarrow> string" where
  "hexEncode [] = []"
| "hexEncode (b # bs) = hexDigit (unat b div 16) # hexDigit (unat b mod 16) # hexEncode bs"

text \<open>\<open>None\<close> is either error of \<open>hex.DecodeString\<close>: an invalid byte or an odd length.\<close>

fun hexDecode :: "string \<Rightarrow> bytes option" where
  "hexDecode [] = Some []"
| "hexDecode [c] = None"
| "hexDecode (c # d # s) =
     (case (hexVal c, hexVal d) of
        (Some x, Some y) \<Rightarrow> map_option (Cons (of_nat (16 * x + y))) (hexDecode s)
      | _ \<Rightarrow> None)"

lemma hexVal_hexDigit: "d < 16 \<Longrightarrow> hexVal (hexDigit d) = Some d"
  by (auto simp: hexVal_def hexDigit_def Let_def)

lemma hexDecode_hexEncode: "hexDecode (hexEncode b) = Some b"
proof (induction b)
  case (Cons x b)
  have "unat x div 16 < 16" using unat_u8_less [of x] by (simp add: div_less_iff_less_mult)
  then show ?case using Cons by (simp add: hexVal_hexDigit del: of_nat_add of_nat_mult)
qed simp

definition b64Val :: "char \<Rightarrow> nat option" where
  "b64Val c = (let n = of_char c in
     if 65 \<le> n \<and> n \<le> 90 then Some (n - 65)
     else if 97 \<le> n \<and> n \<le> 122 then Some (n - 71)
     else if 48 \<le> n \<and> n \<le> 57 then Some (n + 4)
     else if n = 43 then Some 62 else if n = 47 then Some 63 else None)"

definition b64Bytes :: "nat \<Rightarrow> nat \<Rightarrow> nat \<Rightarrow> nat \<Rightarrow> bytes" where
  "b64Bytes a b c d = (let v = ((a * 64 + b) * 64 + c) * 64 + d
     in [of_nat (v div 65536), of_nat (v div 256), of_nat v])"

fun b64Quanta :: "string \<Rightarrow> bytes option" where
  "b64Quanta [] = Some []"
| "b64Quanta (a # b # c # d # s) =
     (case (b64Val a, b64Val b) of
        (Some x, Some y) \<Rightarrow>
          if c = CHR ''='' then (if d = CHR ''='' \<and> s = [] then Some (take 1 (b64Bytes x y 0 0)) else None)
          else (case b64Val c of
                  None \<Rightarrow> None
                | Some z \<Rightarrow>
                    if d = CHR ''='' then (if s = [] then Some (take 2 (b64Bytes x y z 0)) else None)
                    else (case b64Val d of
                            None \<Rightarrow> None
                          | Some w \<Rightarrow> map_option (append (b64Bytes x y z w)) (b64Quanta s)))
      | _ \<Rightarrow> None)"
| "b64Quanta _ = None"

definition base64Decode :: "string \<Rightarrow> bytes option" where
  "base64Decode s = b64Quanta (filter (\<lambda>c. of_char c \<noteq> (10 :: nat) \<and> of_char c \<noteq> (13 :: nat)) s)"

end
