(* ===== verification/Pdu_String.thy ===== *)
theory Pdu_String
  imports Pdu Go_Text
begin

text \<open>
  \<open>internal/pdu/stringer.go\<close>: the text of a PDU in logs. The verbs of \<open>fmt.Sprintf\<close> that it uses are
  \<open>hex32\<close> for \<open>0x%08x\<close>, \<open>hex8\<close> for \<open>0x%02x\<close>, \<open>dec\<close> for \<open>%d\<close> and \<open>boolText\<close> for \<open>%t\<close>.
  The lemma shows that the tag can be read off the text of every PDU.
\<close>

definition hex32 :: "u32 \<Rightarrow> string" where
  "hex32 w = ''0x'' @ hexEncode (be32 w)"

definition hex8 :: "u8 \<Rightarrow> string" where
  "hex8 b = ''0x'' @ hexEncode [b]"

definition dec :: "'a::len word \<Rightarrow> string" where
  "dec w = FormatUint (unat w)"

definition boolText :: "bool \<Rightarrow> string" where
  "boolText b = (if b then ''true'' else ''false'')"

definition truncHex :: "bytes \<Rightarrow> nat \<Rightarrow> string" where
  "truncHex b maxBytes = joinWith (CHR '':'') (map (\<lambda>v. hexEncode [v]) (take maxBytes b))"

text \<open>What every text begins with.\<close>

definition tagged :: "string \<Rightarrow> Header \<Rightarrow> string" where
  "tagged name h = name @ ''{ITT:'' @ hex32 (InitiatorTaskTag h)"

section \<open>Initiator PDUs\<close>

definition NOPOut_String :: "NOPOut \<Rightarrow> string" where
  "NOPOut_String p = tagged ''NOPOut'' (no_Header p) @ '' TTT:'' @ hex32 (no_TargetTransferTag p) @ '' CmdSN:'' @
     dec (no_CmdSN p) @ ''}''"

definition SCSICommand_String :: "SCSICommand \<Rightarrow> string" where
  "SCSICommand_String p = tagged ''SCSICommand'' (sc_Header p) @ '' CmdSN:'' @ dec (sc_CmdSN p) @ '' R:'' @
     boolText (sc_Read p) @ '' W:'' @ boolText (sc_Write p) @ '' CDB:'' @ truncHex (sc_CDB p) 8 @ ''}''"

definition TaskMgmtReq_String :: "TaskMgmtReq \<Rightarrow> string" where
  "TaskMgmtReq_String p = tagged ''TaskMgmtReq'' (tm_Header p) @ '' Function:'' @ dec (tm_Function p) @ '' RefTaskTag:'' @
     hex32 (tm_ReferencedTaskTag p) @ '' CmdSN:'' @ dec (tm_CmdSN p) @ ''}''"

definition LoginReq_String :: "LoginReq \<Rightarrow> string" where
  "LoginReq_String p = tagged ''LoginReq'' (lq_Header p) @ '' CSG:'' @ dec (lq_CSG p) @ '' NSG:'' @ dec (lq_NSG p) @ '' T:'' @
     boolText (lq_Transit p) @ '' CmdSN:'' @ dec (lq_CmdSN p) @ ''}''"

definition TextReq_String :: "TextReq \<Rightarrow> string" where
  "TextReq_String p = tagged ''TextReq'' (tq_Header p) @ '' C:'' @ boolText (tq_Continue p) @ '' CmdSN:'' @ dec (tq_CmdSN p) @
     ''}''"

definition DataOut_String :: "DataOut \<Rightarrow> string" where
  "DataOut_String p = tagged ''DataOut'' (do_Header p) @ '' TTT:'' @ hex32 (do_TargetTransferTag p) @ '' DataSN:'' @
     dec (do_DataSN p) @ '' Offset:'' @ dec (do_BufferOffset p) @ '' Len:'' @ FormatUint (length (do_Data p)) @ ''}''"

definition LogoutReq_String :: "LogoutReq \<Rightarrow> string" where
  "LogoutReq_String p = tagged ''LogoutReq'' (lo_Header p) @ '' Reason:'' @ dec (lo_ReasonCode p) @ '' CmdSN:'' @
     dec (lo_CmdSN p) @ ''}''"

definition SNACKReq_String :: "SNACKReq \<Rightarrow> string" where
  "SNACKReq_String p = tagged ''SNACKReq'' (sn_Header p) @ '' Type:'' @ dec (sn_Type p) @ '' BegRun:'' @ dec (sn_BegRun p) @
     '' RunLength:'' @ dec (sn_RunLength p) @ ''}''"

section \<open>Target PDUs\<close>

definition NOPIn_String :: "NOPIn \<Rightarrow> string" where
  "NOPIn_String p = tagged ''NOPIn'' (ni_Header p) @ '' TTT:'' @ hex32 (ni_TargetTransferTag p) @ '' StatSN:'' @
     dec (ni_StatSN p) @ ''}''"

definition SCSIResponse_String :: "SCSIResponse \<Rightarrow> string" where
  "SCSIResponse_String p = tagged ''SCSIResponse'' (sr_Header p) @ '' StatSN:'' @ dec (sr_StatSN p) @ '' Status:'' @
     hex8 (sr_Status p) @ '' Response:'' @ hex8 (sr_Response p) @ ''}''"

definition TaskMgmtResp_String :: "TaskMgmtResp \<Rightarrow> string" where
  "TaskMgmtResp_String p = tagged ''TaskMgmtResp'' (tr_Header p) @ '' Response:'' @ hex8 (tr_Response p) @ '' StatSN:'' @
     dec (tr_StatSN p) @ ''}''"

definition LoginResp_String :: "LoginResp \<Rightarrow> string" where
  "LoginResp_String p = tagged ''LoginResp'' (lr_Header p) @ '' CSG:'' @ dec (lr_CSG p) @ '' NSG:'' @ dec (lr_NSG p) @ '' T:'' @
     boolText (lr_Transit p) @ '' StatSN:'' @ dec (lr_StatSN p) @ '' StatusClass:'' @ hex8 (lr_StatusClass p) @
     '' StatusDetail:'' @ hex8 (lr_StatusDetail p) @ ''}''"

definition TextResp_String :: "TextResp \<Rightarrow> string" where
  "TextResp_String p = tagged ''TextResp'' (te_Header p) @ '' C:'' @ boolText (te_Continue p) @ '' StatSN:'' @
     dec (te_StatSN p) @ ''}''"

definition DataIn_String :: "DataIn \<Rightarrow> string" where
  "DataIn_String p = tagged ''DataIn'' (di_Header p) @ '' StatSN:'' @ dec (di_StatSN p) @ '' DataSN:'' @ dec (di_DataSN p) @
     '' Offset:'' @ dec (di_BufferOffset p) @ '' Len:'' @ FormatUint (length (di_Data p)) @ '' S:'' @
     boolText (di_HasStatus p) @ ''}''"

definition LogoutResp_String :: "LogoutResp \<Rightarrow> string" where
  "LogoutResp_String p = tagged ''LogoutResp'' (lp_Header p) @ '' Response:'' @ hex8 (lp_Response p) @ '' StatSN:'' @
     dec (lp_StatSN p) @ '' T2W:'' @ dec (lp_Time2Wait p) @ '' T2R:'' @ dec (lp_Time2Retain p) @ ''}''"

definition R2T_String :: "R2T \<Rightarrow> string" where
  "R2T_String p = tagged ''R2T'' (rt_Header p) @ '' TTT:'' @ hex32 (rt_TargetTransferTag p) @ '' R2TSN:'' @ dec (rt_R2TSN p) @
     '' Offset:'' @ dec (rt_BufferOffset p) @ '' DDTL:'' @ dec (rt_DesiredDataTransferLength p) @ ''}''"

definition AsyncMsg_String :: "AsyncMsg \<Rightarrow> string" where
  "AsyncMsg_String p = tagged ''AsyncMsg'' (am_Header p) @ '' Event:'' @ dec (am_AsyncEvent p) @ '' StatSN:'' @
     dec (am_StatSN p) @ ''}''"

definition Reject_String :: "Reject \<Rightarrow> string" where
  "Reject_String p = tagged ''Reject'' (rj_Header p) @ '' Reason:'' @ hex8 (rj_Reason p) @ '' StatSN:'' @ dec (rj_StatSN p) @
     ''}''"

section \<open>Any PDU\<close>

primrec PDU_String :: "PDU \<Rightarrow> string" where
  "PDU_String (PNOPOut p) = NOPOut_String p"
| "PDU_String (PSCSICommand p) = SCSICommand_String p"
| "PDU_String (PTaskMgmtReq p) = TaskMgmtReq_String p"
| "PDU_String (PLoginReq p) = LoginReq_String p"
| "PDU_String (PTextReq p) = TextReq_String p"
| "PDU_String (PDataOut p) = DataOut_String p"
| "PDU_String (PLogoutReq p) = LogoutReq_String p"
| "PDU_String (PSNACKReq p) = SNACKReq_String p"
| "PDU_String (PNOPIn p) = NOPIn_String p"
| "PDU_String (PSCSIResponse p) = SCSIResponse_String p"
| "PDU_String (PTaskMgmtResp p) = TaskMgmtResp_String p"
| "PDU_String (PLoginResp p) = LoginResp_String p"
| "PDU_String (PTextResp p) = TextResp_String p"
| "PDU_String (PDataIn p) = DataIn_String p"
| "PDU_String (PLogoutResp p) = LogoutResp_String p"
| "PDU_String (PR2T p) = R2T_String p"
| "PDU_String (PAsyncMsg p) = AsyncMsg_String p"
| "PDU_String (PReject p) = Reject_String p"

primrec PDU_tag :: "PDU \<Rightarrow> u32" where
  "PDU_tag (PNOPOut p) = InitiatorTaskTag (no_Header p)"
| "PDU_tag (PSCSICommand p) = InitiatorTaskTag (sc_Header p)"
| "PDU_tag (PTaskMgmtReq p) = InitiatorTaskTag (tm_Header p)"
| "PDU_tag (PLoginReq p) = InitiatorTaskTag (lq_Header p)"
| "PDU_tag (PTextReq p) = InitiatorTaskTag (tq_Header p)"
| "PDU_tag (PDataOut p) = InitiatorTaskTag (do_Header p)"
| "PDU_tag (PLogoutReq p) = InitiatorTaskTag (lo_Header p)"
| "PDU_tag (PSNACKReq p) = InitiatorTaskTag (sn_Header p)"
| "PDU_tag (PNOPIn p) = InitiatorTaskTag (ni_Header p)"
| "PDU_tag (PSCSIResponse p) = InitiatorTaskTag (sr_Header p)"
| "PDU_tag (PTaskMgmtResp p) = InitiatorTaskTag (tr_Header p)"
| "PDU_tag (PLoginResp p) = InitiatorTaskTag (lr_Header p)"
| "PDU_tag (PTextResp p) = InitiatorTaskTag (te_Header p)"
| "PDU_tag (PDataIn p) = InitiatorTaskTag (di_Header p)"
| "PDU_tag (PLogoutResp p) = InitiatorTaskTag (lp_Header p)"
| "PDU_tag (PR2T p) = InitiatorTaskTag (rt_Header p)"
| "PDU_tag (PAsyncMsg p) = InitiatorTaskTag (am_Header p)"
| "PDU_tag (PReject p) = InitiatorTaskTag (rj_Header p)"

text \<open>The tag follows the first opening brace.\<close>

definition tagOfText :: "string \<Rightarrow> u32 option" where
  "tagOfText s = map_option Uint32 (hexDecode (take 8 (drop 7 (dropWhile (\<lambda>c. c \<noteq> CHR ''{'') s))))"

lemma tagged_tag: "CHR ''{'' \<notin> set name \<Longrightarrow> tagOfText (tagged name h @ rest) = Some (InitiatorTaskTag h)"
proof -
  assume n: "CHR ''{'' \<notin> set name"
  have l: "length (hexEncode (be32 w)) = 8" for w by (simp add: be32_def)
  have "dropWhile (\<lambda>c. c \<noteq> CHR ''{'') (tagged name h @ rest) = ''{ITT:0x'' @ hexEncode (be32 (InitiatorTaskTag h)) @ rest"
    (is "dropWhile ?P _ = ?b")
  proof -
    have "tagged name h @ rest = name @ ?b" by (simp add: tagged_def hex32_def)
    moreover have "\<forall>c\<in>set name. ?P c" using n by auto
    ultimately show ?thesis by (simp add: dropWhile_append2)
  qed
  then show ?thesis by (simp add: tagOfText_def l hexDecode_hexEncode Uint32_be32)
qed

lemma tag_in_text: "tagOfText (PDU_String p) = Some (PDU_tag p)"
  by (cases p) (simp_all add: tagged_tag NOPOut_String_def SCSICommand_String_def TaskMgmtReq_String_def LoginReq_String_def TextReq_String_def DataOut_String_def LogoutReq_String_def SNACKReq_String_def NOPIn_String_def SCSIResponse_String_def TaskMgmtResp_String_def LoginResp_String_def TextResp_String_def DataIn_String_def LogoutResp_String_def R2T_String_def AsyncMsg_String_def Reject_String_def)

end
