(* ===== verification/Digest.thy ===== *)
theory Digest
  imports Pdu_Base
begin

text \<open>
  \<open>internal/digest\<close>: CRC32C header and data digests, over the part of \<open>hash/crc32\<close> they use:
  the reflected, byte-at-a-time update of the standard library with the Castagnoli polynomial
  (\<open>crcEntry\<close> is the table entry \<open>MakeTable\<close> computes for an index, \<open>crcStep\<close> one step of the
  update loop, and the running value is complemented on entry and exit).

  The locale \<open>byte_fold\<close> states what makes a running checksum sensitive to every byte: a step
  is injective in the state and in the byte. It is interpreted on the CRC step, and gives that
  two messages of equal length that differ in one byte never have the same digest.
\<close>

section \<open>The standard library's CRC\<close>

definition crcBit :: "u32 \<Rightarrow> u32" where
  "crcBit c = (if c AND 1 = 1 then drop_bit 1 c XOR 0x82f63b78 else drop_bit 1 c)"

definition crcEntry :: "u8 \<Rightarrow> u32" where
  "crcEntry b = (crcBit ^^ 8) (ucast b)"

definition crcStep :: "u32 \<Rightarrow> u8 \<Rightarrow> u32" where
  "crcStep crc v = crcEntry (ucast crc XOR v) XOR drop_bit 8 crc"

definition crcUpdate :: "u32 \<Rightarrow> bytes \<Rightarrow> u32" where
  "crcUpdate crc p = NOT (foldl crcStep (NOT crc) p)"

definition Checksum :: "bytes \<Rightarrow> u32" where
  "Checksum data = crcUpdate 0 data"

section \<open>The package\<close>

datatype DigestType = DigestHeader | DigestData

record DigestError =
  de_Type :: DigestType
  de_Expected :: u32
  de_Actual :: u32

definition HeaderDigest :: "bytes \<Rightarrow> u32" where
  "HeaderDigest bhsAndAHS = Checksum bhsAndAHS"

definition DataDigest :: "bytes \<Rightarrow> u32" where
  "DataDigest data =
     (let padLen = (4 - length data mod 4) mod 4
      in if padLen = 0 then Checksum data
         else let h = 0;
                  h = crcUpdate h data;
                  h = crcUpdate h (replicate padLen 0)
              in h)"

section \<open>Sensitivity of a running checksum\<close>

locale byte_fold =
  fixes step :: "'s \<Rightarrow> 'b \<Rightarrow> 's"
  assumes step_state: "step s b = step s' b \<Longrightarrow> s = s'"
    and step_byte: "step s b = step s b' \<Longrightarrow> b = b'"
begin

lemma fold_state: "foldl step s bs = foldl step s' bs \<Longrightarrow> s = s'"
  by (induction bs arbitrary: s s') (auto dest: step_state)

lemma fold_one_byte: "foldl step s (xs @ a # ys) = foldl step s (xs @ b # ys) \<longleftrightarrow> a = b"
  by (auto dest!: fold_state step_byte)

end

subsection \<open>The CRC step is linear and injective\<close>

lemma xor_cancel: "(a::u32) XOR c = b XOR c \<longleftrightarrow> a = b" "c XOR a = c XOR b \<longleftrightarrow> a = b"
  by (auto simp: bit_eq_iff bit_xor_iff)

lemma not_bit_32: "32 \<le> n \<Longrightarrow> \<not> bit (c::u32) n"
  using bit_imp_le_length [of c n] by auto

lemma unat_ucast_eq: "unat (ucast (b::u8) :: u32) = unat b"
  using unsigned_less [of b, where 'a = nat] by (simp add: unsigned_ucast_eq take_bit_nat_eq_self)

lemma and_1_bit: "(c::u32) AND 1 = 1 \<longleftrightarrow> bit c 0"
  by (metis and_one_eq bit_0 one_neq_zero odd_iff_mod_2_eq_one even_iff_mod_2_eq_zero)

lemma crcBit_xor: "crcBit (a XOR b) = crcBit a XOR crcBit b"
  by (auto simp: crcBit_def and_1_bit bit_xor_iff drop_bit_xor xor.assoc xor.left_commute xor.commute)

lemma crcBits_xor: "(crcBit ^^ n) (a XOR b) = (crcBit ^^ n) a XOR (crcBit ^^ n) b"
  by (induction n) (simp_all add: crcBit_xor)

lemma crcBit_eq_0: "crcBit c = 0 \<longleftrightarrow> c = 0"
proof
  assume z: "crcBit c = 0"
  have "\<not> bit c 0"
  proof
    assume "bit c 0"
    then have "bit (drop_bit 1 c XOR 0x82f63b78) 31 = False"
      using z by (simp add: crcBit_def and_1_bit)
    moreover have "bit (drop_bit 1 c XOR 0x82f63b78) 31"
      by (simp add: bit_xor_iff bit_drop_bit_eq not_bit_32)
    ultimately show False by simp
  qed
  moreover from this z have "drop_bit 1 c = 0" by (simp add: crcBit_def and_1_bit)
  moreover from this have "\<not> bit c (Suc n)" for n
    using bit_drop_bit_eq [of 1 c] by (simp add: fun_eq_iff)
  ultimately have "\<not> bit c n" for n by (cases n) auto
  then show "c = 0" by (simp add: bit_eq_iff)
qed (simp add: crcBit_def)

lemma crcBit_inj: "crcBit a = crcBit b \<Longrightarrow> a = b"
  using crcBit_eq_0 [of "a XOR b"] xor_cancel(1) [of a b b] by (simp add: crcBit_xor)

lemma crcBits_inj: "(crcBit ^^ n) a = (crcBit ^^ n) b \<Longrightarrow> a = b"
  by (induction n) (auto dest: crcBit_inj)

lemma crcBits_shift: "\<forall>i < n. \<not> bit c i \<Longrightarrow> (crcBit ^^ n) c = drop_bit n c"
proof (induction n arbitrary: c)
  case (Suc n)
  then have "crcBit c = drop_bit 1 c" by (simp add: crcBit_def and_1_bit)
  moreover have "(crcBit ^^ n) (drop_bit 1 c) = drop_bit n (drop_bit 1 c)"
    using Suc.prems by (intro Suc.IH) (simp add: bit_drop_bit_eq)
  ultimately show ?case by (simp add: funpow_swap1)
qed simp

lemma crcStep_bits: "crcStep c b = (crcBit ^^ 8) (c XOR ucast b)"
proof -
  define hi where "hi = c AND NOT (mask 8)"
  have c: "c = ucast (ucast c :: u8) XOR hi"
    by (rule bit_word_eqI) (auto simp: hi_def bit_simps)
  have "(crcBit ^^ 8) hi = drop_bit 8 hi"
    by (rule crcBits_shift) (auto simp: hi_def bit_simps)
  also have "\<dots> = drop_bit 8 c"
  proof (rule bit_word_eqI)
    fix n show "bit (drop_bit 8 hi) n = bit (drop_bit 8 c) n"
      using not_bit_32 [of "8 + n" c] by (cases "24 \<le> n") (auto simp: hi_def bit_simps)
  qed
  finally have hi: "(crcBit ^^ 8) hi = drop_bit 8 c" .
  have "c XOR ucast b = ucast (ucast c XOR b :: u8) XOR hi"
    by (subst c) (rule bit_word_eqI, auto simp: bit_simps hi_def)
  then show ?thesis by (simp add: crcStep_def crcEntry_def crcBits_xor hi)
qed

interpretation crc: byte_fold crcStep
proof
  show "s = s'" if "crcStep s b = crcStep s' b" for s s' b
    using crcBits_inj that by (simp add: crcStep_bits) (metis xor_cancel(1))
  show "b = b'" if "crcStep s b = crcStep s b'" for s b b'
  proof -
    from that have "(ucast b :: u32) = ucast b'"
      unfolding crcStep_bits by (metis crcBits_inj xor_cancel(2))
    then have "unat (ucast b :: u32) = unat (ucast b' :: u32)" by simp
    then show ?thesis by (simp add: unat_ucast_eq word_unat_eq_iff)
  qed
qed

lemma crcUpdate_append: "crcUpdate (crcUpdate c xs) ys = crcUpdate c (xs @ ys)"
  by (simp add: crcUpdate_def)

lemma DataDigest_padded:
  "DataDigest data = Checksum (data @ replicate ((4 - length data mod 4) mod 4) 0)"
  by (simp add: DataDigest_def Checksum_def crcUpdate_append Let_def)

lemma Checksum_one_byte: "Checksum (xs @ a # ys) = Checksum (xs @ b # ys) \<longleftrightarrow> a = b"
  by (simp add: Checksum_def crcUpdate_def crc.fold_one_byte del: foldl_append)

lemma DataDigest_one_byte: "DataDigest (xs @ a # ys) = DataDigest (xs @ b # ys) \<longleftrightarrow> a = b"
  by (simp add: DataDigest_padded Checksum_one_byte)

text \<open>The check value of CRC32C, the first vector of \<open>crc32c_test.go\<close>.\<close>

lemma funpow_8: "(f ^^ 8) x = f (f (f (f (f (f (f (f x)))))))"
  by (simp add: numeral_eq_Suc)

lemmas crc_eval = HeaderDigest_def DataDigest_padded Checksum_def crcUpdate_def crcStep_bits
  funpow_8 crcBit_def

lemma crc32c_check_value:
  "HeaderDigest [0x31, 0x32, 0x33, 0x34, 0x35, 0x36, 0x37, 0x38, 0x39] = 0xe3069283"
  by (simp add: crc_eval)

end
