(* ===== verification/Framer.thy ===== *)
theory Framer
  imports Digest
begin

text \<open>
  \<open>internal/transport/framer.go\<close> and \<open>pool.go\<close>, with \<open>Session.stampDigests\<close> of
  \<open>internal/session/session.go\<close>, which prepares what the framer writes.

  A TCP stream is the list of bytes that arrive before it ends; \<open>ReadFull\<close> is \<open>io.ReadFull\<close> on
  it. \<open>ReadRawPDU\<close> returns the PDU and the rest of the stream, or the error. \<open>WriteRawPDU\<close> fills
  a buffer taken from the pool: the pool's old contents are an argument, because \<open>GetBuffer\<close>
  does not clear them. Sizes are 32-bit words as in the source; offsets into a payload, whose
  length is below \<open>2 ^ 25\<close>, are natural numbers.

  The lemmas show that the written bytes do not depend on the recycled buffer, that reading
  inverts writing (for a whole sequence of PDUs, and for either digest byte order) and that a
  changed byte under a digest is reported as a digest error.
\<close>

section \<open>Byte order of the digests\<close>

datatype ByteOrder = LittleEndian | BigEndian

primrec boPutUint32 :: "ByteOrder \<Rightarrow> u32 \<Rightarrow> bytes" where
  "boPutUint32 LittleEndian v = le32 v"
| "boPutUint32 BigEndian v = be32 v"

primrec boUint32 :: "ByteOrder \<Rightarrow> bytes \<Rightarrow> u32" where
  "boUint32 LittleEndian b = LEUint32 b"
| "boUint32 BigEndian b = Uint32 b"

locale byte_order =
  fixes put :: "u32 \<Rightarrow> bytes" and get :: "bytes \<Rightarrow> u32"
  assumes get_put: "get (put v) = v"
    and length_put: "length (put v) = 4"
begin

lemma put_inj: "put v = put w \<longleftrightarrow> v = w"
  using get_put by metis

lemma put_nonempty: "put v \<noteq> []"
  using length_put [of v] by auto

lemma take_put: "take 4 (put v @ rest) = put v" "drop 4 (put v @ rest) = rest"
  by (simp_all add: length_put)

end

interpretation bo: byte_order "boPutUint32 b" "boUint32 b" for b
  by unfold_locales (cases b; simp add: wire)+

section \<open>Raw PDUs\<close>

record RawPDU =
  raw_BHS :: bytes
  raw_AHS :: bytes
  raw_DataSegment :: bytes
  raw_HeaderDigest :: u32
  raw_DataDigest :: u32
  raw_HasHDigest :: bool
  raw_HasDDigest :: bool

definition bareRaw :: "bytes \<Rightarrow> bytes \<Rightarrow> RawPDU" where
  "bareRaw bhs ds = \<lparr>raw_BHS = bhs, raw_AHS = [], raw_DataSegment = ds, raw_HeaderDigest = 0,
     raw_DataDigest = 0, raw_HasHDigest = False, raw_HasDDigest = False\<rparr>"

datatype ReadError =
    EOF | UnexpectedEOF
  | ProtocolErr ProtocolError
  | DigestErr DigestError

definition ReadFull :: "nat \<Rightarrow> bytes \<Rightarrow> ReadError + bytes \<times> bytes" where
  "ReadFull n s =
     (if n \<le> length s then Inr (take n s, drop n s)
      else if s = [] then Inl EOF else Inl UnexpectedEOF)"

definition digestInput :: "RawPDU \<Rightarrow> bytes" where
  "digestInput raw = (if length (raw_AHS raw) > 0 then raw_BHS raw @ raw_AHS raw else raw_BHS raw)"

text \<open>Stages 5 and 6: cut the payload into its parts, then verify the digests.\<close>

definition parsePayload ::
    "bytes \<Rightarrow> bytes \<Rightarrow> nat \<Rightarrow> nat \<Rightarrow> nat \<Rightarrow> bool \<Rightarrow> bool \<Rightarrow> ByteOrder \<Rightarrow> RawPDU" where
  "parsePayload bhs payload ahsLen dsLen padLen digestHeader digestData byteOrder =
     (let raw = bareRaw bhs [];
          off = 0;
          (raw, off) = (if ahsLen > 0
            then (raw\<lparr>raw_AHS := slice payload off (off + ahsLen)\<rparr>, off + ahsLen) else (raw, off));
          (raw, off) = (if digestHeader
            then (raw\<lparr>raw_HeaderDigest := boUint32 byteOrder (slice payload off (off + 4)),
                      raw_HasHDigest := True\<rparr>, off + 4) else (raw, off))
      in if dsLen > 0
         then let raw = raw\<lparr>raw_DataSegment := slice payload off (off + dsLen)\<rparr>;
                  off = off + dsLen + padLen
              in if digestData
                 then raw\<lparr>raw_DataDigest := boUint32 byteOrder (slice payload off (off + 4)),
                          raw_HasDDigest := True\<rparr>
                 else raw
         else raw)"

definition verifyDigests :: "RawPDU \<Rightarrow> nat \<Rightarrow> bool \<Rightarrow> bool \<Rightarrow> DigestError option" where
  "verifyDigests raw dsLen digestHeader digestData =
     (if digestHeader \<and> HeaderDigest (digestInput raw) \<noteq> raw_HeaderDigest raw
      then Some \<lparr>de_Type = DigestHeader, de_Expected = HeaderDigest (digestInput raw),
                 de_Actual = raw_HeaderDigest raw\<rparr>
      else if digestData \<and> dsLen > 0 \<and> DataDigest (raw_DataSegment raw) \<noteq> raw_DataDigest raw
      then Some \<lparr>de_Type = DigestData, de_Expected = DataDigest (raw_DataSegment raw),
                 de_Actual = raw_DataDigest raw\<rparr>
      else None)"

text \<open>Stage 3: the number of bytes after the BHS.\<close>

definition remainingLen :: "u32 \<Rightarrow> u32 \<Rightarrow> bool \<Rightarrow> bool \<Rightarrow> u32" where
  "remainingLen ahsLen dsLen digestHeader digestData =
     (let remaining = ahsLen;
          remaining = (if digestHeader then remaining + 4 else remaining);
          padLen = PadLen dsLen;
          remaining = remaining + (dsLen + padLen)
      in if digestData \<and> dsLen > 0 then remaining + 4 else remaining)"

definition ReadRawPDU ::
    "bytes \<Rightarrow> bool \<Rightarrow> bool \<Rightarrow> u32 \<Rightarrow> ByteOrder \<Rightarrow> ReadError + RawPDU \<times> bytes" where
  "ReadRawPDU r digestHeader digestData maxRecvDSL byteOrder =
     (case ReadFull BHSLength r of
        Inl e \<Rightarrow> Inl e
      | Inr (bhs, r) \<Rightarrow>
          let ahsLen = ucast (bhs ! 4) * 4 :: u32;
              dsLen = push_bit 16 (ucast (bhs ! 5)) OR push_bit 8 (ucast (bhs ! 6)) OR ucast (bhs ! 7)
          in if dsLen > 0xFFFFFF
             then Inl (ProtocolErr \<lparr>pe_Kind = OversizedSegment, pe_Op = ''decode'', pe_Opcode = 0,
                                    pe_Got = dsLen, pe_Limit = 0xFFFFFF\<rparr>)
             else
               let remaining = remainingLen ahsLen dsLen digestHeader digestData;
                   padLen = PadLen dsLen
               in if remaining = 0 then Inr (bareRaw bhs [], r)
                  else case ReadFull (unat remaining) r of
                         Inl e \<Rightarrow> Inl e
                       | Inr (payload, r) \<Rightarrow>
                           let raw = parsePayload bhs payload (unat ahsLen) (unat dsLen) (unat padLen)
                                       digestHeader digestData byteOrder
                           in case verifyDigests raw (unat dsLen) digestHeader digestData of
                                Some e \<Rightarrow> Inl (DigestErr e)
                              | None \<Rightarrow> Inr (raw, r))"

text \<open>\<open>GetBuffer\<close> hands out \<open>size\<close> bytes: recycled ones as they are, fresh ones zero.\<close>

definition bufferOf :: "bytes \<Rightarrow> nat \<Rightarrow> bytes" where
  "bufferOf pool size' = take size' (pool @ replicate size' 0)"

definition wireTotal :: "RawPDU \<Rightarrow> u32" where
  "wireTotal p =
     (let dsLen = of_nat (length (raw_DataSegment p));
          padLen = PadLen dsLen;
          total = of_nat BHSLength + of_nat (length (raw_AHS p));
          total = (if raw_HasHDigest p then total + 4 else total);
          total = total + (dsLen + padLen)
      in if raw_HasDDigest p \<and> dsLen > 0 then total + 4 else total)"

definition WriteRawPDU :: "bytes \<Rightarrow> RawPDU \<Rightarrow> ByteOrder \<Rightarrow> bytes" where
  "WriteRawPDU pool p byteOrder =
     (let dsLen = of_nat (length (raw_DataSegment p)) :: u32;
          padLen = PadLen dsLen;
          total = wireTotal p;
          buf = bufferOf pool (unat total);
          off = 0;
          buf = put_at buf off (raw_BHS p);
          off = off + BHSLength;
          (buf, off) = (if length (raw_AHS p) > 0
            then (put_at buf off (raw_AHS p), off + length (raw_AHS p)) else (buf, off));
          (buf, off) = (if raw_HasHDigest p
            then (put_at buf off (boPutUint32 byteOrder (raw_HeaderDigest p)), off + 4)
            else (buf, off));
          (buf, off) = (if dsLen > 0
            then let buf = put_at buf off (raw_DataSegment p);
                     off = off + unat dsLen;
                     buf = put_at buf off (replicate (unat padLen) 0);
                     off = off + unat padLen
                 in if raw_HasDDigest p
                    then (put_at buf off (boPutUint32 byteOrder (raw_DataDigest p)), off + 4)
                    else (buf, off)
            else (buf, off))
      in take off buf)"

definition ValidateOutgoingSegmentLength :: "u32 \<Rightarrow> u32 \<Rightarrow> ProtocolError option" where
  "ValidateOutgoingSegmentLength dsLen targetMRDSL =
     (if targetMRDSL > 0 \<and> dsLen > targetMRDSL
      then Some \<lparr>pe_Kind = MRDSLExceeded, pe_Op = ''validate'', pe_Opcode = 0,
                 pe_Got = dsLen, pe_Limit = targetMRDSL\<rparr>
      else None)"

definition stampDigests :: "bool \<Rightarrow> bool \<Rightarrow> RawPDU \<Rightarrow> RawPDU" where
  "stampDigests digestHeader digestData raw =
     (let raw = (if digestHeader
                 then raw\<lparr>raw_HeaderDigest := HeaderDigest (digestInput raw), raw_HasHDigest := True\<rparr>
                 else raw)
      in if digestData \<and> length (raw_DataSegment raw) > 0
         then raw\<lparr>raw_DataDigest := DataDigest (raw_DataSegment raw), raw_HasDDigest := True\<rparr>
         else raw)"

section \<open>What is on the wire\<close>

definition padding :: "bytes \<Rightarrow> bytes" where
  "padding ds = replicate (unat (PadLen (of_nat (length ds)))) 0"

definition wireLayout :: "RawPDU \<Rightarrow> ByteOrder \<Rightarrow> bytes" where
  "wireLayout p bo = raw_BHS p @ raw_AHS p
     @ (if raw_HasHDigest p then boPutUint32 bo (raw_HeaderDigest p) else [])
     @ (if raw_DataSegment p = [] then []
        else raw_DataSegment p @ padding (raw_DataSegment p)
             @ (if raw_HasDDigest p then boPutUint32 bo (raw_DataDigest p) else []))"

definition wf_Raw :: "RawPDU \<Rightarrow> bool" where
  "wf_Raw p \<longleftrightarrow> length (raw_BHS p) = BHSLength \<and> length (raw_AHS p) \<le> 1020
     \<and> length (raw_DataSegment p) < 2 ^ 24"

lemma unat_wireTotal:
  assumes "wf_Raw p"
  shows "unat (wireTotal p) = length (wireLayout p bo)"
proof -
  define dsLen :: u32 where "dsLen = of_nat (length (raw_DataSegment p))"
  have d: "unat dsLen = length (raw_DataSegment p)" "length (raw_DataSegment p) < 2 ^ 24"
    using assms by (simp_all add: wf_Raw_def dsLen_def unat_of_nat_u32)
  have a: "unat (of_nat (length (raw_AHS p)) :: u32) = length (raw_AHS p)" "length (raw_AHS p) \<le> 1020"
    using assms by (simp_all add: wf_Raw_def unat_of_nat_u32)
  have q: "unat (PadLen dsLen) < 4" by (rule unat_PadLen_less)
  have z: "dsLen = 0 \<longleftrightarrow> raw_DataSegment p = []" using d by (simp add: word_unat_eq_iff)
  have s: "unat (dsLen + PadLen dsLen) = unat dsLen + unat (PadLen dsLen)"
    using d q by (simp add: unat_plus_u32)
  show ?thesis
    using d a q s assms(1) z
    by (auto simp: Let_def wireTotal_def wireLayout_def padding_def wf_Raw_def unat_plus_u32 bo.length_put
        word_less_nat_alt dsLen_def PadLen_def)
qed

lemma length_bufferOf [simp]: "length (bufferOf pool n) = n"
  by (simp add: bufferOf_def)

lemma WriteRawPDU_wire:
  assumes "wf_Raw p"
  shows "WriteRawPDU pool p bo = wireLayout p bo"
proof -
  define ds where "ds = raw_DataSegment p"
  define buf where "buf = bufferOf pool (length (wireLayout p bo))"
  define hd where "hd = (if raw_HasHDigest p then boPutUint32 bo (raw_HeaderDigest p) else [])"
  define tl where "tl = (if raw_HasDDigest p then boPutUint32 bo (raw_DataDigest p) else [])"
  have d: "unat (of_nat (length ds) :: u32) = length ds"
    using assms by (simp add: wf_Raw_def unat_of_nat_u32 ds_def)
  have z: "(0::u32) < of_nat (length ds) \<longleftrightarrow> ds \<noteq> []" using d by (simp add: word_less_nat_alt)
  have w: "wireLayout p bo = raw_BHS p @ raw_AHS p @ hd @ (if ds = [] then [] else ds @ padding ds @ tl)"
    by (simp add: wireLayout_def ds_def hd_def tl_def)
  have l: "length buf = length (wireLayout p bo)" by (simp add: buf_def)
  have b: "length (raw_BHS p) = 48" using assms by (simp add: wf_Raw_def)
  have h: "(if raw_HasHDigest p then (put_at c off (boPutUint32 bo (raw_HeaderDigest p)), off + 4) else (c, off))
      = (put_at c off hd, off + length hd)" for c off
    by (simp add: hd_def bo.length_put)
  have t: "(if raw_HasDDigest p then (put_at c off (boPutUint32 bo (raw_DataDigest p)), off + 4) else (c, off))
      = (put_at c off tl, off + length tl)" for c off
    by (simp add: tl_def bo.length_put)
  have "WriteRawPDU pool p bo =
     (let c = put_at (put_at (put_at buf 0 (raw_BHS p)) 48 (raw_AHS p)) (48 + length (raw_AHS p)) hd;
          off = 48 + length (raw_AHS p) + length hd;
          (c, off) = (if ds = [] then (c, off)
            else (put_at (put_at (put_at c off ds) (off + length ds) (padding ds))
                   (off + length ds + length (padding ds)) tl,
                  off + length ds + length (padding ds) + length tl))
      in take off c)"
    by (simp add: WriteRawPDU_def Let_def put_at_if h t d z buf_def ds_def [symmetric]
        unat_wireTotal [OF assms, of bo]
        padding_def [of ds] del: length_greater_0_conv cong: if_cong)
  moreover have "put_at buf 0 (raw_BHS p) = raw_BHS p @ drop 48 buf"
    using put_at_next [of "[]" 0 "raw_BHS p" buf] b l w by simp
  moreover have "put_at (raw_BHS p @ drop 48 buf) 48 (raw_AHS p)
     = (raw_BHS p @ raw_AHS p) @ drop (48 + length (raw_AHS p)) buf"
    using put_at_next [of "raw_BHS p" 48 "raw_AHS p" "drop 48 buf"] b l w by (simp add: add.commute)
  moreover have "put_at ((raw_BHS p @ raw_AHS p) @ drop (48 + length (raw_AHS p)) buf) (48 + length (raw_AHS p)) hd
     = (raw_BHS p @ raw_AHS p @ hd) @ drop (48 + length (raw_AHS p) + length hd) buf"
    using put_at_next [of "raw_BHS p @ raw_AHS p" "48 + length (raw_AHS p)" hd "drop (48 + length (raw_AHS p)) buf"] b l w
    by (simp add: ac_simps)
  ultimately show ?thesis
    using b l
    by (cases "ds = []") (simp_all add: w put_at_next Let_def flip: append_assoc)
qed

definition shaped :: "bool \<Rightarrow> bool \<Rightarrow> RawPDU \<Rightarrow> bool" where
  "shaped digestHeader digestData p \<longleftrightarrow>
     length (raw_BHS p) = BHSLength \<and>
     length (raw_AHS p) = unat (raw_BHS p ! 4) * 4 \<and>
     length (raw_DataSegment p) = unat (decodeDataSegmentLength (raw_BHS p)) \<and>
     raw_HasHDigest p = digestHeader \<and>
     raw_HasDDigest p = (digestData \<and> raw_DataSegment p \<noteq> []) \<and>
     (raw_HasHDigest p \<or> raw_HeaderDigest p = 0) \<and>
     (raw_HasDDigest p \<or> raw_DataDigest p = 0)"

lemma decodeDataSegmentLength_24: "unat (decodeDataSegmentLength b) < 2 ^ 24"
proof -
  have "take_bit 24 (decodeDataSegmentLength b) = decodeDataSegmentLength b"
    by (rule bit_word_eqI) (auto simp: decodeDataSegmentLength_def bit_simps dest: bit_imp_le_length)
  then have "decodeDataSegmentLength b = take_bit 24 (decodeDataSegmentLength b)" by simp
  then have "unat (decodeDataSegmentLength b) = unat (take_bit 24 (decodeDataSegmentLength b))" by simp
  also have "\<dots> = take_bit 24 (unat (decodeDataSegmentLength b))" by (rule unsigned_take_bit_eq)
  also have "\<dots> < 2 ^ 24" by (rule take_bit_nat_less_exp)
  finally show ?thesis .
qed

lemma shaped_wf: "shaped dh dd p \<Longrightarrow> wf_Raw p"
  using decodeDataSegmentLength_24 [of "raw_BHS p"] unat_u8_less [of "raw_BHS p ! 4"]
  by (simp add: shaped_def wf_Raw_def)

lemma parsePayload_parts:
  "parsePayload bhs (a @ (if dh then boPutUint32 bo hv else [])
       @ (if ds = [] then [] else ds @ pad @ (if dd then boPutUint32 bo dv else [])))
     (length a) (length ds) (length pad) dh dd bo
   = \<lparr>raw_BHS = bhs, raw_AHS = a, raw_DataSegment = ds, raw_HeaderDigest = (if dh then hv else 0),
      raw_DataDigest = (if dd \<and> ds \<noteq> [] then dv else 0), raw_HasHDigest = dh,
      raw_HasDDigest = (dd \<and> ds \<noteq> [])\<rparr>"
  by (cases "a = []"; cases dh; cases "ds = []"; cases dd)
    (simp_all add: parsePayload_def bareRaw_def slice_def Let_def bo.length_put bo.get_put)

lemma parsePayload_wire:
  assumes "shaped dh dd p"
  shows "parsePayload (raw_BHS p) (drop BHSLength (wireLayout p bo)) (length (raw_AHS p))
     (length (raw_DataSegment p)) (length (padding (raw_DataSegment p))) dh dd bo = p"
proof -
  have "drop BHSLength (wireLayout p bo) = raw_AHS p @ (if dh then boPutUint32 bo (raw_HeaderDigest p) else [])
     @ (if raw_DataSegment p = [] then [] else raw_DataSegment p @ padding (raw_DataSegment p)
          @ (if dd then boPutUint32 bo (raw_DataDigest p) else []))"
    using assms by (simp add: wireLayout_def shaped_def)
  then show ?thesis
    using assms by (simp only: parsePayload_parts) (auto simp: shaped_def)
qed

lemma shaped_sizes:
  assumes "shaped dh dd p"
  defines "dsLen \<equiv> decodeDataSegmentLength (raw_BHS p)" and "ahsLen \<equiv> ucast (raw_BHS p ! 4) * 4 :: u32"
  shows "unat dsLen = length (raw_DataSegment p)" "unat ahsLen = length (raw_AHS p)"
    "unat (PadLen dsLen) = length (padding (raw_DataSegment p))" "\<not> dsLen > 0xFFFFFF"
    "unat (remainingLen ahsLen dsLen dh dd) + BHSLength = length (wireLayout p bo)"
proof -
  show d: "unat dsLen = length (raw_DataSegment p)" using assms by (simp add: shaped_def)
  then have d': "length (raw_DataSegment p) < 2 ^ 24"
    using decodeDataSegmentLength_24 [of "raw_BHS p"] by (simp add: dsLen_def)
  show a: "unat ahsLen = length (raw_AHS p)"
    using assms unat_u8_less [of "raw_BHS p ! 4"] by (simp add: shaped_def unat_word_ariths unat_ucast_eq)
  have a': "length (raw_AHS p) \<le> 1020" using shaped_wf [OF assms(1)] by (simp add: wf_Raw_def)
  show p: "unat (PadLen dsLen) = length (padding (raw_DataSegment p))"
    by (simp add: padding_def flip: d)
  show "\<not> dsLen > 0xFFFFFF" using d d' by (simp add: word_less_nat_alt)
  have z: "(0 < dsLen) = (raw_DataSegment p \<noteq> [])" using d by (simp add: word_less_nat_alt)
  have q: "unat (PadLen dsLen) < 4" by (rule unat_PadLen_less)
  have s: "unat (dsLen + PadLen dsLen) = length (raw_DataSegment p) + length (padding (raw_DataSegment p))"
    using d d' q p by (simp add: unat_plus_u32)
  have f: "raw_HasHDigest p = dh" "raw_HasDDigest p = (dd \<and> raw_DataSegment p \<noteq> [])"
    "length (raw_BHS p) = 48" "length (padding []) = 0"
    using assms(1) by (simp_all add: shaped_def padding_def PadLen_def)
  show "unat (remainingLen ahsLen dsLen dh dd) + BHSLength = length (wireLayout p bo)"
    using d d' a a' q s p z f
    by (auto simp: remainingLen_def Let_def wireLayout_def unat_plus_u32 bo.length_put)
qed

lemma wireLayout_bare:
  assumes "shaped dh dd p" "wireLayout p bo = raw_BHS p"
  shows "p = bareRaw (raw_BHS p) [] \<and> raw_DataSegment p = [] \<and> \<not> dh"
proof -
  have "raw_AHS p = []" "\<not> dh" "raw_DataSegment p = []"
    using assms by (simp_all add: shaped_def wireLayout_def bo.put_nonempty split: if_splits)
  then show ?thesis using assms(1) by (auto simp: bareRaw_def shaped_def)
qed

lemma ReadRawPDU_wire:
  assumes "shaped dh dd p"
  shows "ReadRawPDU (wireLayout p bo @ rest) dh dd mx bo =
     (case verifyDigests p (length (raw_DataSegment p)) dh dd of
        Some e \<Rightarrow> Inl (DigestErr e) | None \<Rightarrow> Inr (p, rest))"
proof -
  note n = shaped_sizes [OF assms, unfolded decodeDataSegmentLength_def]
  define w where "w = wireLayout p bo"
  define rem where "rem = remainingLen (ucast (raw_BHS p ! 4) * 4) (decodeDataSegmentLength (raw_BHS p)) dh dd"
  have r: "unat rem + BHSLength = length w" using shaped_sizes(5) [OF assms] by (simp add: rem_def w_def)
  have b: "take BHSLength w = raw_BHS p" using assms by (simp add: w_def wireLayout_def shaped_def)
  have r1: "ReadFull BHSLength (w @ rest) = Inr (raw_BHS p, drop BHSLength w @ rest)"
    using b r by (simp add: ReadFull_def)
  have "unat rem = length (drop BHSLength w)" using r by simp
  then have r2: "ReadFull (unat rem) (drop BHSLength w @ rest) = Inr (drop BHSLength w, rest)"
    by (simp only: ReadFull_def) simp
  have read: "ReadRawPDU (w @ rest) dh dd mx bo =
     (if rem = 0 then Inr (bareRaw (raw_BHS p) [], drop BHSLength w @ rest)
      else case verifyDigests p (length (raw_DataSegment p)) dh dd of
             Some e \<Rightarrow> Inl (DigestErr e) | None \<Rightarrow> Inr (p, rest))"
    using r2 parsePayload_wire [OF assms, of bo] unfolding rem_def decodeDataSegmentLength_def
    by (simp add: ReadRawPDU_def r1 n Let_def w_def [symmetric] cong: option.case_cong)
  show ?thesis
  proof (cases "rem = 0")
    case True
    then have "length w = BHSLength" using r by simp
    then have "w = raw_BHS p" using b by (metis take_all_iff order_refl)
    then show ?thesis using True read \<open>length w = BHSLength\<close> wireLayout_bare [OF assms, of bo]
      by (auto simp: w_def verifyDigests_def bareRaw_def)
  qed (simp add: read w_def [symmetric])
qed

lemma ReadRawPDU_WriteRawPDU:
  assumes "shaped dh dd p" "verifyDigests p (length (raw_DataSegment p)) dh dd = None"
  shows "ReadRawPDU (WriteRawPDU pool p bo @ rest) dh dd mx bo = Inr (p, rest)"
  using assms by (simp add: WriteRawPDU_wire shaped_wf ReadRawPDU_wire)

definition unstamped :: "RawPDU \<Rightarrow> bool" where
  "unstamped p \<longleftrightarrow> shaped False False p"

lemma digestInput_append: "digestInput p = raw_BHS p @ raw_AHS p"
  by (simp add: digestInput_def)

lemma stampDigests_ok:
  assumes "unstamped p"
  shows "shaped dh dd (stampDigests dh dd p)"
    "verifyDigests (stampDigests dh dd p) (length (raw_DataSegment p)) dh dd = None"
    "raw_DataSegment (stampDigests dh dd p) = raw_DataSegment p"
    "raw_BHS (stampDigests dh dd p) = raw_BHS p"
    "raw_AHS (stampDigests dh dd p) = raw_AHS p"
  using assms
  by (auto simp: unstamped_def shaped_def stampDigests_def Let_def verifyDigests_def digestInput_append)

fun ReadRawPDUs :: "nat \<Rightarrow> bytes \<Rightarrow> bool \<Rightarrow> bool \<Rightarrow> u32 \<Rightarrow> ByteOrder \<Rightarrow> ReadError + RawPDU list \<times> bytes" where
  "ReadRawPDUs 0 r dh dd mx bo = Inr ([], r)"
| "ReadRawPDUs (Suc n) r dh dd mx bo =
     (case ReadRawPDU r dh dd mx bo of
        Inl e \<Rightarrow> Inl e
      | Inr (p, r) \<Rightarrow>
          (case ReadRawPDUs n r dh dd mx bo of Inl e \<Rightarrow> Inl e | Inr (ps, r) \<Rightarrow> Inr (p # ps, r)))"

section \<open>Properties\<close>

definition sampleFrame :: RawPDU where
  "sampleFrame = bareRaw ((replicate 48 0) [7 := 3]) [0x61, 0x62, 0x63]"

lemma sampleFrame_unstamped: "unstamped sampleFrame"
  by (simp add: unstamped_def shaped_def sampleFrame_def bareRaw_def decodeDataSegmentLength_def)

text \<open>The bytes of a written PDU do not depend on what a recycled pool buffer held: they are the
  header, the AHS, the header digest, the data with zero padding and the data digest, in this order.\<close>

theorem written_frame_ignores_pool:
  assumes "wf_Raw p"
  shows "WriteRawPDU pool p bo = wireLayout p bo"
  by (rule WriteRawPDU_wire [OF assms])

theorem written_frame_ignores_pool_witness:
  "wf_Raw sampleFrame \<and> WriteRawPDU [1, 2, 3] sampleFrame BigEndian = wireLayout sampleFrame BigEndian"
  using written_frame_ignores_pool [of sampleFrame "[1, 2, 3]" BigEndian] sampleFrame_unstamped shaped_wf
  by (auto simp: unstamped_def)

text \<open>C11. Framing is lossless on a stream: PDUs stamped by \<open>stampDigests\<close> and written one after the other
  are read back as they were, in order, and the rest of the stream is left untouched, for every
  combination of digests, either byte order and any recycled buffers.\<close>

theorem stream_of_frames_roundtrip:
  assumes "\<forall>p \<in> set ps. unstamped p"
  shows "ReadRawPDUs (length ps) (concat (map (\<lambda>p. WriteRawPDU (pool p) (stampDigests dh dd p) bo) ps) @ rest)
     dh dd mx bo = Inr (map (stampDigests dh dd) ps, rest)"
  using assms
proof (induction ps)
  case (Cons p ps)
  then show ?case
    using ReadRawPDU_WriteRawPDU [of dh dd "stampDigests dh dd p"] stampDigests_ok [of p dh dd] by simp
qed simp

theorem stream_of_frames_roundtrip_witness:
  "ReadRawPDUs 2 (concat (map (\<lambda>p. WriteRawPDU [9] (stampDigests True True p) LittleEndian)
       [sampleFrame, sampleFrame]) @ [5]) True True 0 LittleEndian
   = Inr (map (stampDigests True True) [sampleFrame, sampleFrame], [5])"
  using stream_of_frames_roundtrip [of "[sampleFrame, sampleFrame]" "\<lambda>_. [9]" True True LittleEndian "[5]" 0]
    sampleFrame_unstamped
  by (simp add: numeral_2_eq_2)

text \<open>C26. With data digests on, changing one byte of the data segment on the wire makes \<open>ReadRawPDU\<close>
  return a data digest error with both checksums.\<close>

theorem data_corruption_detected:
  assumes "unstamped p" "raw_DataSegment p = xs @ a # ys" "a \<noteq> b"
  shows "ReadRawPDU (WriteRawPDU pool ((stampDigests dh True p)\<lparr>raw_DataSegment := xs @ b # ys\<rparr>) bo @ rest)
      dh True mx bo
     = Inl (DigestErr \<lparr>de_Type = DigestData, de_Expected = DataDigest (xs @ b # ys),
         de_Actual = DataDigest (xs @ a # ys)\<rparr>)"
proof -
  let ?p = "(stampDigests dh True p)\<lparr>raw_DataSegment := xs @ b # ys\<rparr>"
  have s: "shaped dh True ?p"
    using assms(1,2) by (auto simp: unstamped_def shaped_def stampDigests_def Let_def)
  have "verifyDigests ?p (length (raw_DataSegment ?p)) dh True
      = Some \<lparr>de_Type = DigestData, de_Expected = DataDigest (xs @ b # ys),
         de_Actual = DataDigest (xs @ a # ys)\<rparr>"
    using assms DataDigest_one_byte [of xs b ys a]
    by (simp add: verifyDigests_def digestInput_append stampDigests_def Let_def)
  then show ?thesis using s by (simp add: WriteRawPDU_wire shaped_wf ReadRawPDU_wire)
qed

theorem data_corruption_detected_witness:
  "ReadRawPDU (WriteRawPDU [] ((stampDigests True True sampleFrame)\<lparr>raw_DataSegment := [0x61, 0, 0x63]\<rparr>) LittleEndian)
      True True 0 LittleEndian
    = Inl (DigestErr \<lparr>de_Type = DigestData, de_Expected = DataDigest [0x61, 0, 0x63],
         de_Actual = DataDigest [0x61, 0x62, 0x63]\<rparr>)"
  using data_corruption_detected [OF sampleFrame_unstamped, of "[0x61]" "0x62" "[0x63]" 0 "[]" True LittleEndian "[]" 0]
  by (simp add: sampleFrame_def bareRaw_def)

text \<open>C27. With header digests on, changing one header byte other than the length fields makes
  \<open>ReadRawPDU\<close> return a header digest error.\<close>

theorem header_corruption_detected:
  assumes "unstamped p" "raw_BHS p = xs @ a # ys" "a \<noteq> b" "length xs \<notin> {4, 5, 6, 7}"
  shows "ReadRawPDU (WriteRawPDU pool ((stampDigests True dd p)\<lparr>raw_BHS := xs @ b # ys\<rparr>) bo @ rest)
      True dd mx bo
     = Inl (DigestErr \<lparr>de_Type = DigestHeader, de_Expected = HeaderDigest (xs @ b # ys @ raw_AHS p),
         de_Actual = HeaderDigest (raw_BHS p @ raw_AHS p)\<rparr>)"
proof -
  let ?p = "(stampDigests True dd p)\<lparr>raw_BHS := xs @ b # ys\<rparr>"
  have same: "i \<noteq> length xs \<Longrightarrow> (xs @ b # ys) ! i = (xs @ a # ys) ! i" for i
    by (simp add: nth_append nth_Cons')
  then have "decodeDataSegmentLength (xs @ b # ys) = decodeDataSegmentLength (xs @ a # ys)"
    using assms(4) by (simp add: decodeDataSegmentLength_def)
  then have s: "shaped True dd ?p"
    using assms(1,2,4) same [of 4] by (auto simp: unstamped_def shaped_def stampDigests_def Let_def)
  have "verifyDigests ?p (length (raw_DataSegment ?p)) True dd
      = Some \<lparr>de_Type = DigestHeader, de_Expected = HeaderDigest (xs @ b # ys @ raw_AHS p),
         de_Actual = HeaderDigest (raw_BHS p @ raw_AHS p)\<rparr>"
    using assms Checksum_one_byte [of xs b "ys @ raw_AHS p" a]
    by (simp add: verifyDigests_def digestInput_append stampDigests_def Let_def HeaderDigest_def)
  then show ?thesis using s by (simp add: WriteRawPDU_wire shaped_wf ReadRawPDU_wire)
qed

theorem header_corruption_detected_witness:
  "ReadRawPDU (WriteRawPDU [] ((stampDigests True False sampleFrame)\<lparr>raw_BHS := (replicate 48 0) [7 := 3, 20 := 1]\<rparr>) LittleEndian)
      True False 0 LittleEndian
    = Inl (DigestErr \<lparr>de_Type = DigestHeader, de_Expected = HeaderDigest ((replicate 48 0) [7 := 3, 20 := 1]),
         de_Actual = HeaderDigest ((replicate 48 0) [7 := 3])\<rparr>)"
  using header_corruption_detected [OF sampleFrame_unstamped, of "(replicate 20 0) [7 := 3]" 0 "replicate 27 0" 1 "[]" False LittleEndian "[]" 0]
  by (simp add: sampleFrame_def bareRaw_def numeral_eq_Suc)

end
