(* ===== verification/Buffer_Pool.thy ===== *)
theory Buffer_Pool
  imports ISCSI_Prelude
begin

text \<open>
  \<open>internal/transport/pool.go\<close>: the size-class buffer pools behind the framer.

  A \<open>*[]byte\<close> of the pool is a backing array (its length is the capacity) with the slice's
  length. A \<open>sync.Pool\<close> may return any buffer it holds, or none of them when the collector has
  dropped them: \<open>Get\<close> takes that choice as an argument, and all lemmas hold for every choice.
  The counters are \<open>atomic.Int64\<close> values that stay far inside their range, kept as integers.

  The invariant says which capacities a tier may hold and that no counter passes the bound; it
  gives that \<open>GetBuffer\<close> never slices beyond a recycled buffer's capacity.
\<close>

record Buffer =
  buf_array :: bytes
  buf_len :: nat

abbreviation cap :: "Buffer \<Rightarrow> nat" where "cap b \<equiv> length (buf_array b)"

record Tier =
  tier_count :: int
  tier_free :: "Buffer list"

record Pools =
  smallPool :: Tier
  mediumPool :: Tier
  largePool :: Tier

abbreviation smallBufSize :: nat where "smallBufSize \<equiv> 4096"
abbreviation mediumBufSize :: nat where "mediumBufSize \<equiv> 65536"
abbreviation largeBufSize :: nat where "largeBufSize \<equiv> 16777216"
abbreviation poolTierMax :: int where "poolTierMax \<equiv> 256"

definition newBuffer :: "nat \<Rightarrow> Buffer" where
  "newBuffer n = \<lparr>buf_array = replicate n 0, buf_len = n\<rparr>"

definition poolGet :: "nat option \<Rightarrow> nat \<Rightarrow> Tier \<Rightarrow> Buffer \<times> Tier" where
  "poolGet pick n t =
     (case pick of
        None \<Rightarrow> (newBuffer n, t)
      | Some i \<Rightarrow>
          if i < length (tier_free t)
          then (tier_free t ! i, t\<lparr>tier_free := take i (tier_free t) @ drop (Suc i) (tier_free t)\<rparr>)
          else (newBuffer n, t))"

definition poolPut :: "Buffer \<Rightarrow> Tier \<Rightarrow> Tier" where
  "poolPut b t = t\<lparr>tier_free := b # tier_free t\<rparr>"

definition countAdd :: "int \<Rightarrow> Tier \<Rightarrow> Tier" where
  "countAdd d t = t\<lparr>tier_count := tier_count t + d\<rparr>"

text \<open>\<open>(*bp)[:size]\<close>: slicing beyond the capacity panics (\<open>None\<close>).\<close>

definition resliceTo :: "nat \<Rightarrow> Buffer \<Rightarrow> Buffer option" where
  "resliceTo n b = (if n \<le> cap b then Some (b\<lparr>buf_len := n\<rparr>) else None)"

definition tierGet :: "nat option \<Rightarrow> nat \<Rightarrow> nat \<Rightarrow> Tier \<Rightarrow> (Buffer \<times> Tier) option" where
  "tierGet pick n size' t =
     (let (b, t) = poolGet pick n (countAdd (-1) t)
      in case resliceTo size' b of None \<Rightarrow> None | Some b \<Rightarrow> Some (b, t))"

definition GetBuffer :: "nat option \<Rightarrow> nat \<Rightarrow> Pools \<Rightarrow> (Buffer \<times> Pools) option" where
  "GetBuffer pick size' s =
     (if size' \<le> smallBufSize then
        map_option (\<lambda>(b, t). (b, s\<lparr>smallPool := t\<rparr>)) (tierGet pick smallBufSize size' (smallPool s))
      else if size' \<le> mediumBufSize then
        map_option (\<lambda>(b, t). (b, s\<lparr>mediumPool := t\<rparr>)) (tierGet pick mediumBufSize size' (mediumPool s))
      else if size' \<le> largeBufSize then
        map_option (\<lambda>(b, t). (b, s\<lparr>largePool := t\<rparr>)) (tierGet pick largeBufSize size' (largePool s))
      else Some (newBuffer size', s))"

definition tierPut :: "Buffer \<Rightarrow> Tier \<Rightarrow> Tier" where
  "tierPut b t =
     (let t = countAdd 1 t
      in if tier_count t \<le> poolTierMax then poolPut b t else countAdd (-1) t)"

definition PutBuffer :: "Buffer option \<Rightarrow> Pools \<Rightarrow> Pools" where
  "PutBuffer bp s =
     (case bp of
        None \<Rightarrow> s
      | Some b \<Rightarrow>
          let c = cap b; b = b\<lparr>buf_len := c\<rparr>
          in if c \<ge> largeBufSize then s\<lparr>largePool := tierPut b (largePool s)\<rparr>
             else if c \<ge> mediumBufSize then s\<lparr>mediumPool := tierPut b (mediumPool s)\<rparr>
             else if c \<ge> smallBufSize then s\<lparr>smallPool := tierPut b (smallPool s)\<rparr>
             else s)"

section \<open>The invariant\<close>

definition tier_inv :: "nat \<Rightarrow> Tier \<Rightarrow> bool" where
  "tier_inv n t \<longleftrightarrow> (\<forall>b \<in> set (tier_free t). n \<le> cap b \<and> buf_len b = cap b) \<and> tier_count t \<le> poolTierMax"

definition pools_inv :: "Pools \<Rightarrow> bool" where
  "pools_inv s \<longleftrightarrow> tier_inv smallBufSize (smallPool s) \<and> tier_inv mediumBufSize (mediumPool s)
     \<and> tier_inv largeBufSize (largePool s)"

definition emptyPools :: Pools where
  "emptyPools = (let t = \<lparr>tier_count = 0, tier_free = []\<rparr>
     in \<lparr>smallPool = t, mediumPool = t, largePool = t\<rparr>)"

lemma poolGet_ok:
  assumes "tier_inv n t"
  shows "n \<le> cap (fst (poolGet pick n t)) \<and> tier_inv n (snd (poolGet pick n t))"
proof (cases "\<exists>i. pick = Some i \<and> i < length (tier_free t)")
  case True
  then show ?thesis
    using assms
    by (auto simp: poolGet_def tier_inv_def dest: bspec [OF _ in_set_takeD] bspec [OF _ in_set_dropD])
next
  case False
  then show ?thesis using assms by (auto simp: poolGet_def newBuffer_def split: option.split)
qed

lemma tierGet_ok:
  assumes "tier_inv n t" "size' \<le> n"
  shows "\<exists>b t'. tierGet pick n size' t = Some (b, t') \<and> tier_inv n t' \<and> buf_len b = size'
    \<and> size' \<le> cap b"
proof -
  have "tier_inv n (countAdd (-1) t)" using assms(1) by (simp add: tier_inv_def countAdd_def)
  from poolGet_ok [OF this, of pick] show ?thesis
    using assms(2) by (auto simp: tierGet_def resliceTo_def split: prod.split)
qed

lemma tierPut_inv: "tier_inv n t \<Longrightarrow> n \<le> cap b \<Longrightarrow> buf_len b = cap b \<Longrightarrow> tier_inv n (tierPut b t)"
  by (auto simp: tier_inv_def tierPut_def poolPut_def countAdd_def Let_def)

lemma PutBuffer_inv: "pools_inv s \<Longrightarrow> pools_inv (PutBuffer bp s)"
  by (auto simp: PutBuffer_def pools_inv_def Let_def tierPut_inv split: option.split)

lemma GetBuffer_inv:
  assumes "pools_inv s"
  shows "\<exists>b s'. GetBuffer pick size' s = Some (b, s') \<and> pools_inv s' \<and> buf_len b = size'
    \<and> size' \<le> cap b"
  using assms tierGet_ok [of smallBufSize "smallPool s" size' pick]
    tierGet_ok [of mediumBufSize "mediumPool s" size' pick]
    tierGet_ok [of largeBufSize "largePool s" size' pick]
  by (auto simp: GetBuffer_def pools_inv_def newBuffer_def)

text \<open>The pool as its clients see it: whatever is interleaved, a buffer of the asked length comes back.\<close>

locale buffer_source =
  fixes get :: "nat option \<Rightarrow> nat \<Rightarrow> 's \<Rightarrow> (Buffer \<times> 's) option"
    and put :: "Buffer option \<Rightarrow> 's \<Rightarrow> 's"
    and inv :: "'s \<Rightarrow> bool"
  assumes get_ok: "inv s \<Longrightarrow> \<exists>b s'. get pick n s = Some (b, s') \<and> inv s' \<and> buf_len b = n \<and> n \<le> cap b"
    and put_ok: "inv s \<Longrightarrow> inv (put bp s)"
begin

lemma put_all: "inv s \<Longrightarrow> inv (foldr put bs s)"
  by (induction bs) (auto simp: put_ok)

lemma get_after_puts:
  "inv s \<Longrightarrow> \<exists>b s'. get pick n (foldr put bs s) = Some (b, s') \<and> inv s' \<and> buf_len b = n \<and> n \<le> cap b"
  by (rule get_ok [OF put_all])

end

interpretation pool: buffer_source GetBuffer PutBuffer pools_inv
  by unfold_locales (auto intro: GetBuffer_inv PutBuffer_inv)

lemma emptyPools_inv: "pools_inv emptyPools"
  by (simp add: pools_inv_def emptyPools_def tier_inv_def Let_def)

section \<open>Properties\<close>

text \<open>C38. \<open>GetBuffer\<close> always returns a buffer of the asked length without slicing beyond a capacity,
  whichever buffers were returned before and whichever of them the pool hands out, and no tier
  counts more than \<open>poolTierMax\<close> buffers.\<close>

theorem pool_get_after_puts:
  assumes "pools_inv s"
  shows "\<exists>b s'. GetBuffer pick n (foldr PutBuffer bs s) = Some (b, s') \<and> buf_len b = n \<and> n \<le> cap b
    \<and> pools_inv s' \<and> tier_count (smallPool s') \<le> poolTierMax
    \<and> tier_count (mediumPool s') \<le> poolTierMax \<and> tier_count (largePool s') \<le> poolTierMax"
  using pool.get_after_puts [OF assms, of pick n bs] by (auto simp: pools_inv_def tier_inv_def)

theorem pool_get_after_puts_witness:
  "pools_inv emptyPools \<and> (\<exists>b s'. GetBuffer (Some 0) 100 (foldr PutBuffer [Some (newBuffer 8192)] emptyPools) = Some (b, s')
    \<and> buf_len b = 100)"
  using emptyPools_inv pool_get_after_puts [OF emptyPools_inv, of "Some 0" 100 "[Some (newBuffer 8192)]"] by blast

end
