(* ===== verification/Channels.thy ===== *)
theory Channels
  imports ISCSI_Prelude
begin

text \<open>
  Go channels, as the transport and the session use them: a bounded FIFO buffer that can be
  closed. A send on a full channel blocks, a send on a closed channel panics and closing a
  closed channel panics; a receive on an empty channel blocks while it is open and reports the
  end once it is closed. Channels live in a store (a list), and a \<open>chan\<close> value is an index into it.

  The locale \<open>fifo\<close> is what the clients rely on: sends come out in order, and nothing that was
  sent is lost or duplicated.
\<close>

record 'a Chan =
  ch_buf :: "'a list"
  ch_cap :: nat
  ch_closed :: bool

datatype 'a SendResult = Sent "'a Chan" | SendBlocks | SendPanics
datatype 'a RecvResult = Received 'a "'a Chan" | RecvBlocks | RecvClosed

definition make_chan :: "nat \<Rightarrow> 'a Chan" where
  "make_chan n = \<lparr>ch_buf = [], ch_cap = n, ch_closed = False\<rparr>"

definition chan_send :: "'a Chan \<Rightarrow> 'a \<Rightarrow> 'a SendResult" where
  "chan_send c v =
     (if ch_closed c then SendPanics
      else if length (ch_buf c) < ch_cap c then Sent (c\<lparr>ch_buf := ch_buf c @ [v]\<rparr>)
      else SendBlocks)"

definition chan_recv :: "'a Chan \<Rightarrow> 'a RecvResult" where
  "chan_recv c =
     (case ch_buf c of
        v # vs \<Rightarrow> Received v (c\<lparr>ch_buf := vs\<rparr>)
      | [] \<Rightarrow> if ch_closed c then RecvClosed else RecvBlocks)"

text \<open>\<open>None\<close> is the panic of closing a closed channel.\<close>

definition chan_close :: "'a Chan \<Rightarrow> 'a Chan option" where
  "chan_close c = (if ch_closed c then None else Some (c\<lparr>ch_closed := True\<rparr>))"

definition chan_inv :: "'a Chan \<Rightarrow> bool" where
  "chan_inv c \<longleftrightarrow> length (ch_buf c) \<le> ch_cap c"

locale fifo =
  fixes contents :: "'c \<Rightarrow> 'a list"
    and snd_op :: "'c \<Rightarrow> 'a \<Rightarrow> 'c option"
    and rcv_op :: "'c \<Rightarrow> ('a \<times> 'c) option"
  assumes snd_contents: "snd_op c v = Some c' \<Longrightarrow> contents c' = contents c @ [v]"
    and rcv_contents: "rcv_op c = Some (v, c') \<Longrightarrow> contents c = v # contents c'"
    and rcv_empty: "rcv_op c = None \<longleftrightarrow> contents c = []"
begin

text \<open>Any interleaving of sends and receives moves the sent values out in order.\<close>

inductive fifo_run :: "'c \<Rightarrow> 'a list \<Rightarrow> 'a list \<Rightarrow> 'c \<Rightarrow> bool" where
  run_refl: "fifo_run c [] [] c"
| run_send: "fifo_run c ins outs c' \<Longrightarrow> snd_op c' v = Some c'' \<Longrightarrow> fifo_run c (ins @ [v]) outs c''"
| run_recv: "fifo_run c ins outs c' \<Longrightarrow> rcv_op c' = Some (v, c'') \<Longrightarrow> fifo_run c ins (outs @ [v]) c''"

lemma fifo_order: "fifo_run c ins outs c' \<Longrightarrow> contents c @ ins = outs @ contents c'"
proof (induction rule: fifo_run.induct)
  case (run_send c ins outs c' v c'')
  then show ?case using snd_contents by (metis append_assoc)
next
  case (run_recv c ins outs c' v c'')
  then show ?case using rcv_contents [OF run_recv.hyps(2)] by simp
qed simp

end

definition try_send :: "'a Chan \<Rightarrow> 'a \<Rightarrow> 'a Chan option" where
  "try_send c v = (case chan_send c v of Sent c' \<Rightarrow> Some c' | _ \<Rightarrow> None)"

definition try_recv :: "'a Chan \<Rightarrow> ('a \<times> 'a Chan) option" where
  "try_recv c = (case chan_recv c of Received v c' \<Rightarrow> Some (v, c') | _ \<Rightarrow> None)"

interpretation chan: fifo ch_buf try_send try_recv
  by unfold_locales
    (auto simp: try_send_def try_recv_def chan_send_def chan_recv_def split: if_splits list.splits)

lemma chan_send_inv: "chan_send c v = Sent c' \<Longrightarrow> chan_inv c' \<and> ch_cap c' = ch_cap c \<and> \<not> ch_closed c'"
  by (auto simp: chan_send_def chan_inv_def split: if_splits)

lemma chan_recv_inv: "chan_inv c \<Longrightarrow> chan_recv c = Received v c' \<Longrightarrow>
    chan_inv c' \<and> ch_cap c' = ch_cap c \<and> ch_closed c' = ch_closed c"
  by (auto simp: chan_recv_def chan_inv_def split: list.splits if_splits)

end
