(* ===== verification/Router.thy ===== *)
theory Router
  imports Framer Channels Serial "HOL-Library.AList"
begin

text \<open>
  \<open>internal/transport/router.go\<close>: ITT allocation and response dispatch.

  The pending map is an association list with distinct keys. A \<open>chan\<close> is an index into the list
  of channels the router has made (\<open>chans\<close>), so that a channel handed to a waiter and the one kept
  in the map are the same object. Each method runs under the router's mutex and is one function;
  \<open>Dispatch\<close> releases the mutex before it sends and is therefore split at that point.

  The lemmas: the allocated tags count modulo \<open>2 ^ 32 - 1\<close>, so the reserved tag is never used and
  tags repeat only after that many allocations; in every reachable state the channel of a
  one-shot registration is empty, open and owned by one entry, so dispatching to it never blocks.
  The locale \<open>tag_routes\<close> is what the session relies on.
\<close>

abbreviation reservedITT :: u32 where "reservedITT \<equiv> 0xFFFFFFFF"
abbreviation DefaultRouterBufDepth :: nat where "DefaultRouterBufDepth \<equiv> 64"

record routerEntry =
  ent_ch :: nat
  ent_persistent :: bool

record Router =
  pending :: "(u32 \<times> routerEntry) list"
  nextITT :: u32
  persistentDepth :: nat
  chans :: "RawPDU Chan list"

definition NewRouter :: "int \<Rightarrow> Router" where
  "NewRouter depth =
     (let depth = (if depth \<le> 0 then DefaultRouterBufDepth else nat depth)
      in \<lparr>pending = [], nextITT = 0, persistentDepth = depth, chans = []\<rparr>)"

definition AllocateITT :: "Router \<Rightarrow> u32 \<times> Router" where
  "AllocateITT r =
     (let itt = nextITT r;
          itt = (if itt = reservedITT then 0 else itt);
          r = r\<lparr>nextITT := itt + 1\<rparr>;
          r = (if nextITT r = reservedITT then r\<lparr>nextITT := 0\<rparr> else r)
      in (itt, r))"

definition makeChan :: "nat \<Rightarrow> Router \<Rightarrow> nat \<times> Router" where
  "makeChan n r = (length (chans r), r\<lparr>chans := chans r @ [make_chan n]\<rparr>)"

definition Register :: "Router \<Rightarrow> (u32 \<times> nat) \<times> Router" where
  "Register r =
     (let itt = nextITT r;
          itt = (if itt = reservedITT then 0 else itt);
          r = r\<lparr>nextITT := itt + 1\<rparr>;
          r = (if nextITT r = reservedITT then r\<lparr>nextITT := 0\<rparr> else r);
          (ch, r) = makeChan 1 r
      in ((itt, ch), r\<lparr>pending := AList.update itt \<lparr>ent_ch = ch, ent_persistent = False\<rparr> (pending r)\<rparr>))"

definition RegisterPersistent :: "u32 \<Rightarrow> Router \<Rightarrow> nat \<times> Router" where
  "RegisterPersistent itt r =
     (let (ch, r) = makeChan (persistentDepth r) r
      in (ch, r\<lparr>pending := AList.update itt \<lparr>ent_ch = ch, ent_persistent = True\<rparr> (pending r)\<rparr>))"

text \<open>The part of \<open>Dispatch\<close> under the mutex, and the send after it.\<close>

definition dispatchLookup :: "u32 \<Rightarrow> Router \<Rightarrow> routerEntry option \<times> Router" where
  "dispatchLookup itt r =
     (let entry = map_of (pending r) itt
      in (entry,
          case entry of
            Some e \<Rightarrow> if \<not> ent_persistent e then r\<lparr>pending := AList.delete itt (pending r)\<rparr> else r
          | None \<Rightarrow> r))"

datatype DispatchResult = Dispatched bool Router | DispatchBlocks Router | DispatchPanics

definition dispatchSend :: "routerEntry \<Rightarrow> RawPDU \<Rightarrow> Router \<Rightarrow> DispatchResult" where
  "dispatchSend e p r =
     (case chan_send (chans r ! ent_ch e) p of
        Sent c \<Rightarrow> Dispatched True (r\<lparr>chans := (chans r)[ent_ch e := c]\<rparr>)
      | SendBlocks \<Rightarrow> DispatchBlocks r
      | SendPanics \<Rightarrow> DispatchPanics)"

definition Dispatch :: "u32 \<Rightarrow> RawPDU \<Rightarrow> Router \<Rightarrow> DispatchResult" where
  "Dispatch itt p r =
     (case dispatchLookup itt r of
        (None, r) \<Rightarrow> Dispatched False r
      | (Some e, r) \<Rightarrow> dispatchSend e p r)"

definition Unregister :: "u32 \<Rightarrow> Router \<Rightarrow> Router" where
  "Unregister itt r = r\<lparr>pending := AList.delete itt (pending r)\<rparr>"

text \<open>\<open>None\<close> is the panic of closing a closed channel.\<close>

definition UnregisterAndClose :: "u32 \<Rightarrow> Router \<Rightarrow> Router option" where
  "UnregisterAndClose itt r =
     (let entry = map_of (pending r) itt;
          r = r\<lparr>pending := AList.delete itt (pending r)\<rparr>
      in case entry of
           Some e \<Rightarrow>
             if ent_persistent e
             then (case chan_close (chans r ! ent_ch e) of
                     Some c \<Rightarrow> Some (r\<lparr>chans := (chans r)[ent_ch e := c]\<rparr>)
                   | None \<Rightarrow> None)
             else Some r
         | None \<Rightarrow> Some r)"

definition PendingCount :: "Router \<Rightarrow> nat" where
  "PendingCount r = length (pending r)"

text \<open>A waiter receiving from the channel it was given.\<close>

definition receiveFrom :: "nat \<Rightarrow> Router \<Rightarrow> (RawPDU \<times> Router) option" where
  "receiveFrom ch r =
     (if ch < length (chans r)
      then (case chan_recv (chans r ! ch) of
              Received p c \<Rightarrow> Some (p, r\<lparr>chans := (chans r)[ch := c]\<rparr>)
            | _ \<Rightarrow> None)
      else None)"

section \<open>What the session uses\<close>

text \<open>
  Where a tag leads to, and how the operations change it. A lasting route is one that a delivery does not use up.
\<close>

locale tag_routes =
  fixes route :: "'r \<Rightarrow> 't \<Rightarrow> 'e option"
    and fresh_tag :: "'r \<Rightarrow> 't \<times> 'r"
    and enter :: "'t \<Rightarrow> 'r \<Rightarrow> 'c \<times> 'r"
    and enter_once :: "'r \<Rightarrow> ('t \<times> 'c) \<times> 'r"
    and leave :: "'t \<Rightarrow> 'r \<Rightarrow> 'r"
    and delivers :: "'t \<Rightarrow> 'p \<Rightarrow> 'r \<Rightarrow> 'r \<Rightarrow> bool"
    and lasting :: "'c \<Rightarrow> 'e"
  assumes fresh_tag_route: "fresh_tag r = (t, r') \<Longrightarrow> route r' = route r"
    and enter_route: "enter t r = (c, r') \<Longrightarrow> route r' = (route r)(t \<mapsto> lasting c)"
    and enter_once_route: "enter_once r = ((t, c), r') \<Longrightarrow> u \<noteq> t \<Longrightarrow> route r' u = route r u"
    and leave_route: "route (leave t r) = (route r)(t := None)"
    and delivers_route: "delivers t p r r' \<Longrightarrow> route r u = Some (lasting c) \<Longrightarrow> route r' u = Some (lasting c)"
begin

lemma new_route: "fresh_tag r = (t, r0) \<Longrightarrow> enter t r0 = (c, r') \<Longrightarrow> route r' = (route r)(t \<mapsto> lasting c)"
  using fresh_tag_route [of r t r0] enter_route [of t r0 c r'] by simp

lemma new_route_stays: "fresh_tag r = (t, r0) \<Longrightarrow> enter t r0 = (c, r') \<Longrightarrow> delivers u p r' r'' \<Longrightarrow> route r'' t = Some (lasting c)"
  by (rule delivers_route [of u p r']) (simp_all add: new_route [of r t r0 c r'])

lemma new_route_left: "fresh_tag r = (t, r0) \<Longrightarrow> enter t r0 = (c, r') \<Longrightarrow> route r t = None \<Longrightarrow> route (leave t r') = route r"
  using new_route [of r t r0 c r'] by (simp add: leave_route fun_upd_idem)

end

interpretation routes: tag_routes "\<lambda>r. map_of (pending r)" AllocateITT RegisterPersistent Register Unregister
  "\<lambda>itt p r r'. \<exists>ok. Dispatch itt p r = Dispatched ok r'" "\<lambda>ch. \<lparr>ent_ch = ch, ent_persistent = True\<rparr>"
proof
  show "AllocateITT r = (t, r') \<Longrightarrow> map_of (pending r') = map_of (pending r)" for r t r'
    by (auto simp: AllocateITT_def Let_def split: if_splits)
  show "RegisterPersistent t r = (c, r') \<Longrightarrow> map_of (pending r') = (map_of (pending r))(t \<mapsto> \<lparr>ent_ch = c, ent_persistent = True\<rparr>)" for t r c r'
    by (auto simp: RegisterPersistent_def makeChan_def Let_def update_conv)
  show "Register r = ((t, c), r') \<Longrightarrow> u \<noteq> t \<Longrightarrow> map_of (pending r') u = map_of (pending r) u" for r t c r' u
    by (auto simp: Register_def makeChan_def Let_def update_conv' split: if_splits)
  show "map_of (pending (Unregister t r)) = (map_of (pending r))(t := None)" for t r
    by (simp add: Unregister_def delete_conv')
  show "\<exists>ok. Dispatch t p r = Dispatched ok r' \<Longrightarrow> map_of (pending r) u = Some \<lparr>ent_ch = c, ent_persistent = True\<rparr> \<Longrightarrow>
      map_of (pending r') u = Some \<lparr>ent_ch = c, ent_persistent = True\<rparr>" for t p r r' u c
    by (auto simp: Dispatch_def dispatchLookup_def dispatchSend_def Let_def delete_conv' split: option.splits SendResult.splits if_splits)
qed

lemma unregistered: "itt \<notin> fst ` set (pending (Unregister itt r))"
  using routes.leave_route [of itt r] by (simp flip: map_of_eq_None_iff)

section \<open>Tag allocation\<close>

lemma Register_AllocateITT: "fst (fst (Register r)) = fst (AllocateITT r)"
  "nextITT (snd (Register r)) = nextITT (snd (AllocateITT r))"
  by (auto simp: Register_def AllocateITT_def makeChan_def Let_def)

text \<open>The tag counter as a number below \<open>2 ^ 32 - 1\<close>; the reserved value stands for 0.\<close>

definition ittIndex :: "Router \<Rightarrow> nat" where
  "ittIndex r = unat (nextITT r) mod (2 ^ 32 - 1)"

lemma AllocateITT_index:
  "unat (fst (AllocateITT r)) = ittIndex r \<and> fst (AllocateITT r) \<noteq> reservedITT
   \<and> ittIndex (snd (AllocateITT r)) = Suc (ittIndex r) mod (2 ^ 32 - 1)"
proof -
  have lt: "unat (nextITT r) < 2 ^ 32" using unsigned_less [of "nextITT r"] by simp
  consider "nextITT r = reservedITT" | "nextITT r = 0xFFFFFFFE" | "unat (nextITT r) < 2 ^ 32 - 2"
    using lt by (force simp: word_unat_eq_iff)
  then show ?thesis
    by cases (auto simp: AllocateITT_def ittIndex_def Let_def word_unat_eq_iff unat_word_ariths)
qed

fun allocateMany :: "nat \<Rightarrow> Router \<Rightarrow> u32 list \<times> Router" where
  "allocateMany 0 r = ([], r)"
| "allocateMany (Suc n) r =
     (let (itt, r) = AllocateITT r; (itts, r) = allocateMany n r in (itt # itts, r))"

lemma allocateMany_index:
  "map unat (fst (allocateMany n r)) = map (\<lambda>k. (ittIndex r + k) mod (2 ^ 32 - 1)) [0 ..< n]"
proof (induction n arbitrary: r)
  case (Suc n)
  have i: "ittIndex r < 2 ^ 32 - 1" by (simp add: ittIndex_def)
  have "map (\<lambda>k. (ittIndex r + k) mod (2 ^ 32 - 1)) [0 ..< Suc n]
      = ittIndex r # map (\<lambda>k. (Suc (ittIndex r) mod (2 ^ 32 - 1) + k) mod (2 ^ 32 - 1)) [0 ..< n]"
    using i by (simp only: upt_conv_Cons [OF zero_less_Suc] list.map map_Suc_upt [symmetric] map_map)
      (simp add: mod_simps o_def)
  then show ?case
    using Suc.IH [of "snd (AllocateITT r)"] AllocateITT_index [of r]
    by (simp add: Let_def case_prod_beta)
qed simp

lemma mod_window_le:
  "i \<le> j \<Longrightarrow> j < (m::nat) \<Longrightarrow> (a + i) mod m = (a + j) mod m \<Longrightarrow> i = j"
  by (metis Nat.add_diff_assoc2 add_diff_cancel_left diff_is_0_eq dvd_imp_le less_imp_diff_less
      linorder_not_less mod_eq_dvd_iff_nat nat_add_left_cancel_le not_gr_zero order_antisym)

lemma mod_window_inj: "n \<le> m \<Longrightarrow> inj_on (\<lambda>k. (a + k) mod m) {0 ..< n :: nat}"
  by (rule inj_onI) (metis atLeastLessThan_iff le_cases less_le_trans mod_window_le)

section \<open>Interleavings of the router's users\<close>

text \<open>
  The router with the dispatches in flight: between its two parts, \<open>Dispatch\<close> holds an entry it
  has looked up. \<open>UnregisterAndClose\<close> may only run when none is (the condition of its comment).
\<close>

record RouterSys =
  rs_router :: Router
  rs_inflight :: "(routerEntry \<times> RawPDU) list"

inductive router_step :: "RouterSys \<Rightarrow> RouterSys \<Rightarrow> bool" where
  st_register: "router_step s (s\<lparr>rs_router := snd (Register (rs_router s))\<rparr>)"
| st_persistent: "router_step s (s\<lparr>rs_router := snd (RegisterPersistent itt (rs_router s))\<rparr>)"
| st_allocate: "router_step s (s\<lparr>rs_router := snd (AllocateITT (rs_router s))\<rparr>)"
| st_lookup: "dispatchLookup itt (rs_router s) = (Some e, r) \<Longrightarrow>
    router_step s (s\<lparr>rs_router := r, rs_inflight := (e, p) # rs_inflight s\<rparr>)"
| st_send: "rs_inflight s = pre @ (e, p) # post \<Longrightarrow> dispatchSend e p (rs_router s) = Dispatched ok r \<Longrightarrow>
    router_step s (s\<lparr>rs_router := r, rs_inflight := pre @ post\<rparr>)"
| st_receive: "receiveFrom ch (rs_router s) = Some (p, r) \<Longrightarrow> router_step s (s\<lparr>rs_router := r\<rparr>)"
| st_unregister: "router_step s (s\<lparr>rs_router := Unregister itt (rs_router s)\<rparr>)"
| st_close: "rs_inflight s = [] \<Longrightarrow> UnregisterAndClose itt (rs_router s) = Some r \<Longrightarrow>
    router_step s (s\<lparr>rs_router := r\<rparr>)"

inductive router_reachable :: "RouterSys \<Rightarrow> bool" where
  rr_init: "router_reachable \<lparr>rs_router = NewRouter depth, rs_inflight = []\<rparr>"
| rr_step: "router_reachable s \<Longrightarrow> router_step s s' \<Longrightarrow> router_reachable s'"

definition entry_ok :: "Router \<Rightarrow> routerEntry \<Rightarrow> bool" where
  "entry_ok r e \<longleftrightarrow> ent_ch e < length (chans r) \<and> \<not> ch_closed (chans r ! ent_ch e)
     \<and> (\<not> ent_persistent e \<longrightarrow> ch_buf (chans r ! ent_ch e) = [] \<and> ch_cap (chans r ! ent_ch e) = 1)"

definition apart :: "routerEntry \<Rightarrow> routerEntry \<Rightarrow> bool" where
  "apart e f \<longleftrightarrow> (ent_ch e = ent_ch f \<longrightarrow> ent_persistent e \<and> ent_persistent f)"

definition router_inv :: "Router \<Rightarrow> (routerEntry \<times> RawPDU) list \<Rightarrow> bool" where
  "router_inv r fl \<longleftrightarrow>
     distinct (map fst (pending r)) \<and>
     (\<forall>itt e. map_of (pending r) itt = Some e \<longrightarrow> entry_ok r e) \<and>
     (\<forall>i j e f. map_of (pending r) i = Some e \<longrightarrow> map_of (pending r) j = Some f \<longrightarrow> ent_ch e = ent_ch f \<longrightarrow> i = j) \<and>
     (\<forall>e \<in> fst ` set fl. entry_ok r e) \<and>
     (\<forall>e \<in> fst ` set fl. \<forall>i f. map_of (pending r) i = Some f \<longrightarrow> apart e f) \<and>
     sorted_wrt apart (map fst fl)"

lemma entry_ok_grow: "entry_ok r e \<Longrightarrow> chans r' = chans r @ cs \<Longrightarrow> entry_ok r' e"
  by (auto simp: entry_ok_def nth_append)

lemma entry_ok_chans: "chans r' = chans r \<Longrightarrow> entry_ok r' e = entry_ok r e"
  by (simp add: entry_ok_def)

lemma apart_sym: "apart e f = apart f e"
  by (auto simp: apart_def)

lemma router_invD:
  assumes "router_inv r fl"
  shows "distinct (map fst (pending r))"
    "map_of (pending r) itt = Some e \<Longrightarrow> entry_ok r e"
    "map_of (pending r) i = Some e \<Longrightarrow> map_of (pending r) j = Some f \<Longrightarrow> ent_ch e = ent_ch f \<Longrightarrow> i = j"
    "e \<in> fst ` set fl \<Longrightarrow> entry_ok r e"
    "e \<in> fst ` set fl \<Longrightarrow> map_of (pending r) i = Some f \<Longrightarrow> apart e f"
    "sorted_wrt apart (map fst fl)"
  using assms unfolding router_inv_def by blast+

lemma inv_new_entry:
  assumes "router_inv r fl" "chans r' = chans r @ [make_chan n]"
    "pending r' = AList.update itt \<lparr>ent_ch = length (chans r), ent_persistent = pers\<rparr> (pending r)"
    "\<not> pers \<Longrightarrow> n = 1"
  shows "router_inv r' fl"
proof -
  let ?new = "\<lparr>ent_ch = length (chans r), ent_persistent = pers\<rparr>"
  note d = router_invD [OF assms(1)]
  have new: "entry_ok r' ?new" using assms(2,4) by (auto simp: entry_ok_def nth_append make_chan_def)
  have old: "entry_ok r' e" "ent_ch e \<noteq> length (chans r)" if "entry_ok r e" for e
    using entry_ok_grow [OF that assms(2)] that by (auto simp: entry_ok_def)
  have p: "map_of (pending r') i = (if i = itt then Some ?new else map_of (pending r) i)" for i
    by (simp add: assms(3) update_conv')
  show ?thesis unfolding router_inv_def
  proof (intro conjI allI impI ballI)
    show "distinct (map fst (pending r'))" using d(1) by (simp only: assms(3) distinct_update)
    show "entry_ok r' e" if "map_of (pending r') i = Some e" for i e
      using that new old(1) [OF d(2)] by (auto simp: p split: if_splits)
    show "i = j" if "map_of (pending r') i = Some e" "map_of (pending r') j = Some f" "ent_ch e = ent_ch f" for i j e f
    proof (cases "i = itt \<or> j = itt")
      case True
      then show ?thesis
        using that old(2) [OF d(2), of i e] old(2) [OF d(2), of j f] by (auto simp: p split: if_splits)
    next
      case False
      then show ?thesis using that d(3) by (simp add: p)
    qed
    show "entry_ok r' e" if "e \<in> fst ` set fl" for e
      by (rule old(1) [OF d(4) [OF that]])
    show "apart e f" if "e \<in> fst ` set fl" "map_of (pending r') i = Some f" for e i f
      using that(2) d(5) [OF that(1)] old(2) [OF d(4) [OF that(1)]] by (auto simp: p apart_def split: if_splits)
  qed (rule d(6))
qed

lemma inv_shrink:
  assumes "router_inv r fl" "chans r' = chans r" "pending r' = AList.delete itt (pending r)"
  shows "router_inv r' fl"
proof -
  note d = router_invD [OF assms(1)]
  have p: "map_of (pending r') i = Some e \<Longrightarrow> map_of (pending r) i = Some e" for i e
    by (simp add: assms(3) delete_conv' split: if_splits)
  have o: "entry_ok r' e = entry_ok r e" for e using entry_ok_chans [OF assms(2)] .
  show ?thesis unfolding router_inv_def o
  proof (intro conjI allI impI ballI)
    show "distinct (map fst (pending r'))" using d(1) by (simp add: assms(3) distinct_delete)
  qed (use d(6) in \<open>blast intro: d(2-5) dest: p\<close>)+
qed

lemma inv_chan_change:
  assumes "router_inv r fl" "pending r' = pending r"
    "chans r' = (chans r)[ch := c]" "ch_closed c = ch_closed (chans r ! ch)" "ch_cap c = ch_cap (chans r ! ch)"
    "\<And>e. ent_ch e = ch \<Longrightarrow> \<not> ent_persistent e \<Longrightarrow> (\<exists>i. map_of (pending r) i = Some e) \<or> e \<in> fst ` set fl \<Longrightarrow>
        ch_buf c = []"
  shows "router_inv r' fl"
proof -
  note d = router_invD [OF assms(1)]
  have o: "entry_ok r' e" if "entry_ok r e" "(\<exists>i. map_of (pending r) i = Some e) \<or> e \<in> fst ` set fl" for e
    using that assms(3,4,5) assms(6) [of e]
    by (cases "ent_ch e = ch") (auto simp: entry_ok_def nth_list_update)
  show ?thesis unfolding router_inv_def assms(2)
    by (intro conjI allI impI ballI) (use d(6) in \<open>blast intro: d(1-5) o\<close>)+
qed


lemma Register_pending:
  "\<exists>itt. chans (snd (Register r)) = chans r @ [make_chan 1] \<and>
     pending (snd (Register r)) = AList.update itt \<lparr>ent_ch = length (chans r), ent_persistent = False\<rparr> (pending r)"
  by (auto simp: Register_def makeChan_def Let_def)

lemma apart_one_shot: "apart e f \<Longrightarrow> ent_ch f = ent_ch e \<Longrightarrow> ent_persistent e \<and> ent_persistent f"
  by (auto simp: apart_def)

lemma router_step_inv:
  assumes "router_step s s'" "router_inv (rs_router s) (rs_inflight s)"
  shows "router_inv (rs_router s') (rs_inflight s')"
  using assms
proof (induction rule: router_step.induct)
  case (st_register s)
  then show ?case
    using Register_pending [of "rs_router s"] inv_new_entry [of "rs_router s" _ _ 1 _ False] by auto
next
  case (st_persistent s itt)
  then show ?case
    using inv_new_entry [of "rs_router s" "rs_inflight s" "snd (RegisterPersistent itt (rs_router s))" _ itt True]
    by (simp add: RegisterPersistent_def makeChan_def Let_def)
next
  case (st_allocate s)
  have "pending (snd (AllocateITT r)) = pending r" "chans (snd (AllocateITT r)) = chans r" for r
    by (simp_all add: AllocateITT_def Let_def)
  then show ?case using st_allocate entry_ok_chans [of "snd (AllocateITT (rs_router s))" "rs_router s"]
    by (simp add: router_inv_def)
next
  case (st_lookup itt s e r p)
  note d = router_invD [OF st_lookup.prems]
  have e: "map_of (pending (rs_router s)) itt = Some e"
    and r: "r = (if ent_persistent e then rs_router s else rs_router s\<lparr>pending := AList.delete itt (pending (rs_router s))\<rparr>)"
    using st_lookup.hyps by (auto simp: dispatchLookup_def Let_def)
  have inv: "router_inv r (rs_inflight s)"
    using st_lookup.prems inv_shrink [of "rs_router s" "rs_inflight s" r itt]
    by (cases "ent_persistent e") (simp_all add: r)
  have ok: "entry_ok r e" using d(2) [OF e] by (simp add: r entry_ok_def)
  have ap: "apart e f" if "map_of (pending r) i = Some f" for i f
  proof -
    have i: "map_of (pending (rs_router s)) i = Some f" "\<not> ent_persistent e \<Longrightarrow> i \<noteq> itt"
      using that by (auto simp: r delete_conv' split: if_splits)
    show ?thesis
    proof (cases "ent_ch e = ent_ch f")
      case True
      then have "itt = i" using d(3) [OF e i(1)] by simp
      then show ?thesis using i e by (auto simp: apart_def)
    qed (simp add: apart_def)
  qed
  have fl: "apart e f" if "f \<in> fst ` set (rs_inflight s)" for f
    using d(5) [OF that e] by (simp add: apart_sym)
  show ?case
    using inv ok ap fl unfolding router_inv_def by simp
next
  case (st_send s pre e p post ok r)
  note d = router_invD [OF st_send.prems]
  have e: "e \<in> fst ` set (rs_inflight s)" using st_send.hyps by force
  from st_send.hyps(2) obtain c where c: "chan_send (chans (rs_router s) ! ent_ch e) p = Sent c"
    and r: "r = rs_router s\<lparr>chans := (chans (rs_router s))[ent_ch e := c]\<rparr>"
    by (auto simp: dispatchSend_def split: SendResult.splits)
  have less: "router_inv (rs_router s) (pre @ post)"
    using st_send.prems unfolding st_send.hyps(1) router_inv_def by (simp add: sorted_wrt_append)
  have "sorted_wrt apart (map fst pre @ e # map fst post)" using d(6) st_send.hyps by simp
  then have ap: "apart e f" if "f \<in> fst ` set (pre @ post)" for f
    using that by (auto simp: sorted_wrt_append apart_sym)
  have "router_inv r (pre @ post)"
  proof (rule inv_chan_change [OF less])
    show "ch_closed c = ch_closed (chans (rs_router s) ! ent_ch e)" "ch_cap c = ch_cap (chans (rs_router s) ! ent_ch e)"
      using c by (auto simp: chan_send_def split: if_splits)
    fix f assume f: "ent_ch f = ent_ch e" "\<not> ent_persistent f"
      "(\<exists>i. map_of (pending (rs_router s)) i = Some f) \<or> f \<in> fst ` set (pre @ post)"
    then have "apart e f" using ap d(5) [OF e] by blast
    then show "ch_buf c = []" using apart_one_shot f(1,2) by blast
  qed (simp_all add: r)
  then show ?case by simp
next
  case (st_receive ch s p r)
  note d = router_invD [OF st_receive.prems]
  from st_receive.hyps obtain c where c: "chan_recv (chans (rs_router s) ! ch) = Received p c" "ch < length (chans (rs_router s))"
    and r: "r = rs_router s\<lparr>chans := (chans (rs_router s))[ch := c]\<rparr>"
    by (auto simp: receiveFrom_def split: RecvResult.splits if_splits)
  have "router_inv r (rs_inflight s)"
  proof (rule inv_chan_change [OF st_receive.prems])
    show "ch_closed c = ch_closed (chans (rs_router s) ! ch)" "ch_cap c = ch_cap (chans (rs_router s) ! ch)"
      using c by (auto simp: chan_recv_def split: list.splits if_splits)
    fix f assume f: "ent_ch f = ch" "\<not> ent_persistent f"
      "(\<exists>i. map_of (pending (rs_router s)) i = Some f) \<or> f \<in> fst ` set (rs_inflight s)"
    then have "entry_ok (rs_router s) f" using d by blast
    then show "ch_buf c = []" using f c by (auto simp: entry_ok_def chan_recv_def split: if_splits)
  qed (simp_all add: r)
  then show ?case by simp
next
  case (st_unregister s itt)
  then show ?case using inv_shrink [of "rs_router s" "rs_inflight s" "Unregister itt (rs_router s)" itt]
    by (simp add: Unregister_def)
next
  case (st_close s itt r)
  let ?r = "Unregister itt (rs_router s)"
  note d = router_invD [OF st_close.prems]
  have inv: "router_inv ?r (rs_inflight s)"
    using st_close.prems inv_shrink [of "rs_router s" "rs_inflight s" ?r itt] by (simp add: Unregister_def)
  show ?case
  proof (cases "\<exists>e. map_of (pending (rs_router s)) itt = Some e \<and> ent_persistent e")
    case True
    then obtain e c where e: "map_of (pending (rs_router s)) itt = Some e"
      and r: "r = ?r\<lparr>chans := (chans (rs_router s))[ent_ch e := c]\<rparr>"
      using st_close.hyps(2) by (auto simp: UnregisterAndClose_def Unregister_def Let_def split: option.splits)
    have other: "ent_ch f \<noteq> ent_ch e" if "map_of (pending ?r) i = Some f" for i f
      using that d(3) [OF e, of i f] by (auto simp: Unregister_def delete_conv' split: if_splits)
    have "entry_ok r f" if "map_of (pending ?r) i = Some f" for i f
      using other [OF that] router_invD(2) [OF inv that] by (auto simp: r entry_ok_def Unregister_def)
    then show ?thesis using inv st_close.hyps(1) by (simp add: router_inv_def r)
  next
    case False
    then have "r = ?r"
      using st_close.hyps(2) by (auto simp: UnregisterAndClose_def Unregister_def Let_def split: option.splits if_splits)
    then show ?thesis using inv by simp
  qed
qed

lemma reachable_inv: "router_reachable s \<Longrightarrow> router_inv (rs_router s) (rs_inflight s)"
proof (induction rule: router_reachable.induct)
  case (rr_init depth)
  then show ?case by (simp add: router_inv_def NewRouter_def Let_def)
next
  case (rr_step s s')
  then show ?case using router_step_inv by blast
qed

lemma Register_overwrites:
  "map_of (pending r) (nextITT r) = Some e \<Longrightarrow> nextITT r \<noteq> reservedITT \<Longrightarrow>
   map_of (pending (snd (Register r))) (nextITT r) = Some \<lparr>ent_ch = length (chans r), ent_persistent = False\<rparr>"
  by (simp add: Register_def makeChan_def Let_def update_conv')

lemma reachable_registered:
  "router_reachable \<lparr>rs_router = snd (Register (NewRouter 0)), rs_inflight = []\<rparr>"
  using rr_step [OF rr_init [of 0] st_register] by simp

section \<open>Properties\<close>

text \<open>C39. Task tags: fewer than \<open>2 ^ 32\<close> consecutive allocations are pairwise different, and none is the
  reserved tag \<open>0xFFFFFFFF\<close>, wherever the counter starts.\<close>

theorem allocated_tags_distinct:
  assumes "n \<le> 2 ^ 32 - 1"
  shows "distinct (fst (allocateMany n r)) \<and> reservedITT \<notin> set (fst (allocateMany n r))
    \<and> length (fst (allocateMany n r)) = n"
proof -
  have m: "map unat (fst (allocateMany n r)) = map (\<lambda>k. (ittIndex r + k) mod (2 ^ 32 - 1)) [0 ..< n]"
    by (rule allocateMany_index)
  then have "distinct (map unat (fst (allocateMany n r)))"
    using mod_window_inj [OF assms, of "ittIndex r"] by (simp only: distinct_map distinct_upt set_upt simp_thms)
  moreover have "unat reservedITT \<notin> set (map unat (fst (allocateMany n r)))"
    unfolding m by (auto dest: sym)
  moreover have "length (map unat (fst (allocateMany n r))) = n" unfolding m by simp
  moreover have "reservedITT \<in> set xs \<Longrightarrow> unat reservedITT \<in> set (map unat xs)" for xs
    by (simp only: set_map) (rule imageI)
  ultimately show ?thesis by (auto simp only: distinct_map length_map)
qed

theorem allocated_tags_distinct_witness:
  "fst (allocateMany 3 ((NewRouter 0)\<lparr>nextITT := 0xFFFFFFFD\<rparr>)) = [0xFFFFFFFD, 0xFFFFFFFE, 0] \<and>
   distinct (fst (allocateMany 3 ((NewRouter 0)\<lparr>nextITT := 0xFFFFFFFD\<rparr>)))"
  using allocated_tags_distinct [of 3 "(NewRouter 0)\<lparr>nextITT := 0xFFFFFFFD\<rparr>"]
  by (simp add: numeral_3_eq_3 AllocateITT_def Let_def)

text \<open>C18. In every reachable state of the router, dispatching never sends on a closed channel, and a PDU
  for a one-shot registration is delivered at once: the send cannot block, the PDU is the only one
  in the waiter's channel, and a second PDU with that tag finds no entry.\<close>

theorem dispatch_in_reachable_state:
  assumes "router_reachable s"
  shows "Dispatch itt p (rs_router s) \<noteq> DispatchPanics \<and>
    (map_of (pending (rs_router s)) itt = Some e \<and> \<not> ent_persistent e \<longrightarrow>
      (\<exists>r'. Dispatch itt p (rs_router s) = Dispatched True r' \<and> ch_buf (chans r' ! ent_ch e) = [p]
         \<and> (\<forall>q. Dispatch itt q r' = Dispatched False r')))"
proof
  note ok = router_invD(2) [OF reachable_inv [OF assms], of itt]
  show "Dispatch itt p (rs_router s) \<noteq> DispatchPanics"
    using ok
    by (auto simp: Dispatch_def dispatchLookup_def dispatchSend_def chan_send_def entry_ok_def Let_def
        split: option.splits)
  show "map_of (pending (rs_router s)) itt = Some e \<and> \<not> ent_persistent e \<longrightarrow>
      (\<exists>r'. Dispatch itt p (rs_router s) = Dispatched True r' \<and> ch_buf (chans r' ! ent_ch e) = [p]
         \<and> (\<forall>q. Dispatch itt q r' = Dispatched False r'))"
    using ok [of e]
    by (auto simp: Dispatch_def dispatchLookup_def dispatchSend_def chan_send_def entry_ok_def Let_def delete_conv')
qed

theorem dispatch_in_reachable_state_witness:
  "\<exists>r'. Dispatch 0 (bareRaw [] []) (snd (Register (NewRouter 0))) = Dispatched True r'
     \<and> ch_buf (chans r' ! 0) = [bareRaw [] []]"
  using dispatch_in_reachable_state [OF reachable_registered, of 0 "bareRaw [] []" "\<lparr>ent_ch = 0, ent_persistent = False\<rparr>"]
  by (auto simp: Register_def NewRouter_def makeChan_def Let_def)

end
