(* ===== verification/Pump.thy ===== *)
theory Pump
  imports Router
begin

text \<open>
  \<open>internal/transport/pump.go\<close>: the write pump and the read pump.

  Each pump is a loop around a blocking operation. What the loop is handed is an argument: the
  write pump takes the list of outcomes of its \<open>select\<close>, and whether the n-th write fails; the
  read pump takes the byte stream, whether the context is cancelled at the n-th iteration, and
  what the other goroutines do to the shared state before the n-th PDU is routed. An exit of
  \<open>None\<close> means that the loop is still waiting.
\<close>

section \<open>The write pump\<close>

datatype PumpEvent = CtxDone | ChanClosed | Got RawPDU
datatype PumpExit = CtxErr | ExitNil | WriteErr | ReadErr ReadError

fun WritePump :: "(nat \<Rightarrow> bytes) \<Rightarrow> (nat \<Rightarrow> bool) \<Rightarrow> ByteOrder \<Rightarrow> nat \<Rightarrow> PumpEvent list \<Rightarrow> bytes
    \<Rightarrow> bytes \<times> PumpExit option" where
  "WritePump pool fails bo n [] w = (w, None)"
| "WritePump pool fails bo n (CtxDone # evs) w = (w, Some CtxErr)"
| "WritePump pool fails bo n (ChanClosed # evs) w = (w, Some ExitNil)"
| "WritePump pool fails bo n (Got p # evs) w =
     (if fails n then (w, Some WriteErr)
      else WritePump pool fails bo (Suc n) evs (w @ WriteRawPDU (pool n) p bo))"

section \<open>The read pump\<close>

record PumpState =
  ps_router :: Router
  ps_unsolicited :: "RawPDU Chan"
  ps_dropped :: nat

datatype RouteResult =
    Continue PumpState
  | RouteCtxErr PumpState
  | RouteBlocks PumpState
  | RoutePanics

definition rawITT :: "RawPDU \<Rightarrow> u32" where
  "rawITT raw = Uint32 (slice (raw_BHS raw) 16 20)"

definition rawOpcode :: "RawPDU \<Rightarrow> u8" where
  "rawOpcode raw = raw_BHS raw ! 0 AND 0x3f"

text \<open>
  One PDU. \<open>ctxPicked\<close> says that the context is cancelled and the \<open>select\<close> of the NOP-In case
  takes that branch.
\<close>

definition routePDU :: "bool \<Rightarrow> RawPDU \<Rightarrow> PumpState \<Rightarrow> RouteResult" where
  "routePDU ctxPicked raw st =
     (let itt = rawITT raw
      in if itt = reservedITT
         then let opcode = rawOpcode raw
              in if opcode = OpNOPIn
                 then if ctxPicked then RouteCtxErr st
                      else (case chan_send (ps_unsolicited st) raw of
                              Sent c \<Rightarrow> Continue (st\<lparr>ps_unsolicited := c\<rparr>)
                            | SendBlocks \<Rightarrow> RouteBlocks st
                            | SendPanics \<Rightarrow> RoutePanics)
                 else (case chan_send (ps_unsolicited st) raw of
                         Sent c \<Rightarrow> Continue (st\<lparr>ps_unsolicited := c\<rparr>)
                       | SendBlocks \<Rightarrow> Continue (st\<lparr>ps_dropped := ps_dropped st + 1\<rparr>)
                       | SendPanics \<Rightarrow> RoutePanics)
         else (case Dispatch itt raw (ps_router st) of
                 Dispatched ok r \<Rightarrow> Continue (st\<lparr>ps_router := r\<rparr>)
               | DispatchBlocks r \<Rightarrow> RouteBlocks (st\<lparr>ps_router := r\<rparr>)
               | DispatchPanics \<Rightarrow> RoutePanics))"

lemma ReadRawPDU_shorter:
  "ReadRawPDU r dh dd mx bo = Inr (p, r') \<Longrightarrow> length r' < length r"
  by (auto simp: ReadRawPDU_def ReadFull_def Let_def split: if_splits option.splits)

datatype PumpOutcome = Exits PumpExit PumpState | Blocks PumpState | Panics

text \<open>What the \<open>ctx.Done()\<close> tests of one iteration see.\<close>

record CtxView =
  cv_before :: bool
  cv_after_error :: bool
  cv_select :: bool

function ReadPump :: "(nat \<Rightarrow> CtxView) \<Rightarrow> (nat \<Rightarrow> PumpState \<Rightarrow> PumpState) \<Rightarrow> bool \<Rightarrow> bool
    \<Rightarrow> u32 \<Rightarrow> ByteOrder \<Rightarrow> nat \<Rightarrow> bytes \<Rightarrow> PumpState \<Rightarrow> PumpOutcome" where
  "ReadPump ctx env dh dd mx bo n r st =
     (if cv_before (ctx n) then Exits CtxErr st
      else case ReadRawPDU r dh dd mx bo of
             Inl e \<Rightarrow> if cv_after_error (ctx n) then Exits CtxErr st else Exits (ReadErr e) st
           | Inr (raw, r) \<Rightarrow>
               (case routePDU (cv_select (ctx n)) raw (env n st) of
                  Continue st \<Rightarrow> ReadPump ctx env dh dd mx bo (Suc n) r st
                | RouteCtxErr st \<Rightarrow> Exits CtxErr st
                | RouteBlocks st \<Rightarrow> Blocks st
                | RoutePanics \<Rightarrow> Panics))"
  by pat_completeness auto
termination
  by (relation "measure (\<lambda>(_, _, _, _, _, _, _, r, _). length r)") (auto dest: ReadRawPDU_shorter)

declare ReadPump.simps [simp del]

section \<open>What the pumps write and deliver\<close>

lemma WritePump_all:
  "(\<forall>i. \<not> fails i) \<Longrightarrow> WritePump pool fails bo n (map Got ps @ evs) w =
     WritePump pool fails bo (n + length ps) evs
       (w @ concat (map (\<lambda>(i, p). WriteRawPDU (pool i) p bo) (zip [n ..< n + length ps] ps)))"
proof (induction ps arbitrary: n w)
  case (Cons p ps)
  then show ?case by (simp add: upt_conv_Cons del: upt_Suc)
qed simp

text \<open>The persistent channel of a tag with room for \<open>k\<close> more PDUs.\<close>

definition has_room :: "u32 \<Rightarrow> nat \<Rightarrow> nat \<Rightarrow> Router \<Rightarrow> bool" where
  "has_room itt ch k r \<longleftrightarrow> map_of (pending r) itt = Some \<lparr>ent_ch = ch, ent_persistent = True\<rparr>
     \<and> ch < length (chans r) \<and> \<not> ch_closed (chans r ! ch)
     \<and> length (ch_buf (chans r ! ch)) + k \<le> ch_cap (chans r ! ch)"

definition delivered :: "nat \<Rightarrow> RawPDU list \<Rightarrow> Router \<Rightarrow> Router" where
  "delivered ch ps r = r\<lparr>chans := (chans r)[ch := (chans r ! ch)\<lparr>ch_buf := ch_buf (chans r ! ch) @ ps\<rparr>]\<rparr>"

lemma delivered_delivered:
  "ch < length (chans r) \<Longrightarrow> delivered ch qs (delivered ch ps r) = delivered ch (ps @ qs) r"
  by (simp add: delivered_def)

lemma has_room_delivered: "has_room itt ch (k + length ps) r \<Longrightarrow> has_room itt ch k (delivered ch ps r)"
  by (simp add: has_room_def delivered_def)

lemma Dispatch_persistent:
  "has_room itt ch (Suc k) r \<Longrightarrow> Dispatch itt p r = Dispatched True (delivered ch [p] r)"
  by (simp add: has_room_def Dispatch_def dispatchLookup_def dispatchSend_def chan_send_def delivered_def Let_def)

lemma routePDU_persistent:
  "has_room itt ch (Suc k) (ps_router st) \<Longrightarrow> rawITT raw = itt \<Longrightarrow> itt \<noteq> reservedITT \<Longrightarrow>
   routePDU c raw st = Continue (st\<lparr>ps_router := delivered ch [raw] (ps_router st)\<rparr>)"
  by (simp add: routePDU_def Dispatch_persistent)

lemma rawITT_stamp: "rawITT (stampDigests dh dd p) = rawITT p"
  by (simp add: rawITT_def stampDigests_def Let_def)

lemma ReadPump_delivers:
  assumes "\<forall>p \<in> set ps. unstamped p \<and> rawITT p = itt" "itt \<noteq> reservedITT" "\<forall>n. \<not> cv_before (ctx n)"
    "has_room itt ch (length ps) (ps_router st)"
  shows "ReadPump ctx (\<lambda>_ st. st) dh dd mx bo n
      (concat (map (\<lambda>p. WriteRawPDU (pool p) (stampDigests dh dd p) bo) ps) @ rest) st
    = ReadPump ctx (\<lambda>_ st. st) dh dd mx bo (n + length ps) rest
        (st\<lparr>ps_router := delivered ch (map (stampDigests dh dd) ps) (ps_router st)\<rparr>)"
  using assms
proof (induction ps arbitrary: n st)
  case Nil
  then show ?case by (simp add: delivered_def)
next
  case (Cons p ps)
  let ?st = "st\<lparr>ps_router := delivered ch [stampDigests dh dd p] (ps_router st)\<rparr>"
  have room: "has_room itt ch (length ps) (ps_router ?st)"
    using has_room_delivered [of itt ch "length ps" "[stampDigests dh dd p]"] Cons.prems(4) by simp
  have rd: "ReadRawPDU (WriteRawPDU (pool p) (stampDigests dh dd p) bo @ more) dh dd mx bo
      = Inr (stampDigests dh dd p, more)" for more
    using Cons.prems(1) ReadRawPDU_WriteRawPDU [of dh dd "stampDigests dh dd p"] stampDigests_ok [of p dh dd] by simp
  have rt: "routePDU c (stampDigests dh dd p) st = Continue ?st" for c
    using Cons.prems by (intro routePDU_persistent [of itt ch "length ps"]) (simp_all add: rawITT_stamp)
  have ch: "ch < length (chans (ps_router st))" using Cons.prems(4) by (simp add: has_room_def)
  show ?case
    using Cons.IH [of ?st "Suc n"] Cons.prems(1-3) room
    by (subst ReadPump.simps) (simp add: rd rt delivered_delivered [OF ch])
qed

lemma write_pump_stream:
  "concat (map (\<lambda>(i, p). WriteRawPDU (pool i) p bo) (zip [n ..< n + length ps] ps))
     = concat (map (\<lambda>p. WriteRawPDU [] p bo) ps)"
  if "\<forall>p \<in> set ps. wf_Raw p"
  using that
proof (induction ps arbitrary: n)
  case (Cons p ps)
  then show ?case using Cons.IH [of "Suc n"] by (simp add: upt_conv_Cons WriteRawPDU_wire del: upt_Suc)
qed simp

definition samplePump :: PumpState where
  "samplePump = \<lparr>ps_router = snd (RegisterPersistent 0 (NewRouter 2)), ps_unsolicited = make_chan 0, ps_dropped = 4\<rparr>"

section \<open>Properties\<close>

text \<open>C31. The two pumps in a row: the PDUs queued to a write pump are, after a read pump with the same
  digest settings has consumed the bytes, in the channel registered for their tag, complete and in
  the order they were queued, and the read pump stops with the end of the stream.\<close>

theorem pumps_deliver_in_order:
  assumes "\<forall>p \<in> set ps. unstamped p \<and> rawITT p = itt" "itt \<noteq> reservedITT"
    "\<forall>i. \<not> fails i" "\<forall>n. \<not> cv_before (ctx n) \<and> \<not> cv_after_error (ctx n)"
    "has_room itt ch (length ps) (ps_router st)"
  shows "\<exists>wire. WritePump pool fails bo 0 (map Got (map (stampDigests dh dd) ps) @ [ChanClosed]) [] = (wire, Some ExitNil) \<and>
     ReadPump ctx (\<lambda>_ st. st) dh dd mx bo 0 wire st = Exits (ReadErr EOF)
        (st\<lparr>ps_router := delivered ch (map (stampDigests dh dd) ps) (ps_router st)\<rparr>)"
proof -
  define wire where "wire = concat (map (\<lambda>p. WriteRawPDU [] (stampDigests dh dd p) bo) ps)"
  have wf: "\<forall>p \<in> set (map (stampDigests dh dd) ps). wf_Raw p"
    using assms(1) by (auto intro: shaped_wf [OF stampDigests_ok(1)])
  have "WritePump pool fails bo 0 (map Got (map (stampDigests dh dd) ps) @ [ChanClosed]) [] = (wire, Some ExitNil)"
    using WritePump_all [OF assms(3), of pool bo 0 "map (stampDigests dh dd) ps" "[ChanClosed]" "[]"]
      write_pump_stream [OF wf, of pool bo 0] by (simp add: wire_def o_def)
  moreover have "ReadPump ctx (\<lambda>_ st. st) dh dd mx bo 0 wire st = Exits (ReadErr EOF)
        (st\<lparr>ps_router := delivered ch (map (stampDigests dh dd) ps) (ps_router st)\<rparr>)"
    using ReadPump_delivers [OF assms(1,2) _ assms(5), of ctx dh dd mx bo 0 "\<lambda>_. []" "[]"] assms(4)
    by (simp add: wire_def ReadPump.simps [of _ _ _ _ _ _ _ "[]"] ReadRawPDU_def ReadFull_def)
  ultimately show ?thesis by blast
qed

theorem pumps_deliver_in_order_witness:
  "\<exists>wire. WritePump (\<lambda>_. [7]) (\<lambda>_. False) LittleEndian 0 (map Got (map (stampDigests True True) [sampleFrame]) @ [ChanClosed]) []
      = (wire, Some ExitNil) \<and>
     ReadPump (\<lambda>_. \<lparr>cv_before = False, cv_after_error = False, cv_select = False\<rparr>) (\<lambda>_ st. st) True True 0 LittleEndian 0
       wire samplePump = Exits (ReadErr EOF)
        (samplePump\<lparr>ps_router := delivered 0 (map (stampDigests True True) [sampleFrame]) (ps_router samplePump)\<rparr>)"
proof -
  have room: "has_room 0 0 1 (ps_router samplePump)"
    by (simp add: samplePump_def has_room_def RegisterPersistent_def NewRouter_def makeChan_def make_chan_def Let_def)
  have itt: "rawITT sampleFrame = 0"
    by (simp add: rawITT_def sampleFrame_def bareRaw_def slice_def Uint32_def numeral_eq_Suc)
  show ?thesis
    using pumps_deliver_in_order [of "[sampleFrame]" 0 "\<lambda>_. False"
        "\<lambda>_. \<lparr>cv_before = False, cv_after_error = False, cv_select = False\<rparr>" 0 samplePump "\<lambda>_. [7]" LittleEndian True True 0]
      room itt sampleFrame_unstamped by simp
qed

text \<open>The read pump drops a PDU only when it is unsolicited, is not a NOP-In and the channel is full;
  every other unsolicited PDU that is routed is appended to the channel, and the drop counter
  counts exactly the dropped ones.\<close>

lemma only_optional_pdus_are_dropped:
  assumes "routePDU c raw st = Continue st'"
  shows "ps_dropped st' = ps_dropped st + (if rawITT raw = reservedITT \<and> rawOpcode raw \<noteq> OpNOPIn
      \<and> \<not> length (ch_buf (ps_unsolicited st)) < ch_cap (ps_unsolicited st) then 1 else 0) \<and>
    ch_buf (ps_unsolicited st') = ch_buf (ps_unsolicited st)
      @ (if rawITT raw = reservedITT \<and> ps_dropped st' = ps_dropped st then [raw] else [])"
  using assms
  by (auto simp: routePDU_def Let_def chan_send_def split: if_splits DispatchResult.splits)

theorem only_optional_pdus_are_dropped_witness:
  "\<exists>st'. routePDU False (bareRaw (replicate 48 0xFF) []) samplePump = Continue st' \<and> ps_dropped st' = 5
    \<and> ch_buf (ps_unsolicited st') = []"
proof -
  have r: "routePDU False (bareRaw (replicate 48 0xFF) []) samplePump = Continue (samplePump\<lparr>ps_dropped := 5\<rparr>)"
    by (simp add: routePDU_def rawITT_def rawOpcode_def bareRaw_def samplePump_def chan_send_def make_chan_def
        slice_def Uint32_def)
  then show ?thesis using only_optional_pdus_are_dropped [OF r] by (simp add: samplePump_def make_chan_def)
qed

end
