(* ===== verification/Cmd_Window.thy ===== *)
theory Cmd_Window
  imports Serial
begin

text \<open>
  \<open>internal/session/cmdwindow.go\<close>: CmdSN flow control.

  The first part models the methods, each a function on the window's fields; \<open>acquire\<close> is cut at
  its blocking points into the fast path (\<open>acquireFast\<close>) and the body of the waiter's loop
  (\<open>waiterCheck\<close>).

  The second part is the concurrent system: callers of \<open>acquire\<close>, their waiter goroutines, the
  mutex, the condition variable and the cancellation channel, with one step per atomic action.
  \<open>sync.Cond.Wait\<close> puts the waiter on the notify list before it releases the mutex, so parking is
  one step; \<open>Broadcast\<close> may run without the mutex and moves every parked waiter to \<open>Woken\<close>.

  The invariants: granted sequence numbers are consecutive and inside the window at the moment of
  the grant, and a parked waiter always faces a window that is neither open nor closed for good,
  so no update of the window is missed. Two reachable states at the end show what cancellation
  can lose: a granted number and a wake-up.
\<close>

record cmdWindow =
  cw_cmdSN :: u32
  cw_expCmdSN :: u32
  cw_maxCmdSN :: u32
  cw_closed :: bool

definition newCmdWindow :: "u32 \<Rightarrow> u32 \<Rightarrow> u32 \<Rightarrow> cmdWindow" where
  "newCmdWindow cmdSN expCmdSN maxCmdSN =
     \<lparr>cw_cmdSN = cmdSN, cw_expCmdSN = expCmdSN, cw_maxCmdSN = maxCmdSN, cw_closed = False\<rparr>"

definition windowOpen :: "cmdWindow \<Rightarrow> bool" where
  "windowOpen w =
     (if LessThan (cw_maxCmdSN w) (cw_expCmdSN w) then False
      else InWindow (cw_cmdSN w) (cw_expCmdSN w) (cw_maxCmdSN w))"

definition takeSN :: "cmdWindow \<Rightarrow> u32 \<times> cmdWindow" where
  "takeSN w = (cw_cmdSN w, w\<lparr>cw_cmdSN := Incr (cw_cmdSN w)\<rparr>)"

datatype AcquireStep = WindowClosed | Canceled | Granted u32 cmdWindow | MustWait

definition acquireFast :: "cmdWindow \<Rightarrow> AcquireStep" where
  "acquireFast w =
     (if cw_closed w then WindowClosed
      else if windowOpen w then (let (sn, w) = takeSN w in Granted sn w)
      else MustWait)"

definition waiterCheck :: "bool \<Rightarrow> cmdWindow \<Rightarrow> AcquireStep" where
  "waiterCheck waiterDone w =
     (if cw_closed w then WindowClosed
      else if waiterDone then Canceled
      else if windowOpen w then (let (sn, w) = takeSN w in Granted sn w)
      else MustWait)"

text \<open>\<open>update\<close> also returns whether it broadcasts.\<close>

definition updateWindow :: "u32 \<Rightarrow> u32 \<Rightarrow> cmdWindow \<Rightarrow> cmdWindow \<times> bool" where
  "updateWindow expCmdSN maxCmdSN w =
     (if LessThan maxCmdSN (expCmdSN - 1) then (w, False)
      else
        let updated = False;
            (w, updated) = (if GreaterThan expCmdSN (cw_expCmdSN w)
              then (w\<lparr>cw_expCmdSN := expCmdSN\<rparr>, True) else (w, updated));
            (w, updated) = (if maxCmdSN \<noteq> cw_maxCmdSN w
              then (w\<lparr>cw_maxCmdSN := maxCmdSN\<rparr>, True) else (w, updated))
        in (w, updated))"

definition closeWindow :: "cmdWindow \<Rightarrow> cmdWindow" where
  "closeWindow w = w\<lparr>cw_closed := True\<rparr>"

definition currentCmdSN :: "cmdWindow \<Rightarrow> u32" where
  "currentCmdSN w = cw_cmdSN w"

definition maxCmdSNValue :: "cmdWindow \<Rightarrow> u32" where
  "maxCmdSNValue w = cw_maxCmdSN w"

section \<open>Lemmas on the methods\<close>

lemma windowOpen_dist:
  assumes "windowOpen w"
  shows "dist32 (cw_expCmdSN w) (cw_cmdSN w) \<le> dist32 (cw_expCmdSN w) (cw_maxCmdSN w)"
    and "dist32 (cw_expCmdSN w) (cw_maxCmdSN w) < 2 ^ 31"
proof -
  have nl: "\<not> LessThan (cw_maxCmdSN w) (cw_expCmdSN w)" and i: "InWindow (cw_cmdSN w) (cw_expCmdSN w) (cw_maxCmdSN w)"
    using assms by (auto simp: windowOpen_def split: if_splits)
  show d: "dist32 (cw_expCmdSN w) (cw_maxCmdSN w) < 2 ^ 31"
  proof (cases "cw_maxCmdSN w = cw_expCmdSN w")
    case False
    then show ?thesis
      using nl dist32_swap [OF False] dist32_less [of "cw_maxCmdSN w" "cw_expCmdSN w"]
      by (auto simp: LessThan_dist)
  qed simp
  show "dist32 (cw_expCmdSN w) (cw_cmdSN w) \<le> dist32 (cw_expCmdSN w) (cw_maxCmdSN w)"
    using serial.inw_iff [OF d] i by simp
qed

lemma updateWindow_exp:
  "cw_expCmdSN (fst (updateWindow e m w)) = cw_expCmdSN w
   \<or> GreaterThan (cw_expCmdSN (fst (updateWindow e m w))) (cw_expCmdSN w)"
  by (auto simp: updateWindow_def Let_def)

lemma updateWindow_quiet: "\<not> snd (updateWindow e m w) \<Longrightarrow> fst (updateWindow e m w) = w"
  by (auto simp: updateWindow_def Let_def split: if_splits)

lemma updateWindow_keeps [simp]:
  "cw_cmdSN (fst (updateWindow e m w)) = cw_cmdSN w" "cw_closed (fst (updateWindow e m w)) = cw_closed w"
  by (auto simp: updateWindow_def Let_def)

section \<open>Callers, waiters, the mutex and the condition variable\<close>

datatype WaiterPc =
    NotCalled
  | AtCheck        \<comment> \<open>at the head of the loop, mutex held\<close>
  | Waiting        \<comment> \<open>about to call \<open>cond.Wait\<close>, mutex held\<close>
  | Parked
  | Woken          \<comment> \<open>notified, has to take the mutex\<close>
  | Ended AcquireStep

datatype CallerPc = Calling | Signalled | Draining | ReturnedSN u32 | ReturnedErr

record WindowSys =
  ws_win :: cmdWindow
  ws_lock :: "nat option"
  ws_waiter :: "nat \<Rightarrow> WaiterPc"
  ws_caller :: "nat \<Rightarrow> CallerPc"
  ws_done :: "nat \<Rightarrow> bool"
  ws_log :: "(nat \<times> u32 \<times> cmdWindow) list"

definition broadcast :: "(nat \<Rightarrow> WaiterPc) \<Rightarrow> nat \<Rightarrow> WaiterPc" where
  "broadcast pcs t = (if pcs t = Parked then Woken else pcs t)"

text \<open>
  What a check does to the shared state: a grant is logged with the window it was made in. The
  fast path returns to the caller at once; a waiter leaves its result in the channel.
\<close>

definition afterCheck :: "nat \<Rightarrow> AcquireStep \<Rightarrow> WindowSys \<Rightarrow> WindowSys" where
  "afterCheck t r s =
     (let s' = s\<lparr>ws_lock := None, ws_waiter := (ws_waiter s)(t := Ended r)\<rparr>
      in case r of
           Granted sn w \<Rightarrow> s'\<lparr>ws_win := w, ws_log := ws_log s @ [(t, sn, ws_win s)]\<rparr>
         | _ \<Rightarrow> s')"

definition returned :: "AcquireStep \<Rightarrow> CallerPc" where
  "returned r = (case r of Granted sn _ \<Rightarrow> ReturnedSN sn | _ \<Rightarrow> ReturnedErr)"

inductive window_step :: "WindowSys \<Rightarrow> WindowSys \<Rightarrow> bool" where
  wst_fast: "ws_waiter s t = NotCalled \<Longrightarrow> ws_lock s = None \<Longrightarrow> acquireFast (ws_win s) = r \<Longrightarrow> r \<noteq> MustWait \<Longrightarrow>
    window_step s ((afterCheck t r s)\<lparr>ws_caller := (ws_caller s)(t := returned r)\<rparr>)"
| wst_slow: "ws_waiter s t = NotCalled \<Longrightarrow> ws_lock s = None \<Longrightarrow> acquireFast (ws_win s) = MustWait \<Longrightarrow>
    window_step s (s\<lparr>ws_lock := Some t, ws_waiter := (ws_waiter s)(t := AtCheck)\<rparr>)"
| wst_check: "ws_waiter s t = AtCheck \<Longrightarrow> waiterCheck (ws_done s t) (ws_win s) = r \<Longrightarrow> r \<noteq> MustWait \<Longrightarrow>
    window_step s (afterCheck t r s)"
| wst_wait: "ws_waiter s t = AtCheck \<Longrightarrow> waiterCheck (ws_done s t) (ws_win s) = MustWait \<Longrightarrow>
    window_step s (s\<lparr>ws_waiter := (ws_waiter s)(t := Waiting)\<rparr>)"
| wst_park: "ws_waiter s t = Waiting \<Longrightarrow>
    window_step s (s\<lparr>ws_lock := None, ws_waiter := (ws_waiter s)(t := Parked)\<rparr>)"
| wst_relock: "ws_waiter s t = Woken \<Longrightarrow> ws_lock s = None \<Longrightarrow>
    window_step s (s\<lparr>ws_lock := Some t, ws_waiter := (ws_waiter s)(t := AtCheck)\<rparr>)"
| wst_cancel: "ws_waiter s t \<noteq> NotCalled \<Longrightarrow> ws_caller s t = Calling \<Longrightarrow>
    window_step s (s\<lparr>ws_caller := (ws_caller s)(t := Signalled), ws_done := (ws_done s)(t := True)\<rparr>)"
| wst_broadcast: "ws_caller s t = Signalled \<Longrightarrow>
    window_step s (s\<lparr>ws_caller := (ws_caller s)(t := Draining), ws_waiter := broadcast (ws_waiter s)\<rparr>)"
| wst_return: "ws_waiter s t = Ended r \<Longrightarrow> ws_caller s t = Calling \<Longrightarrow>
    window_step s (s\<lparr>ws_caller := (ws_caller s)(t := returned r)\<rparr>)"
| wst_drain: "ws_waiter s t = Ended r \<Longrightarrow> ws_caller s t = Draining \<Longrightarrow>
    window_step s (s\<lparr>ws_caller := (ws_caller s)(t := ReturnedErr)\<rparr>)"
| wst_update: "ws_lock s = None \<Longrightarrow> updateWindow e m (ws_win s) = (w, b) \<Longrightarrow>
    window_step s (s\<lparr>ws_win := w, ws_waiter := if b then broadcast (ws_waiter s) else ws_waiter s\<rparr>)"
| wst_close: "ws_lock s = None \<Longrightarrow>
    window_step s (s\<lparr>ws_win := closeWindow (ws_win s), ws_waiter := broadcast (ws_waiter s)\<rparr>)"

definition initSys :: "cmdWindow \<Rightarrow> WindowSys" where
  "initSys w = \<lparr>ws_win = w, ws_lock = None, ws_waiter = (\<lambda>_. NotCalled), ws_caller = (\<lambda>_. Calling),
     ws_done = (\<lambda>_. False), ws_log = []\<rparr>"

inductive window_reachable :: "cmdWindow \<Rightarrow> WindowSys \<Rightarrow> bool" for w0 where
  wr_init: "window_reachable w0 (initSys w0)"
| wr_step: "window_reachable w0 s \<Longrightarrow> window_step s s' \<Longrightarrow> window_reachable w0 s'"

section \<open>Invariants\<close>

definition lock_inv :: "WindowSys \<Rightarrow> bool" where
  "lock_inv s \<longleftrightarrow> (\<forall>t. ws_waiter s t \<in> {AtCheck, Waiting} \<longleftrightarrow> ws_lock s = Some t)"

definition parked_inv :: "WindowSys \<Rightarrow> bool" where
  "parked_inv s \<longleftrightarrow> (\<forall>t. ws_waiter s t \<in> {Parked, Waiting} \<longrightarrow> \<not> windowOpen (ws_win s) \<and> \<not> cw_closed (ws_win s))"

definition log_inv :: "cmdWindow \<Rightarrow> WindowSys \<Rightarrow> bool" where
  "log_inv w0 s \<longleftrightarrow>
     cw_cmdSN (ws_win s) = cw_cmdSN w0 + of_nat (length (ws_log s)) \<and>
     (\<forall>i < length (ws_log s). fst (snd (ws_log s ! i)) = cw_cmdSN w0 + of_nat i) \<and>
     (\<forall>(t, sn, w) \<in> set (ws_log s). windowOpen w \<and> \<not> cw_closed w \<and> sn = cw_cmdSN w)"

definition owner_inv :: "WindowSys \<Rightarrow> bool" where
  "owner_inv s \<longleftrightarrow>
     (\<forall>t sn w. ws_waiter s t = Ended (Granted sn w) \<longrightarrow> (t, sn) \<in> set (map (\<lambda>(t, sn, _). (t, sn)) (ws_log s))) \<and>
     (\<forall>t sn. ws_caller s t = ReturnedSN sn \<longrightarrow> (t, sn) \<in> set (map (\<lambda>(t, sn, _). (t, sn)) (ws_log s))) \<and>
     (\<forall>t \<in> set (map fst (ws_log s)). \<exists>r. ws_waiter s t = Ended r) \<and>
     distinct (map fst (ws_log s))"

lemma check_results:
  "acquireFast w = Granted sn w' \<Longrightarrow> windowOpen w \<and> \<not> cw_closed w \<and> sn = cw_cmdSN w \<and> w' = w\<lparr>cw_cmdSN := cw_cmdSN w + 1\<rparr>"
  "waiterCheck d w = Granted sn w' \<Longrightarrow> windowOpen w \<and> \<not> cw_closed w \<and> sn = cw_cmdSN w \<and> w' = w\<lparr>cw_cmdSN := cw_cmdSN w + 1\<rparr>"
  "waiterCheck d w = MustWait \<Longrightarrow> \<not> windowOpen w \<and> \<not> cw_closed w"
  by (auto simp: acquireFast_def waiterCheck_def takeSN_def Let_def Incr_def split: if_splits)

lemma afterCheck_simps [simp]:
  "ws_lock (afterCheck t r s) = None" "ws_waiter (afterCheck t r s) = (ws_waiter s)(t := Ended r)"
  "ws_caller (afterCheck t r s) = ws_caller s" "ws_done (afterCheck t r s) = ws_done s"
  by (auto simp: afterCheck_def Let_def split: AcquireStep.split)

lemma afterCheck_win:
  "ws_win (afterCheck t r s) = (case r of Granted sn w \<Rightarrow> w | _ \<Rightarrow> ws_win s)"
  "ws_log (afterCheck t r s) = (case r of Granted sn w \<Rightarrow> ws_log s @ [(t, sn, ws_win s)] | _ \<Rightarrow> ws_log s)"
  by (auto simp: afterCheck_def Let_def split: AcquireStep.split)

lemma broadcast_iff [simp]:
  "broadcast f t = AtCheck \<longleftrightarrow> f t = AtCheck" "broadcast f t = Waiting \<longleftrightarrow> f t = Waiting"
  "broadcast f t = Ended r \<longleftrightarrow> f t = Ended r" "broadcast f t \<noteq> Parked"
  by (auto simp: broadcast_def)

lemma lock_owner: "lock_inv s \<Longrightarrow> ws_waiter s t \<in> {AtCheck, Waiting} \<Longrightarrow> ws_lock s = Some t"
  by (auto simp: lock_inv_def)

lemma lock_one: "lock_inv s \<Longrightarrow> ws_waiter s t \<in> {AtCheck, Waiting} \<Longrightarrow> ws_waiter s u \<in> {AtCheck, Waiting} \<Longrightarrow> t = u"
  by (metis lock_owner option.inject)

lemma lock_inv_step: "window_step s s' \<Longrightarrow> lock_inv s \<Longrightarrow> lock_inv s'"
proof (induction rule: window_step.induct)
qed (auto simp: lock_inv_def split: if_splits, (metis option.inject)+)

lemma parked_inv_step: "window_step s s' \<Longrightarrow> lock_inv s \<Longrightarrow> parked_inv s \<Longrightarrow> parked_inv s'"
proof (induction rule: window_step.induct)
  case (wst_fast s t r)
  then show ?case
    using check_results(1) [of "ws_win s"]
    by (cases r) (auto simp: parked_inv_def afterCheck_win)
next
  case (wst_check s t r)
  then show ?case
    using check_results(2) [of "ws_done s t" "ws_win s"]
    by (cases r) (auto simp: parked_inv_def afterCheck_win)
next
  case (wst_wait s t)
  then show ?case using check_results(3) [of "ws_done s t" "ws_win s"] by (auto simp: parked_inv_def)
next
  case (wst_update s e m w b)
  have "ws_waiter s t \<noteq> Waiting" for t
    using wst_update.hyps(1) wst_update.prems(1) lock_owner [of s t] by auto
  then show ?case
    using wst_update updateWindow_quiet [of e m "ws_win s"] by (auto simp: parked_inv_def)
next
  case (wst_close s)
  have "ws_waiter s t \<noteq> Waiting" for t
    using wst_close.hyps(1) wst_close.prems(1) lock_owner [of s t] by auto
  then show ?case by (auto simp: parked_inv_def)
qed (auto simp: parked_inv_def split: if_splits)

lemma log_inv_grow:
  assumes "log_inv w0 s" "windowOpen (ws_win s)" "\<not> cw_closed (ws_win s)"
  shows "log_inv w0 (s\<lparr>ws_win := (ws_win s)\<lparr>cw_cmdSN := cw_cmdSN (ws_win s) + 1\<rparr>,
     ws_log := ws_log s @ [(t, cw_cmdSN (ws_win s), ws_win s)]\<rparr>)"
  using assms by (auto simp: log_inv_def nth_append less_Suc_eq)

lemma log_inv_cong:
  "cw_cmdSN (ws_win s') = cw_cmdSN (ws_win s) \<Longrightarrow> ws_log s' = ws_log s \<Longrightarrow> log_inv w0 s' = log_inv w0 s"
  by (simp add: log_inv_def)

lemma log_inv_check:
  assumes "log_inv w0 s" "\<And>sn w. r = Granted sn w \<Longrightarrow> windowOpen (ws_win s) \<and> \<not> cw_closed (ws_win s)
    \<and> sn = cw_cmdSN (ws_win s) \<and> w = (ws_win s)\<lparr>cw_cmdSN := cw_cmdSN (ws_win s) + 1\<rparr>"
  shows "log_inv w0 (afterCheck t r s)"
  using assms log_inv_grow [OF assms(1), of t]
  by (cases r) (auto simp: log_inv_def afterCheck_win)

lemma log_inv_step: "window_step s s' \<Longrightarrow> log_inv w0 s \<Longrightarrow> log_inv w0 s'"
proof (induction rule: window_step.induct)
  case (wst_fast s t r)
  then have "log_inv w0 (afterCheck t r s)" using log_inv_check check_results(1) by blast
  then show ?case by (simp add: log_inv_def)
next
  case (wst_check s t r)
  then show ?case using log_inv_check check_results(2) by blast
next
  case (wst_update s e m w b)
  then show ?case using updateWindow_keeps(1) [of e m "ws_win s"] by (simp add: log_inv_def)
qed (simp_all add: log_inv_def closeWindow_def)

lemma owner_inv_step: "window_step s s' \<Longrightarrow> owner_inv s \<Longrightarrow> owner_inv s'"
proof (induction rule: window_step.induct)
  case (wst_fast s t r)
  then have "t \<notin> fst ` set (ws_log s)" by (auto simp: owner_inv_def)
  then show ?case using wst_fast
    by (cases r) (auto simp: owner_inv_def afterCheck_win returned_def)
next
  case (wst_check s t r)
  then have "t \<notin> fst ` set (ws_log s)" by (auto simp: owner_inv_def)
  then show ?case using wst_check by (cases r) (auto simp: owner_inv_def afterCheck_win)
qed (auto simp: owner_inv_def returned_def split: AcquireStep.splits if_splits)

lemma window_reachable_inv:
  "window_reachable w0 s \<Longrightarrow> lock_inv s \<and> parked_inv s \<and> log_inv w0 s \<and> owner_inv s"
proof (induction rule: window_reachable.induct)
  case wr_init
  then show ?case by (simp add: lock_inv_def parked_inv_def log_inv_def owner_inv_def initSys_def)
next
  case (wr_step s s')
  then show ?case
    using lock_inv_step parked_inv_step log_inv_step owner_inv_step by blast
qed

section \<open>What cancellation can lose\<close>

definition zeroWindow :: cmdWindow where
  "zeroWindow = newCmdWindow 1 1 0"

lemma window_eval:
  "acquireFast zeroWindow = MustWait" "waiterCheck False zeroWindow = MustWait"
  "updateWindow 1 1 zeroWindow = (newCmdWindow 1 1 1, True)"
  "waiterCheck False (newCmdWindow 1 1 1) = Granted 1 (newCmdWindow 2 1 1)"
  by (simp_all add: zeroWindow_def newCmdWindow_def acquireFast_def waiterCheck_def windowOpen_def LessThan_def
      InWindow_def GreaterThan_def updateWindow_def takeSN_def Incr_def Let_def)

text \<open>The system with one active caller, in the given state.\<close>

definition solo :: "cmdWindow \<Rightarrow> nat option \<Rightarrow> WaiterPc \<Rightarrow> CallerPc \<Rightarrow> bool \<Rightarrow> (nat \<times> u32 \<times> cmdWindow) list \<Rightarrow> WindowSys" where
  "solo w l p c d log = \<lparr>ws_win = w, ws_lock = l, ws_waiter = (\<lambda>t. if t = 0 then p else NotCalled),
     ws_caller = (\<lambda>t. if t = 0 then c else Calling), ws_done = (\<lambda>t. if t = 0 then d else False), ws_log = log\<rparr>"

lemma solo_sel [simp]:
  "ws_win (solo w l p c d log) = w" "ws_lock (solo w l p c d log) = l" "ws_waiter (solo w l p c d log) 0 = p"
  "ws_caller (solo w l p c d log) 0 = c" "ws_done (solo w l p c d log) 0 = d"
  by (simp_all add: solo_def)

lemma solo_upd:
  "(solo w l p c d log)\<lparr>ws_win := w'\<rparr> = solo w' l p c d log"
  "(solo w l p c d log)\<lparr>ws_lock := l'\<rparr> = solo w l' p c d log"
  "(solo w l p c d log)\<lparr>ws_waiter := (ws_waiter (solo w1 l1 p1 c1 d1 log1))(0 := p')\<rparr> = solo w l p' c d log"
  "(solo w l p c d log)\<lparr>ws_caller := (ws_caller (solo w1 l1 p1 c1 d1 log1))(0 := c')\<rparr> = solo w l p c' d log"
  "(solo w l p c d log)\<lparr>ws_done := (ws_done (solo w1 l1 p1 c1 d1 log1))(0 := d')\<rparr> = solo w l p c d' log"
  "(solo w l p c d log)\<lparr>ws_waiter := broadcast (ws_waiter (solo w1 l1 p1 c1 d1 log1))\<rparr>
     = solo w l (if p1 = Parked then Woken else p1) c d log"
  by (auto simp: solo_def broadcast_def fun_eq_iff)

lemma solo_steps:
  "window_reachable w0 (solo w None NotCalled c d log) \<Longrightarrow> acquireFast w = MustWait \<Longrightarrow>
     window_reachable w0 (solo w (Some 0) AtCheck c d log)"
  "window_reachable w0 (solo w (Some 0) AtCheck c d log) \<Longrightarrow> waiterCheck d w = MustWait \<Longrightarrow>
     window_reachable w0 (solo w (Some 0) Waiting c d log)"
  "window_reachable w0 (solo w l Waiting c d log) \<Longrightarrow> window_reachable w0 (solo w None Parked c d log)"
  "window_reachable w0 (solo w None Woken c d log) \<Longrightarrow> window_reachable w0 (solo w (Some 0) AtCheck c d log)"
  "window_reachable w0 (solo w (Some 0) AtCheck c d log) \<Longrightarrow> waiterCheck d w = Granted sn w' \<Longrightarrow>
     window_reachable w0 (solo w' None (Ended (Granted sn w')) c d (log @ [(0, sn, w)]))"
  "window_reachable w0 (solo w l p Calling d log) \<Longrightarrow> p \<noteq> NotCalled \<Longrightarrow>
     window_reachable w0 (solo w l p Signalled True log)"
  "window_reachable w0 (solo w l p Signalled d log) \<Longrightarrow>
     window_reachable w0 (solo w l (if p = Parked then Woken else p) Draining d log)"
  "window_reachable w0 (solo w l (Ended r) Draining d log) \<Longrightarrow>
     window_reachable w0 (solo w l (Ended r) ReturnedErr d log)"
  "window_reachable w0 (solo w None p c d log) \<Longrightarrow> updateWindow e m w = (w', True) \<Longrightarrow>
     window_reachable w0 (solo w' None (if p = Parked then Woken else p) c d log)"
  subgoal using wr_step [OF _ wst_slow [where t = 0]] by (fastforce simp: solo_upd)
  subgoal using wr_step [OF _ wst_wait [where t = 0]] by (fastforce simp: solo_upd)
  subgoal using wr_step [OF _ wst_park [where t = 0]] by (fastforce simp: solo_upd)
  subgoal using wr_step [OF _ wst_relock [where t = 0]] by (fastforce simp: solo_upd)
  subgoal using wr_step [OF _ wst_check [of "solo w (Some 0) AtCheck c d log" 0 "Granted sn w'"]] by (simp add: afterCheck_def solo_def fun_upd_def if_distrib cong: if_cong)
  subgoal using wr_step [OF _ wst_cancel [where t = 0]] by (fastforce simp: solo_upd)
  subgoal using wr_step [OF _ wst_broadcast [where t = 0]] by (fastforce simp: solo_upd)
  subgoal using wr_step [OF _ wst_drain [where t = 0]] by (fastforce simp: solo_upd)
  subgoal using wr_step [OF _ wst_update [of "solo w None p c d log" e m w' True]] by (simp add: solo_upd)
  done

lemma reach_waiting: "window_reachable zeroWindow (solo zeroWindow (Some 0) Waiting Calling False [])"
proof -
  have "initSys zeroWindow = solo zeroWindow None NotCalled Calling False []"
    by (auto simp: initSys_def solo_def)
  then have "window_reachable zeroWindow (solo zeroWindow None NotCalled Calling False [])"
    using wr_init [of zeroWindow] by simp
  then show ?thesis by (intro solo_steps(1,2) window_eval)
qed

definition cancelledParked :: WindowSys where
  "cancelledParked = solo zeroWindow None Parked Draining True []"

lemma cancelledParked_reachable: "window_reachable zeroWindow cancelledParked"
  unfolding cancelledParked_def
  using solo_steps(3) [OF solo_steps(7) [OF solo_steps(6) [OF reach_waiting], simplified]] by simp

lemma updateWindow_changes: "updateWindow e m w = (w', True) \<Longrightarrow> w' \<noteq> w"
  by (cases w) (auto simp: updateWindow_def GreaterThan_def Let_def split: if_splits)

lemma cancelledParked_stays:
  "window_step s s' \<Longrightarrow> ws_waiter s 0 = Parked \<Longrightarrow> ws_caller s 0 = Draining \<Longrightarrow> \<not> cw_closed (ws_win s) \<Longrightarrow>
   (\<forall>u. ws_caller s u \<noteq> Signalled) \<Longrightarrow> ws_win s' = ws_win s \<Longrightarrow>
   ws_waiter s' 0 = Parked \<and> ws_caller s' 0 = Draining"
proof (induction rule: window_step.induct)
  case (wst_update s e m w b)
  then show ?case using updateWindow_changes [of e m "ws_win s" w] by auto
next
  case (wst_close s)
  have "cw_closed (closeWindow (ws_win s))" by (simp add: closeWindow_def)
  then show ?case using wst_close.prems by auto
qed (auto intro!: gr0I)

text \<open>
  A waiter that is cancelled between its check and \<open>cond.Wait\<close> misses the broadcast, because
  \<open>acquire\<close> broadcasts without the mutex: the caller stays blocked in the drain until the window
  is next updated or closed.
\<close>

theorem cancelled_acquire_can_block:
  "window_reachable zeroWindow cancelledParked \<and> ws_caller cancelledParked 0 = Draining \<and>
   (\<forall>s'. window_step cancelledParked s' \<longrightarrow> ws_win s' = ws_win cancelledParked \<longrightarrow>
      ws_waiter s' 0 = Parked \<and> ws_caller s' 0 = Draining)"
  using cancelledParked_reachable cancelledParked_stays [of cancelledParked]
  by (auto simp: cancelledParked_def solo_def zeroWindow_def newCmdWindow_def)

text \<open>
  The waiter may be granted a number just before the caller's context ends: \<open>acquire\<close> then returns
  the context's error, and the number is used up although no command will carry it.
\<close>

theorem cancelled_acquire_can_lose_cmdsn:
  "\<exists>s. window_reachable zeroWindow s \<and> cw_cmdSN (ws_win s) = cw_cmdSN zeroWindow + 1
    \<and> ws_caller s 0 = ReturnedErr \<and> (\<forall>t sn. ws_caller s t \<noteq> ReturnedSN sn)"
proof -
  let ?g = "Granted 1 (newCmdWindow 2 1 1)"
  have "window_reachable zeroWindow (solo (newCmdWindow 1 1 1) None Woken Calling False [])"
    using solo_steps(9) [OF solo_steps(3) [OF reach_waiting] window_eval(3)] by simp
  from solo_steps(5) [OF solo_steps(4) [OF this] window_eval(4)]
  have "window_reachable zeroWindow (solo (newCmdWindow 2 1 1) None (Ended ?g) Calling False [(0, 1, newCmdWindow 1 1 1)])"
    by simp
  from solo_steps(8) [OF solo_steps(7) [OF solo_steps(6) [OF this], simplified]]
  have "window_reachable zeroWindow (solo (newCmdWindow 2 1 1) None (Ended ?g) ReturnedErr True [(0, 1, newCmdWindow 1 1 1)])"
    by simp
  then show ?thesis
    by (intro exI conjI, assumption) (simp_all add: solo_def newCmdWindow_def zeroWindow_def)
qed

section \<open>Properties\<close>

text \<open>C10. Every grant of \<open>acquire\<close>, under every interleaving of callers, cancellations, window updates
  and shutdown, is inside the window the target announced at that moment, and the granted numbers
  are consecutive from the initial CmdSN in the order of the grants.\<close>

theorem granted_cmdsn_in_window:
  assumes "window_reachable w0 s" "ws_log s = pre @ (t, sn, w) # post"
  shows "sn = cw_cmdSN w0 + of_nat (length pre) \<and>
    dist32 (cw_expCmdSN w) sn \<le> dist32 (cw_expCmdSN w) (cw_maxCmdSN w) \<and>
    dist32 (cw_expCmdSN w) (cw_maxCmdSN w) < 2 ^ 31 \<and> \<not> cw_closed w"
proof -
  have l: "log_inv w0 s" using window_reachable_inv [OF assms(1)] by simp
  then have all: "\<forall>i < length (ws_log s). fst (snd (ws_log s ! i)) = cw_cmdSN w0 + of_nat i"
    by (simp add: log_inv_def)
  have "fst (snd (ws_log s ! length pre)) = cw_cmdSN w0 + of_nat (length pre)"
    by (rule all [rule_format]) (simp add: assms(2))
  moreover have "windowOpen w \<and> \<not> cw_closed w \<and> sn = cw_cmdSN w"
    using l by (simp add: log_inv_def assms(2))
  ultimately show ?thesis using windowOpen_dist [of w] assms(2) by simp
qed

lemma returned_logged:
  "owner_inv s \<Longrightarrow> ws_caller s t = ReturnedSN a \<Longrightarrow> \<exists>i v. i < length (ws_log s) \<and> ws_log s ! i = (t, a, v)"
proof -
  assume "owner_inv s" "ws_caller s t = ReturnedSN a"
  then have "(t, a) \<in> set (map (\<lambda>(t, sn, _). (t, sn)) (ws_log s))" by (simp add: owner_inv_def)
  then obtain v where "(t, a, v) \<in> set (ws_log s)" by auto
  then show ?thesis by (auto simp: in_set_conv_nth)
qed

text \<open>C24. Two callers of \<open>acquire\<close> are never given the same CmdSN, within \<open>2 ^ 32\<close> grants.\<close>

theorem returned_cmdsn_distinct:
  assumes "window_reachable w0 s" "length (ws_log s) \<le> 2 ^ 32"
    "ws_caller s t = ReturnedSN a" "ws_caller s u = ReturnedSN b" "t \<noteq> u"
  shows "a \<noteq> b"
proof -
  have l: "log_inv w0 s" and o: "owner_inv s" using window_reachable_inv [OF assms(1)] by simp_all
  obtain i j v w where i: "i < length (ws_log s)" "ws_log s ! i = (t, a, v)"
    and j: "j < length (ws_log s)" "ws_log s ! j = (u, b, w)"
    using returned_logged [OF o assms(3)] returned_logged [OF o assms(4)] by blast
  have "a = cw_cmdSN w0 + of_nat i" "b = cw_cmdSN w0 + of_nat j"
    using l i j unfolding log_inv_def by force+
  moreover have "unat (of_nat i :: u32) = i" "unat (of_nat j :: u32) = j"
    using i(1) j(1) assms(2) by (simp_all add: unat_of_nat_u32)
  moreover have "i \<noteq> j" using i(2) j(2) assms(5) by auto
  ultimately show ?thesis by (metis add_left_imp_eq)
qed

text \<open>C25. No window update is missed: in every reachable state a waiter that is parked on the condition
  variable faces a window that is not open and not closed for good, so every update that opens the
  window and every shutdown has woken it.\<close>

theorem parked_waiter_has_nothing_to_do:
  assumes "window_reachable w0 s" "ws_waiter s t = Parked"
  shows "\<not> windowOpen (ws_win s) \<and> \<not> cw_closed (ws_win s)"
  using window_reachable_inv [OF assms(1)] assms(2) by (auto simp: parked_inv_def)

text \<open>\<open>update\<close> ignores a pair with \<open>MaxCmdSN\<close> below \<open>ExpCmdSN - 1\<close>; otherwise it takes the target's
  \<open>MaxCmdSN\<close> and never moves \<open>ExpCmdSN\<close> backwards, and it broadcasts exactly when a field changes.\<close>

lemma window_update:
  "updateWindow e m w =
     (if LessThan m (e - 1) then (w, False)
      else let w' = w\<lparr>cw_expCmdSN := if GreaterThan e (cw_expCmdSN w) then e else cw_expCmdSN w, cw_maxCmdSN := m\<rparr>
           in (w', w' \<noteq> w)) \<and>
   (cw_expCmdSN (fst (updateWindow e m w)) = cw_expCmdSN w
    \<or> 0 < dist32 (cw_expCmdSN w) (cw_expCmdSN (fst (updateWindow e m w)))
      \<and> dist32 (cw_expCmdSN w) (cw_expCmdSN (fst (updateWindow e m w))) < 2 ^ 31)"
proof
  have g: "GreaterThan e (cw_expCmdSN w) \<Longrightarrow> e \<noteq> cw_expCmdSN w" by (auto simp: GreaterThan_def)
  show "updateWindow e m w =
     (if LessThan m (e - 1) then (w, False)
      else let w' = w\<lparr>cw_expCmdSN := if GreaterThan e (cw_expCmdSN w) then e else cw_expCmdSN w, cw_maxCmdSN := m\<rparr>
           in (w', w' \<noteq> w))"
    using g by (cases w) (auto simp: updateWindow_def Let_def)
  show "cw_expCmdSN (fst (updateWindow e m w)) = cw_expCmdSN w
    \<or> 0 < dist32 (cw_expCmdSN w) (cw_expCmdSN (fst (updateWindow e m w)))
      \<and> dist32 (cw_expCmdSN w) (cw_expCmdSN (fst (updateWindow e m w))) < 2 ^ 31"
    using updateWindow_exp [of e m w] by (simp add: GreaterThan_dist del: dist32_pos)
qed

lemma reach_granted:
  "window_reachable zeroWindow (solo (newCmdWindow 2 1 1) None (Ended (Granted 1 (newCmdWindow 2 1 1))) Calling False
     [(0, 1, newCmdWindow 1 1 1)])"
proof -
  have "window_reachable zeroWindow (solo (newCmdWindow 1 1 1) None Woken Calling False [])"
    using solo_steps(9) [OF solo_steps(3) [OF reach_waiting] window_eval(3)] by simp
  from solo_steps(5) [OF solo_steps(4) [OF this] window_eval(4)] show ?thesis by simp
qed

theorem granted_cmdsn_in_window_witness:
  "window_reachable zeroWindow (solo (newCmdWindow 2 1 1) None (Ended (Granted 1 (newCmdWindow 2 1 1))) Calling False
     [(0, 1, newCmdWindow 1 1 1)]) \<and> (1::u32) = cw_cmdSN zeroWindow"
  using reach_granted granted_cmdsn_in_window [OF reach_granted, of "[]" 0 1 "newCmdWindow 1 1 1" "[]"]
  by (simp add: solo_def)

theorem parked_waiter_has_nothing_to_do_witness:
  "window_reachable zeroWindow cancelledParked \<and> \<not> windowOpen (ws_win cancelledParked)"
  using cancelledParked_reachable parked_waiter_has_nothing_to_do [OF cancelledParked_reachable, of 0]
  by (simp add: cancelledParked_def)

lemma reach_two_returned:
  "\<exists>s. window_reachable (newCmdWindow 1 1 2) s \<and> ws_caller s 0 = ReturnedSN 1 \<and> ws_caller s 1 = ReturnedSN 2
    \<and> length (ws_log s) = 2"
proof -
  let ?s0 = "initSys (newCmdWindow 1 1 2)"
  define s1 where "s1 = (afterCheck 0 (Granted 1 (newCmdWindow 2 1 2)) ?s0)
    \<lparr>ws_caller := (ws_caller ?s0)(0 := returned (Granted 1 (newCmdWindow 2 1 2)))\<rparr>"
  define s2 where "s2 = (afterCheck 1 (Granted 2 (newCmdWindow 3 1 2)) s1)
    \<lparr>ws_caller := (ws_caller s1)(1 := returned (Granted 2 (newCmdWindow 3 1 2)))\<rparr>"
  have e: "acquireFast (newCmdWindow 1 1 2) = Granted 1 (newCmdWindow 2 1 2)"
    "acquireFast (newCmdWindow 2 1 2) = Granted 2 (newCmdWindow 3 1 2)"
    by (simp_all add: newCmdWindow_def acquireFast_def windowOpen_def LessThan_def
      InWindow_def GreaterThan_def takeSN_def Incr_def Let_def)
  have r1: "window_reachable (newCmdWindow 1 1 2) s1"
    unfolding s1_def by (rule wr_step [OF wr_init], rule wst_fast) (simp_all add: initSys_def e)
  have w1: "ws_win s1 = newCmdWindow 2 1 2" "ws_waiter s1 (Suc 0) = NotCalled" "ws_lock s1 = None" "length (ws_log s1) = 1"
    "ws_caller s1 0 = ReturnedSN 1"
    by (simp_all add: s1_def afterCheck_win initSys_def returned_def)
  have r2: "window_reachable (newCmdWindow 1 1 2) s2"
    unfolding s2_def by (rule wr_step [OF r1], rule wst_fast) (simp_all add: w1 e)
  show ?thesis
    by (rule exI [where x = s2]) (use r2 in \<open>simp add: s2_def afterCheck_win w1 returned_def\<close>)
qed

theorem returned_cmdsn_distinct_witness:
  "\<exists>s. window_reachable (newCmdWindow 1 1 2) s \<and> ws_caller s 0 = ReturnedSN 1 \<and> ws_caller s 1 = ReturnedSN 2 \<and> (1::u32) \<noteq> 2"
proof -
  obtain s where s: "window_reachable (newCmdWindow 1 1 2) s" "ws_caller s 0 = ReturnedSN 1" "ws_caller s 1 = ReturnedSN 2"
    "length (ws_log s) = 2" using reach_two_returned by blast
  then show ?thesis using returned_cmdsn_distinct [OF s(1) _ s(2,3)] by auto
qed

theorem window_update_witness:
  "updateWindow 5 3 (newCmdWindow 1 1 1) = (newCmdWindow 1 1 1, False) \<and>
   updateWindow 5 9 (newCmdWindow 1 1 1) = (newCmdWindow 1 5 9, True)"
  using window_update [of 5 3 "newCmdWindow 1 1 1"] window_update [of 5 9 "newCmdWindow 1 1 1"]
  by (simp add: newCmdWindow_def LessThan_def GreaterThan_def)

end
