(* ===== verification/Text_KV.thy ===== *)
theory Text_KV
  imports Go_Text
begin

text \<open>
  \<open>internal/login/textcodec.go\<close>: the text format of login, text and discovery PDUs, with
  \<open>kvToMap\<close> of \<open>login.go\<close>.

  A map is represented by the function that looks a key up; a nil slice is the empty list. The
  lemmas give the round trip for keys without \<open>=\<close> and texts without the NUL delimiter, as an
  interpretation of the locale \<open>text_codec\<close>.
\<close>

record KeyValue =
  kv_Key :: string
  kv_Value :: string

abbreviation KV :: "string \<Rightarrow> string \<Rightarrow> KeyValue" where
  "KV k v \<equiv> \<lparr>kv_Key = k, kv_Value = v\<rparr>"

abbreviation NUL :: u8 where "NUL \<equiv> 0"

fun EncodeTextKV :: "KeyValue list \<Rightarrow> bytes" where
  "EncodeTextKV [] = []"
| "EncodeTextKV (p # ps) =
     bytes_of (kv_Key p) @ [byte_of (CHR ''='')] @ bytes_of (kv_Value p) @ [NUL] @ EncodeTextKV ps"

definition decodeSegment :: "bytes \<Rightarrow> KeyValue" where
  "decodeSegment seg = (let (key, value, _) = cutOn (CHR ''='') (string_of seg) in KV key value)"

definition DecodeTextKV :: "bytes \<Rightarrow> KeyValue list" where
  "DecodeTextKV data =
     (if length data = 0 then []
      else map decodeSegment (filter (\<lambda>seg. length seg \<noteq> 0) (splitOn NUL data)))"

definition kvToMap :: "KeyValue list \<Rightarrow> string \<rightharpoonup> string" where
  "kvToMap pairs = foldl (\<lambda>m p. m(kv_Key p \<mapsto> kv_Value p)) Map.empty pairs"

definition wf_KV :: "KeyValue \<Rightarrow> bool" where
  "wf_KV p \<longleftrightarrow> CHR ''='' \<notin> set (kv_Key p) \<and> NUL \<notin> set (bytes_of (kv_Key p)) \<and> NUL \<notin> set (bytes_of (kv_Value p))"

locale text_codec =
  fixes enc :: "'p list \<Rightarrow> bytes" and dec :: "bytes \<Rightarrow> 'p list" and wf :: "'p \<Rightarrow> bool"
  assumes dec_enc: "list_all wf ps \<Longrightarrow> dec (enc ps) = ps"
    and enc_append: "enc (ps @ qs) = enc ps @ enc qs"
begin

lemma dec_enc_append: "list_all wf ps \<Longrightarrow> list_all wf qs \<Longrightarrow> dec (enc ps @ enc qs) = ps @ qs"
  by (simp add: dec_enc flip: enc_append)

lemma enc_inj: "list_all wf ps \<Longrightarrow> list_all wf qs \<Longrightarrow> enc ps = enc qs \<Longrightarrow> ps = qs"
  using dec_enc by metis

end

lemma decodeSegment_pair:
  "CHR ''='' \<notin> set (kv_Key p) \<Longrightarrow>
   decodeSegment (bytes_of (kv_Key p) @ byte_of (CHR ''='') # bytes_of (kv_Value p)) = p"
  by (simp add: decodeSegment_def string_of_def bytes_of_def o_def cutOn_sep)

lemma splitOn_EncodeTextKV:
  "list_all wf_KV ps \<Longrightarrow> map decodeSegment (filter (\<lambda>seg. length seg \<noteq> 0) (splitOn NUL (EncodeTextKV ps))) = ps"
proof (induction ps)
  case (Cons p ps)
  let ?seg = "bytes_of (kv_Key p) @ byte_of (CHR ''='') # bytes_of (kv_Value p)"
  have nz: "byte_of (CHR ''='') \<noteq> NUL" by (simp add: byte_of_def)
  then have "NUL \<notin> set ?seg" using Cons.prems by (auto simp: wf_KV_def)
  then have "splitOn NUL (EncodeTextKV (p # ps)) = ?seg # splitOn NUL (EncodeTextKV ps)"
    using splitOn_append [of NUL ?seg "EncodeTextKV ps"] by simp
  then show ?case using Cons by (simp add: decodeSegment_pair wf_KV_def)
qed simp

lemma DecodeTextKV_EncodeTextKV: "list_all wf_KV ps \<Longrightarrow> DecodeTextKV (EncodeTextKV ps) = ps"
  using splitOn_EncodeTextKV [of ps] by (cases ps) (simp_all add: DecodeTextKV_def)

interpretation kv: text_codec EncodeTextKV DecodeTextKV wf_KV
proof unfold_locales
  show "EncodeTextKV (ps @ qs) = EncodeTextKV ps @ EncodeTextKV qs" for ps qs
    by (induction ps) auto
qed (rule DecodeTextKV_EncodeTextKV)

lemma kvToMap_rev: "kvToMap ps = map_of (rev (map (\<lambda>p. (kv_Key p, kv_Value p)) ps))"
  by (induction ps rule: rev_induct) (simp_all add: kvToMap_def)

lemma kvToMap_append: "kvToMap (ps @ qs) = kvToMap ps ++ kvToMap qs"
  by (simp add: kvToMap_rev)

lemma kvToMap_simps: "kvToMap [] = Map.empty" "kvToMap (p # ps) = [kv_Key p \<mapsto> kv_Value p] ++ kvToMap ps"
  using kvToMap_append [of "[p]" ps] by (simp_all add: kvToMap_rev)

section \<open>Properties\<close>

text \<open>C35. The text format is lossless: whatever list of pairs with \<open>=\<close>-free keys and NUL-free texts two
  peers send one after the other in data segments, decoding the joined bytes gives all pairs in
  order, with empty values and \<open>=\<close> inside values kept.\<close>

theorem text_kv_roundtrip:
  assumes "list_all wf_KV ps" "list_all wf_KV qs"
  shows "DecodeTextKV (EncodeTextKV ps @ EncodeTextKV qs) = ps @ qs"
  by (rule kv.dec_enc_append [OF assms])

theorem text_kv_roundtrip_witness:
  "DecodeTextKV (EncodeTextKV [KV ''SessionType'' ''Normal''] @ EncodeTextKV [KV ''X'' '''', KV ''Y'' ''a=b''])
     = [KV ''SessionType'' ''Normal'', KV ''X'' '''', KV ''Y'' ''a=b'']"
  using text_kv_roundtrip [of "[KV ''SessionType'' ''Normal'']" "[KV ''X'' '''', KV ''Y'' ''a=b'']"]
  by (simp add: wf_KV_def bytes_of_def byte_of_def)

end
