(* ===== verification/Md5.thy ===== *)
theory Md5
  imports ISCSI_Prelude
begin

text \<open>
  The hash \<open>crypto/md5\<close> that CHAP uses (RFC 1321): 512-bit blocks of little-endian 32-bit words, 64
  steps per block, padding with a one bit, zeros and the 64-bit message length.

  The digest always has 16 bytes; that is all the CHAP lemmas need of it. The test vector at the
  end pins the definition to the standard's.
\<close>

definition md5K :: "u32 list" where
  "md5K =
    [0xd76aa478, 0xe8c7b756, 0x242070db, 0xc1bdceee,
     0xf57c0faf, 0x4787c62a, 0xa8304613, 0xfd469501,
     0x698098d8, 0x8b44f7af, 0xffff5bb1, 0x895cd7be,
     0x6b901122, 0xfd987193, 0xa679438e, 0x49b40821,
     0xf61e2562, 0xc040b340, 0x265e5a51, 0xe9b6c7aa,
     0xd62f105d, 0x02441453, 0xd8a1e681, 0xe7d3fbc8,
     0x21e1cde6, 0xc33707d6, 0xf4d50d87, 0x455a14ed,
     0xa9e3e905, 0xfcefa3f8, 0x676f02d9, 0x8d2a4c8a,
     0xfffa3942, 0x8771f681, 0x6d9d6122, 0xfde5380c,
     0xa4beea44, 0x4bdecfa9, 0xf6bb4b60, 0xbebfbc70,
     0x289b7ec6, 0xeaa127fa, 0xd4ef3085, 0x04881d05,
     0xd9d4d039, 0xe6db99e5, 0x1fa27cf8, 0xc4ac5665,
     0xf4292244, 0x432aff97, 0xab9423a7, 0xfc93a039,
     0x655b59c3, 0x8f0ccc92, 0xffeff47d, 0x85845dd1,
     0x6fa87e4f, 0xfe2ce6e0, 0xa3014314, 0x4e0811a1,
     0xf7537e82, 0xbd3af235, 0x2ad7d2bb, 0xeb86d391]"

definition md5Shift :: "nat \<Rightarrow> nat" where
  "md5Shift i =
     (if i < 16 then [7, 12, 17, 22] ! (i mod 4)
      else if i < 32 then [5, 9, 14, 20] ! (i mod 4)
      else if i < 48 then [4, 11, 16, 23] ! (i mod 4)
      else [6, 10, 15, 21] ! (i mod 4))"

definition rotl32 :: "nat \<Rightarrow> u32 \<Rightarrow> u32" where
  "rotl32 n x = push_bit n x OR drop_bit (32 - n) x"

definition md5Step :: "u32 list \<Rightarrow> u32 \<times> u32 \<times> u32 \<times> u32 \<Rightarrow> nat \<Rightarrow> u32 \<times> u32 \<times> u32 \<times> u32" where
  "md5Step M = (\<lambda>(a, b, c, d) i.
     let (f, g) =
           (if i < 16 then ((b AND c) OR (NOT b AND d), i)
            else if i < 32 then ((d AND b) OR (NOT d AND c), (5 * i + 1) mod 16)
            else if i < 48 then (b XOR c XOR d, (3 * i + 5) mod 16)
            else (c XOR (b OR NOT d), (7 * i) mod 16));
         f = f + a + md5K ! i + M ! g
     in (d, b + rotl32 (md5Shift i) f, b, c))"

definition md5Block :: "u32 \<times> u32 \<times> u32 \<times> u32 \<Rightarrow> bytes \<Rightarrow> u32 \<times> u32 \<times> u32 \<times> u32" where
  "md5Block s block =
     (let M = map (\<lambda>i. LEUint32 (slice block (4 * i) (4 * i + 4))) [0 ..< 16];
          (a0, b0, c0, d0) = s;
          (a, b, c, d) = foldl (md5Step M) s [0 ..< 64]
      in (a0 + a, b0 + b, c0 + c, d0 + d))"

fun md5Blocks :: "nat \<Rightarrow> u32 \<times> u32 \<times> u32 \<times> u32 \<Rightarrow> bytes \<Rightarrow> u32 \<times> u32 \<times> u32 \<times> u32" where
  "md5Blocks 0 s m = s"
| "md5Blocks (Suc n) s m = md5Blocks n (md5Block s (take 64 m)) (drop 64 m)"

definition md5Pad :: "bytes \<Rightarrow> bytes" where
  "md5Pad m =
     (let n = length m; bits = of_nat (8 * n) :: u64
      in m @ [0x80] @ replicate ((119 - n mod 64) mod 64) 0
           @ le32 (ucast bits) @ le32 (ucast (drop_bit 32 bits)))"

definition md5Sum :: "bytes \<Rightarrow> bytes" where
  "md5Sum m =
     (let p = md5Pad m;
          (a, b, c, d) = md5Blocks (length p div 64) (0x67452301, 0xefcdab89, 0x98badcfe, 0x10325476) p
      in le32 a @ le32 b @ le32 c @ le32 d)"

lemma length_md5Sum [simp]: "length (md5Sum m) = 16"
  by (simp add: md5Sum_def Let_def split: prod.split)

text \<open>The digest of \<open>abc\<close> from RFC 1321.\<close>

lemma md5_abc:
  "md5Sum [97, 98, 99] =
    [0x90, 0x01, 0x50, 0x98, 0x3c, 0xd2, 0x4f, 0xb0, 0xd6, 0x96, 0x3f, 0x7d, 0x28, 0xe1, 0x7f, 0x72]"
  by code_simp

end
