(* ===== verification/Chap.thy ===== *)
theory Chap
  imports Text_KV Md5
begin

text \<open>
  \<open>internal/login/chap.go\<close>, with \<open>AuthReason\<close> of \<open>errors.go\<close>: one-way and mutual CHAP with MD5.

  Random bytes are arguments (\<open>None\<close> is a failing random source). Keys are the map the login code
  builds from a text segment; the response is a list of pairs, because the caller sends the pairs
  in Go's map order. Errors keep their cause without the formatted text.

  The lemmas say what authentication means: a response is produced only for a fresh enough
  challenge and is the digest that the target recomputes, and a target is accepted exactly when it
  knows the digest of the initiator's own challenge.
\<close>

datatype AuthReason =
    ReasonNone | ReasonShortChallenge | ReasonLowEntropy | ReasonBadResponse | ReasonUnsupportedAlgorithm

datatype ChapError =
    MissingKey string
  | InvalidIdentifier ParseError
  | InvalidBinary string
  | ChapLoginError AuthReason

abbreviation (input) minCHAPChallengeLen :: nat where "minCHAPChallengeLen \<equiv> 16"

definition validateChallenge :: "bytes \<Rightarrow> AuthReason option" where
  "validateChallenge challenge =
     (if length challenge < minCHAPChallengeLen then Some ReasonShortChallenge
      else if list_all (\<lambda>b. b = 0) challenge then Some ReasonLowEntropy
      else None)"

definition chapResponse :: "u8 \<Rightarrow> bytes \<Rightarrow> bytes \<Rightarrow> bytes" where
  "chapResponse id' secret challenge = md5Sum ([id'] @ secret @ challenge)"

definition encodeCHAPBinary :: "bytes \<Rightarrow> string" where
  "encodeCHAPBinary data = ''0x'' @ hexEncode data"

definition decodeCHAPBinary :: "string \<Rightarrow> bytes option" where
  "decodeCHAPBinary s =
     (if hasPrefix s ''0x'' \<or> hasPrefix s ''0X'' then hexDecode (drop 2 s)
      else if hasPrefix s ''0b'' \<or> hasPrefix s ''0B'' then base64Decode (drop 2 s)
      else None)"

record chapState =
  cs_user :: string
  cs_secret :: string
  cs_mutualSecret :: string
  cs_isMutual :: bool
  cs_initiatorID :: u8
  cs_initiatorChallenge :: bytes

definition newCHAPState :: "string \<Rightarrow> string \<Rightarrow> bool \<Rightarrow> string \<Rightarrow> (u8 \<times> bytes) option \<Rightarrow> chapState option" where
  "newCHAPState user secret mutual mutualSecret random =
     (let cs = \<lparr>cs_user = user, cs_secret = secret, cs_mutualSecret = mutualSecret,
                cs_isMutual = mutual, cs_initiatorID = 0, cs_initiatorChallenge = []\<rparr>
      in if mutual
         then (case random of
                 None \<Rightarrow> None
               | Some (idByte, challenge) \<Rightarrow>
                   Some (cs\<lparr>cs_initiatorID := idByte, cs_initiatorChallenge := challenge\<rparr>))
         else Some cs)"

definition processChallenge :: "chapState \<Rightarrow> (string \<rightharpoonup> string) \<Rightarrow> ChapError + KeyValue list" where
  "processChallenge cs keys =
     (case keys ''CHAP_A'' of
        None \<Rightarrow> Inl (MissingKey ''CHAP_A'')
      | Some algo \<Rightarrow>
          if algo \<noteq> ''5'' then Inl (ChapLoginError ReasonUnsupportedAlgorithm)
          else (case keys ''CHAP_I'' of
            None \<Rightarrow> Inl (MissingKey ''CHAP_I'')
          | Some idStr \<Rightarrow>
              (case ParseUint idStr 8 of
                 Inl e \<Rightarrow> Inl (InvalidIdentifier e)
               | Inr idVal \<Rightarrow>
                   (case keys ''CHAP_C'' of
                      None \<Rightarrow> Inl (MissingKey ''CHAP_C'')
                    | Some cStr \<Rightarrow>
                        (case decodeCHAPBinary cStr of
                           None \<Rightarrow> Inl (InvalidBinary ''CHAP_C'')
                         | Some challenge \<Rightarrow>
                             (case validateChallenge challenge of
                                Some r \<Rightarrow> Inl (ChapLoginError r)
                              | None \<Rightarrow>
                                  let response = chapResponse (of_nat idVal) (bytes_of (cs_secret cs)) challenge;
                                      resp = [KV ''CHAP_N'' (cs_user cs), KV ''CHAP_R'' (encodeCHAPBinary response)]
                                  in Inr (if cs_isMutual cs
                                     then resp @ [KV ''CHAP_I'' (FormatUint (unat (cs_initiatorID cs))),
                                                  KV ''CHAP_C'' (encodeCHAPBinary (cs_initiatorChallenge cs))]
                                     else resp)))))))"

definition verifyMutualResponse :: "chapState \<Rightarrow> (string \<rightharpoonup> string) \<Rightarrow> ChapError option" where
  "verifyMutualResponse cs keys =
     (case keys ''CHAP_R'' of
        None \<Rightarrow> Some (MissingKey ''CHAP_R'')
      | Some rStr \<Rightarrow>
          (case decodeCHAPBinary rStr of
             None \<Rightarrow> Some (InvalidBinary ''CHAP_R'')
           | Some targetResp \<Rightarrow>
               let expected = chapResponse (cs_initiatorID cs) (bytes_of (cs_mutualSecret cs)) (cs_initiatorChallenge cs)
               in if targetResp \<noteq> expected then Some (ChapLoginError ReasonBadResponse) else None))"

section \<open>Binary values as text\<close>

locale binary_text =
  fixes enc :: "bytes \<Rightarrow> string" and dec :: "string \<Rightarrow> bytes option"
  assumes dec_enc: "dec (enc b) = Some b"
begin

lemma enc_inj: "enc a = enc b \<longleftrightarrow> a = b"
  using dec_enc by (metis option.inject)

end

interpretation hexText: binary_text hexEncode hexDecode
  by unfold_locales (rule hexDecode_hexEncode)

interpretation chapText: binary_text encodeCHAPBinary decodeCHAPBinary
  by unfold_locales (simp add: encodeCHAPBinary_def decodeCHAPBinary_def hasPrefix_def hexText.dec_enc)

lemma processChallenge_InrD:
  assumes "processChallenge cs keys = Inr resp"
  shows "\<exists>idStr idVal cStr challenge. keys ''CHAP_A'' = Some ''5'' \<and> keys ''CHAP_I'' = Some idStr
    \<and> ParseUint idStr 8 = Inr idVal \<and> keys ''CHAP_C'' = Some cStr \<and> decodeCHAPBinary cStr = Some challenge
    \<and> validateChallenge challenge = None
    \<and> kvToMap resp ''CHAP_N'' = Some (cs_user cs)
    \<and> kvToMap resp ''CHAP_R'' = Some (encodeCHAPBinary (chapResponse (of_nat idVal) (bytes_of (cs_secret cs)) challenge))
    \<and> (cs_isMutual cs \<longrightarrow> kvToMap resp ''CHAP_I'' = Some (FormatUint (unat (cs_initiatorID cs)))
        \<and> kvToMap resp ''CHAP_C'' = Some (encodeCHAPBinary (cs_initiatorChallenge cs)))"
  using assms
  by (auto simp: processChallenge_def Let_def kvToMap_rev split: option.splits sum.splits if_splits)

lemma validateChallenge_None:
  "validateChallenge c = None \<longleftrightarrow> 16 \<le> length c \<and> (\<exists>b \<in> set c. b \<noteq> 0)"
  by (auto simp: validateChallenge_def list_all_iff)

section \<open>Properties\<close>

text \<open>The initiator answers a CHAP challenge only when the algorithm is MD5 and the challenge has at least
  16 bytes that are not all zero; its answer decodes to the digest of identifier, secret and
  challenge, which is what the target recomputes, and with mutual CHAP it carries the initiator's
  own identifier and challenge in a form that decodes to them.\<close>

lemma chap_answer:
  assumes "processChallenge cs keys = Inr resp"
  shows "\<exists>idVal cStr challenge r. keys ''CHAP_A'' = Some ''5'' \<and> idVal < 256 \<and>
    keys ''CHAP_C'' = Some cStr \<and> decodeCHAPBinary cStr = Some challenge \<and>
    16 \<le> length challenge \<and> (\<exists>b \<in> set challenge. b \<noteq> 0) \<and>
    kvToMap resp ''CHAP_N'' = Some (cs_user cs) \<and> kvToMap resp ''CHAP_R'' = Some r \<and>
    decodeCHAPBinary r = Some (md5Sum (of_nat idVal # bytes_of (cs_secret cs) @ challenge)) \<and>
    (cs_isMutual cs \<longrightarrow> (\<exists>i c. kvToMap resp ''CHAP_I'' = Some i \<and> kvToMap resp ''CHAP_C'' = Some c \<and>
       ParseUint i 8 = Inr (unat (cs_initiatorID cs)) \<and> decodeCHAPBinary c = Some (cs_initiatorChallenge cs)))"
proof -
  have "ParseUint idStr 8 = Inr idVal \<Longrightarrow> idVal < 256" for idStr idVal
    using num.parse_bound [of idStr 8 idVal] by simp
  moreover have "ParseUint (FormatUint (unat (cs_initiatorID cs))) 8 = Inr (unat (cs_initiatorID cs))"
    using num.parse_format [of "unat (cs_initiatorID cs)" 8] unat_u8_less [of "cs_initiatorID cs"] by simp
  ultimately show ?thesis
    using processChallenge_InrD [OF assms]
    by (fastforce simp: chapText.dec_enc chapResponse_def validateChallenge_None)
qed

text \<open>Mutual CHAP accepts the target exactly when its \<open>CHAP_R\<close> decodes to the digest of the initiator's
  identifier, the target's secret and the initiator's challenge; in particular an honest target is
  accepted and every other digest is reported as a bad response.\<close>

lemma chap_mutual_verification:
  "(verifyMutualResponse cs keys = None \<longleftrightarrow>
      (\<exists>r. keys ''CHAP_R'' = Some r \<and> decodeCHAPBinary r =
         Some (md5Sum (cs_initiatorID cs # bytes_of (cs_mutualSecret cs) @ cs_initiatorChallenge cs)))) \<and>
   verifyMutualResponse cs [''CHAP_R'' \<mapsto> encodeCHAPBinary
      (chapResponse (cs_initiatorID cs) (bytes_of (cs_mutualSecret cs)) (cs_initiatorChallenge cs))] = None \<and>
   verifyMutualResponse cs [''CHAP_R'' \<mapsto> encodeCHAPBinary d] =
     (if d = md5Sum (cs_initiatorID cs # bytes_of (cs_mutualSecret cs) @ cs_initiatorChallenge cs)
      then None else Some (ChapLoginError ReasonBadResponse))"
  by (auto simp: verifyMutualResponse_def Let_def chapResponse_def chapText.dec_enc split: option.splits)

definition sampleChap :: chapState where
  "sampleChap = \<lparr>cs_user = ''u'', cs_secret = ''s'', cs_mutualSecret = ''m'', cs_isMutual = False,
     cs_initiatorID = 0, cs_initiatorChallenge = []\<rparr>"

lemma sampleChap_answers:
  "\<exists>resp. processChallenge sampleChap [''CHAP_A'' \<mapsto> ''5'', ''CHAP_I'' \<mapsto> ''7'',
      ''CHAP_C'' \<mapsto> ''0x000102030405060708090a0b0c0d0e0f''] = Inr resp"
  by (simp add: processChallenge_def ParseUint_def digitVal_def decodeCHAPBinary_def hasPrefix_def hexVal_def
      validateChallenge_def Let_def)

theorem chap_answer_witness:
  "\<exists>resp r. processChallenge sampleChap [''CHAP_A'' \<mapsto> ''5'', ''CHAP_I'' \<mapsto> ''7'',
      ''CHAP_C'' \<mapsto> ''0x000102030405060708090a0b0c0d0e0f''] = Inr resp \<and> kvToMap resp ''CHAP_R'' = Some r"
  using sampleChap_answers chap_answer [of sampleChap "[''CHAP_A'' \<mapsto> ''5'', ''CHAP_I'' \<mapsto> ''7'',
      ''CHAP_C'' \<mapsto> ''0x000102030405060708090a0b0c0d0e0f'']"] by blast

end
