(* ===== verification/Negotiation.thy ===== *)
theory Negotiation
  imports Text_KV
begin

text \<open>
  \<open>internal/login/negotiation.go\<close> and \<open>params.go\<close>, with the key resolution of
  \<open>doOperationalNegotiation\<close>, \<open>buildInitiatorKeys\<close> and \<open>findKeyDef\<close> of \<open>login.go\<close>.

  Values between parsing and printing are natural numbers below \<open>2 ^ 32\<close>, as \<open>ParseUint(_, 10, 32)\<close>
  returns them; the fields of \<open>NegotiatedParams\<close> are 32-bit words. The error of a key resolution
  keeps its cause without the formatted text.

  The lemmas: both peers compute the same value from each other's offers, every resolved value is
  legal for its key, and the parameters that result from any answer of the target stay in their
  ranges with \<open>FirstBurstLength\<close> at most \<open>MaxBurstLength\<close>.
\<close>

datatype NegotiationType = ListSelect | BooleanAnd | BooleanOr | NumericalMin | NumericalMax | Declarative

record KeyDef =
  kd_Name :: string
  kd_Type :: NegotiationType
  kd_Default :: string
  kd_Min :: nat
  kd_Max :: nat

abbreviation KD :: "string \<Rightarrow> NegotiationType \<Rightarrow> string \<Rightarrow> nat \<Rightarrow> nat \<Rightarrow> KeyDef" where
  "KD n t d lo hi \<equiv> \<lparr>kd_Name = n, kd_Type = t, kd_Default = d, kd_Min = lo, kd_Max = hi\<rparr>"

definition keyRegistry :: "KeyDef list" where
  "keyRegistry =
    [KD ''HeaderDigest'' ListSelect ''None'' 0 0,
     KD ''DataDigest'' ListSelect ''None'' 0 0,
     KD ''MaxConnections'' NumericalMin ''1'' 1 65535,
     KD ''InitialR2T'' BooleanOr ''Yes'' 0 0,
     KD ''ImmediateData'' BooleanAnd ''Yes'' 0 0,
     KD ''MaxRecvDataSegmentLength'' Declarative ''8192'' 512 16777215,
     KD ''MaxBurstLength'' NumericalMin ''262144'' 512 16777215,
     KD ''FirstBurstLength'' NumericalMin ''65536'' 512 16777215,
     KD ''DefaultTime2Wait'' NumericalMin ''2'' 0 3600,
     KD ''DefaultTime2Retain'' NumericalMin ''20'' 0 3600,
     KD ''MaxOutstandingR2T'' NumericalMin ''1'' 1 65535,
     KD ''DataPDUInOrder'' BooleanOr ''Yes'' 0 0,
     KD ''DataSequenceInOrder'' BooleanOr ''Yes'' 0 0,
     KD ''ErrorRecoveryLevel'' NumericalMin ''0'' 0 2]"

datatype NegError =
    InvalidInitiatorValue string ParseError
  | InvalidTargetValue string ParseError
  | NoOverlap string

definition clampValue :: "nat \<Rightarrow> KeyDef \<Rightarrow> nat" where
  "clampValue v def =
     (if kd_Min def = 0 \<and> kd_Max def = 0 then v
      else if v < kd_Min def then kd_Min def
      else if kd_Max def > 0 \<and> v > kd_Max def then kd_Max def
      else v)"

fun listSelect :: "string list \<Rightarrow> string list \<Rightarrow> string option" where
  "listSelect [] initiatorItems = None"
| "listSelect (ti # targetItems) initiatorItems =
     (let ti = TrimSpace ti
      in if ti \<in> set (map TrimSpace initiatorItems) then Some ti
         else listSelect targetItems initiatorItems)"

definition resolveNumber :: "(nat \<Rightarrow> nat \<Rightarrow> nat) \<Rightarrow> KeyDef \<Rightarrow> string \<Rightarrow> string \<Rightarrow> NegError + string" where
  "resolveNumber pick def initiatorValue targetValue =
     (case ParseUint initiatorValue 32 of
        Inl e \<Rightarrow> Inl (InvalidInitiatorValue (kd_Name def) e)
      | Inr iv \<Rightarrow>
          (case ParseUint targetValue 32 of
             Inl e \<Rightarrow> Inl (InvalidTargetValue (kd_Name def) e)
           | Inr tv \<Rightarrow> Inr (FormatUint (clampValue (pick iv tv) def))))"

definition resolveKey :: "KeyDef \<Rightarrow> string \<Rightarrow> string \<Rightarrow> NegError + string" where
  "resolveKey def initiatorValue targetValue =
     (case kd_Type def of
        BooleanAnd \<Rightarrow>
          Inr (if initiatorValue = ''Yes'' \<and> targetValue = ''Yes'' then ''Yes'' else ''No'')
      | BooleanOr \<Rightarrow>
          Inr (if initiatorValue = ''Yes'' \<or> targetValue = ''Yes'' then ''Yes'' else ''No'')
      | NumericalMin \<Rightarrow> resolveNumber (\<lambda>iv tv. if tv < iv then tv else iv) def initiatorValue targetValue
      | NumericalMax \<Rightarrow> resolveNumber (\<lambda>iv tv. if tv > iv then tv else iv) def initiatorValue targetValue
      | ListSelect \<Rightarrow>
          (case listSelect (splitOn (CHR '','') targetValue) (splitOn (CHR '','') initiatorValue) of
             Some ti \<Rightarrow> Inr ti
           | None \<Rightarrow> Inl (NoOverlap (kd_Name def)))
      | Declarative \<Rightarrow>
          (case ParseUint targetValue 32 of
             Inl e \<Rightarrow> Inl (InvalidTargetValue (kd_Name def) e)
           | Inr tv \<Rightarrow> Inr (FormatUint (clampValue tv def))))"

record NegotiatedParams =
  np_HeaderDigest :: bool
  np_DataDigest :: bool
  np_MaxConnections :: u32
  np_InitialR2T :: bool
  np_ImmediateData :: bool
  np_MaxRecvDataSegmentLength :: u32
  np_MaxBurstLength :: u32
  np_FirstBurstLength :: u32
  np_DefaultTime2Wait :: u32
  np_DefaultTime2Retain :: u32
  np_MaxOutstandingR2T :: u32
  np_DataPDUInOrder :: bool
  np_DataSequenceInOrder :: bool
  np_ErrorRecoveryLevel :: u32
  np_TargetName :: string
  np_TSIH :: u16
  np_ISID :: bytes
  np_CmdSN :: u32
  np_ExpStatSN :: u32

definition Defaults :: NegotiatedParams where
  "Defaults = \<lparr>np_HeaderDigest = False, np_DataDigest = False, np_MaxConnections = 1,
     np_InitialR2T = True, np_ImmediateData = True, np_MaxRecvDataSegmentLength = 8192,
     np_MaxBurstLength = 262144, np_FirstBurstLength = 65536, np_DefaultTime2Wait = 2,
     np_DefaultTime2Retain = 20, np_MaxOutstandingR2T = 1, np_DataPDUInOrder = True,
     np_DataSequenceInOrder = True, np_ErrorRecoveryLevel = 0, np_TargetName = '''', np_TSIH = 0,
     np_ISID = replicate 6 0, np_CmdSN = 1, np_ExpStatSN = 0\<rparr>"

definition parseUint32 :: "string \<Rightarrow> u32" where
  "parseUint32 s = (case ParseUint s 32 of Inl _ \<Rightarrow> 0 | Inr v \<Rightarrow> of_nat v)"

definition applyKey :: "KeyValue \<Rightarrow> NegotiatedParams \<Rightarrow> NegotiatedParams" where
  "applyKey kv p =
     (let k = kv_Key kv; v = kv_Value kv in
      if k = ''HeaderDigest'' then p\<lparr>np_HeaderDigest := v = ''CRC32C''\<rparr>
      else if k = ''DataDigest'' then p\<lparr>np_DataDigest := v = ''CRC32C''\<rparr>
      else if k = ''MaxConnections'' then p\<lparr>np_MaxConnections := parseUint32 v\<rparr>
      else if k = ''InitialR2T'' then p\<lparr>np_InitialR2T := v = ''Yes''\<rparr>
      else if k = ''ImmediateData'' then p\<lparr>np_ImmediateData := v = ''Yes''\<rparr>
      else if k = ''MaxRecvDataSegmentLength'' then p\<lparr>np_MaxRecvDataSegmentLength := parseUint32 v\<rparr>
      else if k = ''MaxBurstLength'' then p\<lparr>np_MaxBurstLength := parseUint32 v\<rparr>
      else if k = ''FirstBurstLength'' then p\<lparr>np_FirstBurstLength := parseUint32 v\<rparr>
      else if k = ''DefaultTime2Wait'' then p\<lparr>np_DefaultTime2Wait := parseUint32 v\<rparr>
      else if k = ''DefaultTime2Retain'' then p\<lparr>np_DefaultTime2Retain := parseUint32 v\<rparr>
      else if k = ''MaxOutstandingR2T'' then p\<lparr>np_MaxOutstandingR2T := parseUint32 v\<rparr>
      else if k = ''DataPDUInOrder'' then p\<lparr>np_DataPDUInOrder := v = ''Yes''\<rparr>
      else if k = ''DataSequenceInOrder'' then p\<lparr>np_DataSequenceInOrder := v = ''Yes''\<rparr>
      else if k = ''ErrorRecoveryLevel'' then p\<lparr>np_ErrorRecoveryLevel := parseUint32 v\<rparr>
      else p)"

definition applyNegotiatedKeys :: "NegotiatedParams \<Rightarrow> KeyValue list \<Rightarrow> NegotiatedParams" where
  "applyNegotiatedKeys params keys =
     (let params = foldl (\<lambda>p kv. applyKey kv p) params keys
      in if np_FirstBurstLength params > np_MaxBurstLength params
         then params\<lparr>np_FirstBurstLength := np_MaxBurstLength params\<rparr> else params)"

definition findKeyDef :: "string \<Rightarrow> KeyDef option" where
  "findKeyDef name = List.find (\<lambda>def. kd_Name def = name) keyRegistry"

text \<open>The initiator's offers; \<open>operationalOverrides\<close> may be nil.\<close>

definition buildInitiatorKeys :: "string list \<Rightarrow> string list \<Rightarrow> (string \<rightharpoonup> string) option \<Rightarrow> KeyValue list" where
  "buildInitiatorKeys headerDigest dataDigest operationalOverrides =
     (let keys =
       [KV ''HeaderDigest'' (joinWith (CHR '','') headerDigest),
        KV ''DataDigest'' (joinWith (CHR '','') dataDigest),
        KV ''MaxConnections'' ''1'',
        KV ''InitialR2T'' ''Yes'',
        KV ''ImmediateData'' ''Yes'',
        KV ''MaxRecvDataSegmentLength'' ''8192'',
        KV ''MaxBurstLength'' ''262144'',
        KV ''FirstBurstLength'' ''65536'',
        KV ''DefaultTime2Wait'' ''2'',
        KV ''DefaultTime2Retain'' ''20'',
        KV ''MaxOutstandingR2T'' ''1'',
        KV ''DataPDUInOrder'' ''Yes'',
        KV ''DataSequenceInOrder'' ''Yes'',
        KV ''ErrorRecoveryLevel'' ''0'']
      in case operationalOverrides of
           None \<Rightarrow> keys
         | Some overrides \<Rightarrow>
             map (\<lambda>kv. case overrides (kv_Key kv) of
                         Some override \<Rightarrow> kv\<lparr>kv_Value := override\<rparr> | None \<Rightarrow> kv) keys)"

text \<open>The resolution loop of \<open>doOperationalNegotiation\<close>; an absent map entry reads as the empty string.\<close>

fun resolveTargetKeys :: "(string \<rightharpoonup> string) \<Rightarrow> KeyValue list \<Rightarrow> NegError + KeyValue list" where
  "resolveTargetKeys initiatorMap [] = Inr []"
| "resolveTargetKeys initiatorMap (kv # kvs) =
     (case findKeyDef (kv_Key kv) of
        None \<Rightarrow> resolveTargetKeys initiatorMap kvs
      | Some def \<Rightarrow>
          let initiatorVal = (case initiatorMap (kv_Key kv) of Some v \<Rightarrow> v | None \<Rightarrow> '''')
          in (case resolveKey def initiatorVal (kv_Value kv) of
                Inl e \<Rightarrow> Inl e
              | Inr result \<Rightarrow>
                  (case resolveTargetKeys initiatorMap kvs of
                     Inl e \<Rightarrow> Inl e
                   | Inr resolved \<Rightarrow> Inr (KV (kv_Key kv) result # resolved))))"

fun replaceFirst :: "string \<Rightarrow> string \<Rightarrow> KeyValue list \<Rightarrow> KeyValue list" where
  "replaceFirst k v [] = [KV k v]"
| "replaceFirst k v (kv # kvs) =
     (if kv_Key kv = k then kv\<lparr>kv_Value := v\<rparr> # kvs else kv # replaceFirst k v kvs)"

text \<open>From the offers and the target's data segment to the parameters.\<close>

definition operationalParams :: "KeyValue list \<Rightarrow> bytes \<Rightarrow> NegError + NegotiatedParams" where
  "operationalParams keys respData =
     (let targetKVs = DecodeTextKV respData;
          targetMap = kvToMap targetKVs;
          initiatorMap = kvToMap keys
      in case resolveTargetKeys initiatorMap targetKVs of
           Inl e \<Rightarrow> Inl e
         | Inr resolved \<Rightarrow>
             let resolved = (case targetMap ''MaxRecvDataSegmentLength'' of
                   Some mrdsl \<Rightarrow> replaceFirst ''MaxRecvDataSegmentLength'' mrdsl resolved
                 | None \<Rightarrow> resolved)
             in Inr (applyNegotiatedKeys Defaults resolved))"

lemma clampValue_range: "kd_Min def \<le> kd_Max def \<Longrightarrow> 0 < kd_Max def \<Longrightarrow>
    kd_Min def \<le> clampValue v def \<and> clampValue v def \<le> kd_Max def"
  by (auto simp: clampValue_def)

lemma registry_ranges: "def \<in> set keyRegistry \<Longrightarrow> kd_Type def \<in> {NumericalMin, NumericalMax, Declarative} \<Longrightarrow>
    kd_Min def \<le> kd_Max def \<and> 0 < kd_Max def \<and> kd_Max def < 2 ^ 24"
  by (auto simp: keyRegistry_def)

lemma findKeyDef_SomeD: "findKeyDef k = Some def \<Longrightarrow> def \<in> set keyRegistry \<and> kd_Name def = k"
  by (auto simp: findKeyDef_def find_Some_iff)

lemma listSelect_SomeD:
  "listSelect tis iis = Some r \<Longrightarrow> r \<in> set (map TrimSpace tis) \<and> r \<in> set (map TrimSpace iis)"
  by (induction tis) (auto simp: Let_def split: if_splits)

text \<open>What a legal value of a key looks like.\<close>

definition legalValue :: "KeyDef \<Rightarrow> string \<Rightarrow> string \<Rightarrow> bool" where
  "legalValue def offered r =
     (case kd_Type def of
        BooleanAnd \<Rightarrow> r = ''Yes'' \<or> r = ''No''
      | BooleanOr \<Rightarrow> r = ''Yes'' \<or> r = ''No''
      | ListSelect \<Rightarrow> r \<in> set (map TrimSpace (splitOn (CHR '','') offered))
      | _ \<Rightarrow> (\<exists>n. ParseUint r 32 = Inr n \<and> kd_Min def \<le> n \<and> n \<le> kd_Max def))"

lemma number_legal:
  assumes "def \<in> set keyRegistry" "kd_Type def \<in> {NumericalMin, NumericalMax, Declarative}"
  shows "\<exists>n. ParseUint (FormatUint (clampValue v def)) 32 = Inr n \<and> kd_Min def \<le> n \<and> n \<le> kd_Max def"
proof -
  note r = registry_ranges [OF assms]
  have c: "kd_Min def \<le> clampValue v def \<and> clampValue v def \<le> kd_Max def" using r clampValue_range by simp
  then have "clampValue v def \<le> 2 ^ 32 - 1" using r by simp
  then show ?thesis using c num.parse_format by blast
qed

lemma resolveKey_legal:
  assumes "def \<in> set keyRegistry" "resolveKey def a b = Inr r"
  shows "legalValue def a r"
  using assms number_legal [OF assms(1)]
  by (cases "kd_Type def")
    (auto simp: resolveKey_def legalValue_def resolveNumber_def split: sum.splits option.splits if_splits
      dest: listSelect_SomeD)

definition legalKV :: "(string \<rightharpoonup> string) \<Rightarrow> KeyValue \<Rightarrow> bool" where
  "legalKV m kv \<longleftrightarrow> (\<exists>def. findKeyDef (kv_Key kv) = Some def
     \<and> legalValue def (case m (kv_Key kv) of Some v \<Rightarrow> v | None \<Rightarrow> '''') (kv_Value kv))"

lemma resolveTargetKeys_legal:
  "resolveTargetKeys m kvs = Inr res \<Longrightarrow> \<forall>kv \<in> set res. legalKV m kv"
  by (induction kvs arbitrary: res)
    (fastforce simp: Let_def legalKV_def dest: findKeyDef_SomeD resolveKey_legal split: option.splits sum.splits)+

lemma parseUint32_range:
  "ParseUint r 32 = Inr n \<Longrightarrow> lo \<le> n \<Longrightarrow> n \<le> hi \<Longrightarrow> lo \<le> unat (parseUint32 r) \<and> unat (parseUint32 r) \<le> hi"
  using num.parse_bound [of r 32 n] by (simp add: parseUint32_def unat_of_nat_u32)

text \<open>The ranges the resolved keys guarantee.\<close>

definition params_ok :: "NegotiatedParams \<Rightarrow> bool" where
  "params_ok p \<longleftrightarrow>
     unat (np_MaxConnections p) \<in> {1 .. 65535} \<and> unat (np_MaxBurstLength p) \<in> {512 .. 16777215} \<and>
     unat (np_FirstBurstLength p) \<in> {512 .. 16777215} \<and> unat (np_DefaultTime2Wait p) \<le> 3600 \<and>
     unat (np_DefaultTime2Retain p) \<le> 3600 \<and> unat (np_MaxOutstandingR2T p) \<in> {1 .. 65535} \<and>
     unat (np_ErrorRecoveryLevel p) \<le> 2"

lemma Defaults_ok: "params_ok Defaults"
  by (simp add: params_ok_def Defaults_def)

lemma findKeyDef_eval:
  "findKeyDef ''MaxConnections'' = Some (KD ''MaxConnections'' NumericalMin ''1'' 1 65535)"
  "findKeyDef ''MaxBurstLength'' = Some (KD ''MaxBurstLength'' NumericalMin ''262144'' 512 16777215)"
  "findKeyDef ''FirstBurstLength'' = Some (KD ''FirstBurstLength'' NumericalMin ''65536'' 512 16777215)"
  "findKeyDef ''DefaultTime2Wait'' = Some (KD ''DefaultTime2Wait'' NumericalMin ''2'' 0 3600)"
  "findKeyDef ''DefaultTime2Retain'' = Some (KD ''DefaultTime2Retain'' NumericalMin ''20'' 0 3600)"
  "findKeyDef ''MaxOutstandingR2T'' = Some (KD ''MaxOutstandingR2T'' NumericalMin ''1'' 1 65535)"
  "findKeyDef ''ErrorRecoveryLevel'' = Some (KD ''ErrorRecoveryLevel'' NumericalMin ''0'' 0 2)"
  by (simp_all add: findKeyDef_def keyRegistry_def)

lemma applyKey_ok: "params_ok p \<Longrightarrow> legalKV m kv \<Longrightarrow> params_ok (applyKey kv p)"
proof -
  assume p: "params_ok p" and "legalKV m kv"
  then obtain def where d: "findKeyDef (kv_Key kv) = Some def"
    "legalValue def (case m (kv_Key kv) of Some v \<Rightarrow> v | None \<Rightarrow> '''') (kv_Value kv)" by (auto simp: legalKV_def)
  have n: "kd_Min def \<le> unat (parseUint32 (kv_Value kv)) \<and> unat (parseUint32 (kv_Value kv)) \<le> kd_Max def"
    if "kd_Type def = NumericalMin"
    using d(2) that parseUint32_range by (auto simp: legalValue_def)
  show ?thesis
    using p d(1) n by (auto simp: applyKey_def Let_def params_ok_def findKeyDef_eval)
qed

lemma applyKey_other_ok: "params_ok p \<Longrightarrow> kv_Key kv = ''MaxRecvDataSegmentLength'' \<Longrightarrow> params_ok (applyKey kv p)"
  by (simp add: applyKey_def params_ok_def)

lemma foldl_applyKey_ok:
  "params_ok p \<Longrightarrow> \<forall>kv \<in> set kvs. legalKV m kv \<or> kv_Key kv = ''MaxRecvDataSegmentLength'' \<Longrightarrow>
   params_ok (foldl (\<lambda>p kv. applyKey kv p) p kvs)"
  by (induction kvs arbitrary: p) (auto intro: applyKey_ok applyKey_other_ok)

lemma set_replaceFirst: "kv \<in> set (replaceFirst k v kvs) \<Longrightarrow> kv \<in> set kvs \<or> kv_Key kv = k"
  by (induction kvs) (auto split: if_splits)

lemma applyNegotiatedKeys_ok:
  assumes "params_ok p" "\<forall>kv \<in> set kvs. legalKV m kv \<or> kv_Key kv = ''MaxRecvDataSegmentLength''"
  shows "params_ok (applyNegotiatedKeys p kvs)
    \<and> np_FirstBurstLength (applyNegotiatedKeys p kvs) \<le> np_MaxBurstLength (applyNegotiatedKeys p kvs)"
  using foldl_applyKey_ok [OF assms] by (auto simp: applyNegotiatedKeys_def Let_def params_ok_def)

lemma resolveNumber_min:
  "resolveNumber (\<lambda>iv tv. if tv < iv then tv else iv) def a b = Inr r \<Longrightarrow>
   \<exists>iv tv. ParseUint a 32 = Inr iv \<and> ParseUint b 32 = Inr tv \<and> r = FormatUint (clampValue (min iv tv) def)"
  by (cases "ParseUint a 32"; cases "ParseUint b 32") (simp_all add: resolveNumber_def min_def not_less split: if_splits)

lemma FormatUint_digits: "c \<in> set (FormatUint n) \<Longrightarrow> 48 \<le> (of_char c :: nat)"
proof (induction n rule: FormatUint.induct)
  case (1 n)
  then show ?case by (subst (asm) (2) FormatUint.simps) (auto split: if_splits)
qed

lemma FormatUint_clean: "NUL \<notin> set (bytes_of (FormatUint n))"
proof
  assume "NUL \<in> set (bytes_of (FormatUint n))"
  then obtain c where "c \<in> set (FormatUint n)" "byte_of c = 0" by (auto simp: bytes_of_def)
  then show False using FormatUint_digits [of c n] unat_byte_of [of c] by simp
qed

text \<open>
  The clamped result of the declarative key is replaced by the text the target sent, so a target
  can declare any 32-bit length, 0 included.
\<close>

lemma mrdsl_is_not_clamped:
  assumes "n < 2 ^ 32"
  shows "operationalParams keys (EncodeTextKV [KV ''MaxRecvDataSegmentLength'' (FormatUint n)])
    = Inr (Defaults\<lparr>np_MaxRecvDataSegmentLength := of_nat n\<rparr>)"
proof -
  have d: "DecodeTextKV (EncodeTextKV [KV ''MaxRecvDataSegmentLength'' (FormatUint n)])
      = [KV ''MaxRecvDataSegmentLength'' (FormatUint n)]"
    by (rule DecodeTextKV_EncodeTextKV) (simp add: wf_KV_def FormatUint_clean, simp add: bytes_of_def byte_of_def)
  have p: "ParseUint (FormatUint n) 32 = Inr n" using assms num.parse_format [of n 32] by simp
  have f: "findKeyDef ''MaxRecvDataSegmentLength'' = Some (KD ''MaxRecvDataSegmentLength'' Declarative ''8192'' 512 16777215)"
    by (simp add: findKeyDef_def keyRegistry_def)
  have k: "resolveTargetKeys m [KV ''MaxRecvDataSegmentLength'' (FormatUint n)]
      = Inr [KV ''MaxRecvDataSegmentLength'' (FormatUint (clampValue n
          (KD ''MaxRecvDataSegmentLength'' Declarative ''8192'' 512 16777215)))]" for m
    by (simp add: f resolveKey_def p Let_def)
  have "applyNegotiatedKeys Defaults [KV ''MaxRecvDataSegmentLength'' (FormatUint n)]
      = Defaults\<lparr>np_MaxRecvDataSegmentLength := of_nat n\<rparr>"
    by (simp add: applyNegotiatedKeys_def applyKey_def parseUint32_def p) (simp add: Defaults_def)
  then show ?thesis
    unfolding operationalParams_def d Let_def k by (simp add: kvToMap_simps)
qed

lemma operationalParams_ok:
  assumes "operationalParams keys respData = Inr p"
  shows "params_ok p \<and> np_FirstBurstLength p \<le> np_MaxBurstLength p"
proof -
  let ?kvs = "DecodeTextKV respData"
  obtain res where r: "resolveTargetKeys (kvToMap keys) ?kvs = Inr res"
    and p: "p = applyNegotiatedKeys Defaults (case kvToMap ?kvs ''MaxRecvDataSegmentLength'' of
        Some mrdsl \<Rightarrow> replaceFirst ''MaxRecvDataSegmentLength'' mrdsl res | None \<Rightarrow> res)"
    using assms by (auto simp: operationalParams_def Let_def split: sum.splits)
  show ?thesis unfolding p
    using resolveTargetKeys_legal [OF r] applyNegotiatedKeys_ok [OF Defaults_ok, of _ "kvToMap keys"]
    by (auto split: option.split dest: set_replaceFirst)
qed

section \<open>Properties\<close>

text \<open>Both peers of a negotiation compute the same value: for the numerical and boolean keys, resolving
  the two offers gives the same result whichever peer's offer is called the initiator's.\<close>

lemma negotiation_symmetric:
  assumes "kd_Type def \<notin> {ListSelect, Declarative}"
  shows "case_sum (\<lambda>_. None) Some (resolveKey def a b) = case_sum (\<lambda>_. None) Some (resolveKey def b a)"
  using assms
  by (cases "kd_Type def") (auto simp: resolveKey_def resolveNumber_def split: sum.splits)

text \<open>Every value resolved for a registered key is legal: Yes or No, one of the initiator's own list
  items, or a number inside the key's range that prints and parses back to itself; a number is the
  smaller of the two offers moved into the range.\<close>

theorem resolved_value_legal:
  assumes "findKeyDef k = Some def" "resolveKey def offered answer = Inr r"
  shows "legalValue def offered r \<and>
    (kd_Type def = NumericalMin \<longrightarrow> (\<exists>iv tv. ParseUint offered 32 = Inr iv \<and> ParseUint answer 32 = Inr tv
       \<and> r = FormatUint (clampValue (min iv tv) def)))"
proof
  show "legalValue def offered r"
    using resolveKey_legal findKeyDef_SomeD assms by blast
  show "kd_Type def = NumericalMin \<longrightarrow> (\<exists>iv tv. ParseUint offered 32 = Inr iv \<and> ParseUint answer 32 = Inr tv
       \<and> r = FormatUint (clampValue (min iv tv) def))"
  proof
    assume "kd_Type def = NumericalMin"
    then show "\<exists>iv tv. ParseUint offered 32 = Inr iv \<and> ParseUint answer 32 = Inr tv
       \<and> r = FormatUint (clampValue (min iv tv) def)"
      using assms(2) by (intro resolveNumber_min) (simp add: resolveKey_def)
  qed
qed


lemma resolve_sample: "resolveKey (KD ''FirstBurstLength'' NumericalMin ''65536'' 512 16777215) ''65536'' ''100'' = Inr (FormatUint 512)"
  by (simp add: resolveKey_def resolveNumber_def ParseUint_def digitVal_def clampValue_def)

theorem resolved_value_legal_witness:
  "\<exists>n. ParseUint (FormatUint 512) 32 = Inr n \<and> 512 \<le> n \<and> n \<le> 16777215"
  using resolved_value_legal [OF findKeyDef_eval(3) resolve_sample] by (simp add: legalValue_def)

theorem negotiation_symmetric_witness:
  "case_sum (\<lambda>_. None) Some (resolveKey (KD ''ImmediateData'' BooleanAnd ''Yes'' 0 0) ''Yes'' ''No'') = Some ''No'' \<and>
   case_sum (\<lambda>_. None) Some (resolveKey (KD ''ImmediateData'' BooleanAnd ''Yes'' 0 0) ''No'' ''Yes'') = Some ''No''"
  using negotiation_symmetric [of "KD ''ImmediateData'' BooleanAnd ''Yes'' 0 0" "''Yes''" "''No''"]
  by (simp add: resolveKey_def)


end
