(* ===== verification/Pdu_Frame.thy ===== *)
theory Pdu_Frame
  imports Pdu Framer
begin

text \<open>
  From PDUs to frames and back: what the session and login code do with the two packages, namely
  put the marshalled header and the data segment of a PDU into a \<open>RawPDU\<close> and hand it to the
  framer, and decode the header of a \<open>RawPDU\<close> that was read.

  \<open>consistent\<close> is what the callers guarantee: the header carries the length of the data and no
  additional header segments.
\<close>

definition consistent :: "PDU \<Rightarrow> bool" where
  "consistent p \<longleftrightarrow> wf_PDU p \<and> TotalAHSLength (pdu_header p) = 0
     \<and> unat (DataSegmentLen (pdu_header p)) = length (DataSegment p)"

lemma norm_PDU_header:
  "DataSegmentLen (pdu_header (norm_PDU p)) = DataSegmentLen (pdu_header p)"
  "TotalAHSLength (pdu_header (norm_PDU p)) = TotalAHSLength (pdu_header p)"
  "InitiatorTaskTag (pdu_header (norm_PDU p)) = InitiatorTaskTag (pdu_header p)"
  by (cases p; simp add: norm_NOPOut_def norm_SCSICommand_def norm_TaskMgmtReq_def norm_LoginReq_def
      norm_TextReq_def norm_DataOut_def norm_LogoutReq_def norm_SNACKReq_def norm_NOPIn_def
      norm_SCSIResponse_def norm_TaskMgmtResp_def norm_LoginResp_def norm_TextResp_def norm_DataIn_def
      norm_LogoutResp_def norm_R2T_def norm_AsyncMsg_def norm_Reject_def)+

lemma marshalled_header:
  assumes "wf_PDU p" "MarshalBHS p = Inr b"
  shows "length b = BHSLength" "DecodeBHS b = Inr (norm_PDU p)"
    "decodeDataSegmentLength b = DataSegmentLen (pdu_header p)" "b ! 4 = TotalAHSLength (pdu_header p)"
    "Uint32 (slice b 16 20) = InitiatorTaskTag (pdu_header p)"
proof -
  obtain b' where "MarshalBHS p = Inr b'" "bhs_ok (Opcode p) b'" and d: "DecodeBHS b' = Inr (norm_PDU p)"
    using MarshalBHS_roundtrip [OF assms(1)] by blast
  with assms(2) have b: "DecodeBHS b = Inr (norm_PDU p)" and "bhs_ok (Opcode p) b" by simp_all
  then show "length b = BHSLength" "DecodeBHS b = Inr (norm_PDU p)" by (simp_all add: bhs_ok_def)
  have h: "unmarshalHeader b = pdu_header (norm_PDU p)" using DecodeBHS_header [OF b] by simp
  show "decodeDataSegmentLength b = DataSegmentLen (pdu_header p)"
    using arg_cong [OF h, of DataSegmentLen]
    by (simp add: unmarshalHeader_def norm_PDU_header split: prod.splits)
  show "b ! 4 = TotalAHSLength (pdu_header p)"
    using arg_cong [OF h, of TotalAHSLength]
    by (simp add: unmarshalHeader_def norm_PDU_header split: prod.splits)
  show "Uint32 (slice b 16 20) = InitiatorTaskTag (pdu_header p)"
    using arg_cong [OF h, of InitiatorTaskTag]
    by (simp add: unmarshalHeader_def norm_PDU_header split: prod.splits)
qed

lemma consistent_unstamped:
  assumes "consistent p" "MarshalBHS p = Inr b"
  shows "unstamped (bareRaw b (DataSegment p))"
  using assms marshalled_header [of p b]
  by (simp add: consistent_def unstamped_def shaped_def bareRaw_def)

lemma frame_roundtrip:
  assumes "consistent p"
  shows "\<exists>b. MarshalBHS p = Inr b \<and> unstamped (bareRaw b (DataSegment p)) \<and> DecodeBHS b = Inr (norm_PDU p) \<and>
    (\<forall>pool bo rest dh dd mx.
       ReadRawPDU (WriteRawPDU pool (stampDigests dh dd (bareRaw b (DataSegment p))) bo @ rest) dh dd mx bo
         = Inr (stampDigests dh dd (bareRaw b (DataSegment p)), rest))"
proof -
  obtain b where b: "MarshalBHS p = Inr b" "DecodeBHS b = Inr (norm_PDU p)"
    using MarshalBHS_roundtrip [of p] assms by (auto simp: consistent_def)
  have u: "unstamped (bareRaw b (DataSegment p))" by (rule consistent_unstamped [OF assms b(1)])
  show ?thesis
    using b u ReadRawPDU_WriteRawPDU [OF stampDigests_ok(1) [OF u]] stampDigests_ok(2,3) [OF u]
    by auto
qed

end
