(* ===== verification/Login.thy ===== *)
theory Login
  imports Chap Negotiation Pdu_Frame
begin

text \<open>
  \<open>internal/login/login.go\<close>, with \<open>LoginError\<close> and \<open>statusMessage\<close> of \<open>errors.go\<close> and the
  settings of \<open>internal/transport/conn.go\<close> that login fills in.

  The TCP connection is the byte stream still to be read (\<open>ls_rx\<close>) and the bytes written so far
  (\<open>ls_tx\<close>); whether the n-th write fails, what recycled buffers hold and in which order Go
  iterates over a map are parts of the state that no operation changes. A step of the login is a
  function from the state to a result (an error or a value) and the new state, composed with
  \<open>bindL\<close>, so an error keeps what was already sent. Deadlines and logging are left out.

  The lemmas show what one exchange puts on the wire and takes from it, that a login against a
  cooperating target completes with the negotiated parameters, that no login with mutual CHAP
  succeeds without a verified target response in the received bytes, and that an error status
  stops the login at once.
\<close>

section \<open>Configuration\<close>

record loginConfig =
  lc_targetName :: string
  lc_sessionType :: string
  lc_initiatorName :: string
  lc_chapUser :: string
  lc_chapSecret :: string
  lc_mutualCHAP :: bool
  lc_targetSecret :: string
  lc_headerDigest :: "string list"
  lc_dataDigest :: "string list"
  lc_isid :: bytes
  lc_tsih :: u16
  lc_operationalOverrides :: "(string \<rightharpoonup> string) option"

type_synonym LoginOption = "loginConfig \<Rightarrow> loginConfig"

definition WithTarget :: "string \<Rightarrow> LoginOption" where
  "WithTarget iqn c = c\<lparr>lc_targetName := iqn\<rparr>"

definition WithCHAP :: "string \<Rightarrow> string \<Rightarrow> LoginOption" where
  "WithCHAP user secret c = c\<lparr>lc_chapUser := user, lc_chapSecret := secret\<rparr>"

definition WithMutualCHAP :: "string \<Rightarrow> string \<Rightarrow> string \<Rightarrow> LoginOption" where
  "WithMutualCHAP user secret targetSecret c =
     c\<lparr>lc_chapUser := user, lc_chapSecret := secret, lc_mutualCHAP := True, lc_targetSecret := targetSecret\<rparr>"

definition WithHeaderDigest :: "string list \<Rightarrow> LoginOption" where
  "WithHeaderDigest prefs c = c\<lparr>lc_headerDigest := prefs\<rparr>"

definition WithDataDigest :: "string list \<Rightarrow> LoginOption" where
  "WithDataDigest prefs c = c\<lparr>lc_dataDigest := prefs\<rparr>"

definition WithInitiatorName :: "string \<Rightarrow> LoginOption" where
  "WithInitiatorName iqn c = c\<lparr>lc_initiatorName := iqn\<rparr>"

definition WithSessionType :: "string \<Rightarrow> LoginOption" where
  "WithSessionType st c = c\<lparr>lc_sessionType := st\<rparr>"

definition WithISID :: "bytes \<Rightarrow> LoginOption" where
  "WithISID isid c = c\<lparr>lc_isid := isid\<rparr>"

definition WithOperationalOverrides :: "(string \<rightharpoonup> string) option \<Rightarrow> LoginOption" where
  "WithOperationalOverrides overrides c = c\<lparr>lc_operationalOverrides := overrides\<rparr>"

definition WithTSIH :: "u16 \<Rightarrow> LoginOption" where
  "WithTSIH tsih c = c\<lparr>lc_tsih := tsih\<rparr>"

definition defaultLoginConfig :: loginConfig where
  "defaultLoginConfig = \<lparr>lc_targetName = '''', lc_sessionType = ''Normal'',
     lc_initiatorName = ''iqn.2026-03.com.github.rkujawa:uiscsi'', lc_chapUser = '''', lc_chapSecret = '''',
     lc_mutualCHAP = False, lc_targetSecret = '''', lc_headerDigest = [''None''], lc_dataDigest = [''None''],
     lc_isid = replicate 6 0, lc_tsih = 0, lc_operationalOverrides = None\<rparr>"

section \<open>Errors\<close>

definition statusMessage :: "u8 \<Rightarrow> u8 \<Rightarrow> string" where
  "statusMessage class detail =
     (let code = push_bit 8 (ucast class) OR ucast detail :: u16 in
      if code = 0x0000 then ''login succeeded''
      else if code = 0x0101 then ''target moved temporarily''
      else if code = 0x0102 then ''target moved permanently''
      else if code = 0x0200 then ''initiator error''
      else if code = 0x0201 then ''authentication failure''
      else if code = 0x0202 then ''authorization failure''
      else if code = 0x0203 then ''target not found''
      else if code = 0x0204 then ''target removed''
      else if code = 0x0300 then ''target error''
      else if code = 0x0301 then ''service unavailable''
      else if code = 0x0302 then ''out of resources''
      else ''unknown status 0x'' @ hexEncode (be16 code))"

datatype LoginFailure =
    GenerateISID
  | ChapInit
  | EncodeFailed ProtocolError
  | WriteFailed
  | ReadFailed ReadError
  | LoginError u8 u8 string
  | ChapFailed ChapError
  | MutualChapFailed ChapError
  | NegotiateFailed NegError

section \<open>The login state and one exchange\<close>

record loginState =
  ls_rx :: bytes
  ls_tx :: bytes
  ls_writes :: nat
  ls_writeFails :: "nat \<Rightarrow> bool"
  ls_pool :: "nat \<Rightarrow> bytes"
  ls_mapOrder :: "KeyValue list \<Rightarrow> KeyValue list"
  ls_cfg :: loginConfig
  ls_params :: NegotiatedParams
  ls_chap :: "chapState option"
  ls_cmdSN :: u32
  ls_expStatSN :: u32
  ls_tsih :: u16
  ls_isid :: bytes

type_synonym 'a login = "loginState \<Rightarrow> (LoginFailure + 'a) \<times> loginState"

definition returnL :: "'a \<Rightarrow> 'a login" where
  "returnL x ls = (Inr x, ls)"

definition failL :: "LoginFailure \<Rightarrow> 'a login" where
  "failL e ls = (Inl e, ls)"

definition bindL :: "'a login \<Rightarrow> ('a \<Rightarrow> 'b login) \<Rightarrow> 'b login" where
  "bindL m f ls = (case m ls of (Inl e, ls) \<Rightarrow> (Inl e, ls) | (Inr x, ls) \<Rightarrow> f x ls)"

abbreviation (input) stageSecurityNegotiation :: u8 where "stageSecurityNegotiation \<equiv> 0"
abbreviation (input) stageOperationalNeg :: u8 where "stageOperationalNeg \<equiv> 1"
abbreviation (input) stageFullFeaturePhase :: u8 where "stageFullFeaturePhase \<equiv> 3"

definition loginRequest :: "loginState \<Rightarrow> bytes \<Rightarrow> bool \<Rightarrow> u8 \<Rightarrow> u8 \<Rightarrow> LoginReq" where
  "loginRequest ls data transit csg nsg =
     \<lparr>lq_Header = zeroHeader\<lparr>Final := True, DataSegmentLen := of_nat (length data)\<rparr>,
      lq_Transit = transit, lq_Continue = False, lq_CSG = csg, lq_NSG = nsg,
      lq_VersionMax = 0x00, lq_VersionMin = 0x00, lq_ISID = ls_isid ls, lq_TSIH = ls_tsih ls,
      lq_CID = 0, lq_CmdSN = ls_cmdSN ls, lq_ExpStatSN = ls_expStatSN ls, lq_Data = data\<rparr>"

definition sendLogin :: "KeyValue list \<Rightarrow> bool \<Rightarrow> u8 \<Rightarrow> u8 \<Rightarrow> LoginResp login" where
  "sendLogin keys transit csg nsg ls =
     (let data = EncodeTextKV keys;
          req = loginRequest ls data transit csg nsg
      in case EncodePDU (PLoginReq req) of
           Inl e \<Rightarrow> (Inl (EncodeFailed e), ls)
         | Inr encoded \<Rightarrow>
             let raw = bareRaw (take BHSLength encoded) (drop BHSLength encoded);
                 n = ls_writes ls;
                 ls = ls\<lparr>ls_writes := n + 1\<rparr>
             in if ls_writeFails ls n then (Inl WriteFailed, ls)
                else
                  let ls = ls\<lparr>ls_tx := ls_tx ls @ WriteRawPDU (ls_pool ls n) raw LittleEndian\<rparr>
                  in case ReadRawPDU (ls_rx ls) False False 0 LittleEndian of
                       Inl e \<Rightarrow> (Inl (ReadFailed e), ls)
                     | Inr (respRaw, rx) \<Rightarrow>
                         let ls = ls\<lparr>ls_rx := rx\<rparr>;
                             resp = LoginResp_UnmarshalBHS (raw_BHS respRaw);
                             resp = resp\<lparr>lr_Data := raw_DataSegment respRaw\<rparr>
                         in (Inr resp, ls\<lparr>ls_expStatSN := lr_StatSN resp + 1\<rparr>))"

text \<open>The status test that follows every exchange.\<close>

definition checkStatusClass :: "LoginResp \<Rightarrow> unit login" where
  "checkStatusClass resp =
     (if lr_StatusClass resp \<noteq> 0
      then failL (LoginError (lr_StatusClass resp) (lr_StatusDetail resp)
                    (statusMessage (lr_StatusClass resp) (lr_StatusDetail resp)))
      else returnL ())"

definition exchange :: "KeyValue list \<Rightarrow> bool \<Rightarrow> u8 \<Rightarrow> u8 \<Rightarrow> LoginResp login" where
  "exchange keys transit csg nsg =
     bindL (sendLogin keys transit csg nsg) (\<lambda>resp. bindL (checkStatusClass resp) (\<lambda>_. returnL resp))"

section \<open>The stages\<close>

definition securityKeys :: "loginConfig \<Rightarrow> string \<Rightarrow> KeyValue list" where
  "securityKeys cfg method =
     [KV ''InitiatorName'' (lc_initiatorName cfg), KV ''SessionType'' (lc_sessionType cfg), KV ''AuthMethod'' method]
     @ (if lc_targetName cfg \<noteq> '''' then [KV ''TargetName'' (lc_targetName cfg)] else [])"

text \<open>A response that skips the operational stage resets the parameters.\<close>

definition noteFullFeature :: "LoginResp \<Rightarrow> unit login" where
  "noteFullFeature resp ls =
     (if lr_Transit resp \<and> lr_NSG resp = stageFullFeaturePhase
      then (Inr (), ls\<lparr>ls_params := Defaults\<lparr>np_TSIH := lr_TSIH resp, np_TargetName := lc_targetName (ls_cfg ls)\<rparr>\<rparr>)
      else (Inr (), ls))"

definition doCHAP :: "chapState \<Rightarrow> unit login" where
  "doCHAP chap ls =
     bindL (exchange (securityKeys (ls_cfg ls) ''CHAP'') False stageSecurityNegotiation stageSecurityNegotiation) (\<lambda>_.
     bindL (exchange [KV ''CHAP_A'' ''5''] False stageSecurityNegotiation stageSecurityNegotiation) (\<lambda>resp.
       let respKeys = kvToMap (DecodeTextKV (lr_Data resp)) in
       (case processChallenge chap respKeys of
          Inl e \<Rightarrow> failL (ChapFailed e)
        | Inr chapResp \<Rightarrow>
            bindL (exchange (ls_mapOrder ls chapResp) True stageSecurityNegotiation stageOperationalNeg) (\<lambda>resp.
              let mutualKeys = kvToMap (DecodeTextKV (lr_Data resp)) in
              if cs_isMutual chap
              then (case verifyMutualResponse chap mutualKeys of
                      Some e \<Rightarrow> failL (MutualChapFailed e)
                    | None \<Rightarrow> noteFullFeature resp)
              else noteFullFeature resp)))) ls"

definition doSecurityNegotiation :: "unit login" where
  "doSecurityNegotiation ls =
     (case ls_chap ls of
        None \<Rightarrow>
          bindL (exchange (securityKeys (ls_cfg ls) ''None'') True stageSecurityNegotiation stageOperationalNeg)
            noteFullFeature ls
      | Some chap \<Rightarrow> doCHAP chap ls)"

definition doOperationalNegotiation :: "unit login" where
  "doOperationalNegotiation ls =
     (let ls = ls\<lparr>ls_params := Defaults\<rparr>;
          cfg = ls_cfg ls;
          keys = buildInitiatorKeys (lc_headerDigest cfg) (lc_dataDigest cfg) (lc_operationalOverrides cfg)
      in bindL (exchange keys True stageOperationalNeg stageFullFeaturePhase) (\<lambda>resp ls.
           case operationalParams keys (lr_Data resp) of
             Inl e \<Rightarrow> (Inl (NegotiateFailed e), ls)
           | Inr params \<Rightarrow>
               (Inr (), ls\<lparr>ls_params := params\<lparr>np_TSIH := lr_TSIH resp, np_TargetName := lc_targetName cfg\<rparr>\<rparr>)) ls)"

definition runLogin :: "unit login" where
  "runLogin = bindL doSecurityNegotiation (\<lambda>_. doOperationalNegotiation)"

section \<open>Login\<close>

record Conn =
  cn_digestHeader :: bool
  cn_digestData :: bool
  cn_maxRecvDSL :: u32

text \<open>What the environment supplies: the received bytes, failures, random bytes and map order.\<close>

record LoginEnv =
  le_rx :: bytes
  le_writeFails :: "nat \<Rightarrow> bool"
  le_pool :: "nat \<Rightarrow> bytes"
  le_mapOrder :: "KeyValue list \<Rightarrow> KeyValue list"
  le_randomISID :: "bytes option"
  le_randomCHAP :: "(u8 \<times> bytes) option"

definition chooseISID :: "LoginEnv \<Rightarrow> bytes \<Rightarrow> bytes option" where
  "chooseISID env isid =
     (if isid = replicate 6 0 then map_option (\<lambda>r. 0x40 # r) (le_randomISID env) else Some isid)"

definition zeroParams :: NegotiatedParams where
  "zeroParams = \<lparr>np_HeaderDigest = False, np_DataDigest = False, np_MaxConnections = 0,
     np_InitialR2T = False, np_ImmediateData = False, np_MaxRecvDataSegmentLength = 0,
     np_MaxBurstLength = 0, np_FirstBurstLength = 0, np_DefaultTime2Wait = 0,
     np_DefaultTime2Retain = 0, np_MaxOutstandingR2T = 0, np_DataPDUInOrder = False,
     np_DataSequenceInOrder = False, np_ErrorRecoveryLevel = 0, np_TargetName = '''', np_TSIH = 0,
     np_ISID = replicate 6 0, np_CmdSN = 0, np_ExpStatSN = 0\<rparr>"

definition initLogin :: "LoginEnv \<Rightarrow> loginConfig \<Rightarrow> bytes \<Rightarrow> chapState option \<Rightarrow> loginState" where
  "initLogin env cfg isid chap =
     \<lparr>ls_rx = le_rx env, ls_tx = [], ls_writes = 0, ls_writeFails = le_writeFails env, ls_pool = le_pool env,
      ls_mapOrder = le_mapOrder env, ls_cfg = cfg, ls_params = zeroParams, ls_chap = chap, ls_cmdSN = 1,
      ls_expStatSN = 0, ls_tsih = lc_tsih cfg, ls_isid = isid\<rparr>"

text \<open>The CHAP state when credentials are given; the outer \<open>None\<close> is a failing random source.\<close>

definition setupCHAP :: "LoginEnv \<Rightarrow> loginConfig \<Rightarrow> chapState option option" where
  "setupCHAP env cfg =
     (if lc_chapUser cfg \<noteq> ''''
      then map_option Some (newCHAPState (lc_chapUser cfg) (lc_chapSecret cfg) (lc_mutualCHAP cfg)
             (lc_targetSecret cfg) (le_randomCHAP env))
      else Some None)"

text \<open>The parameters, the connection's settings and the bytes sent.\<close>

definition Login :: "LoginEnv \<Rightarrow> LoginOption list \<Rightarrow> (LoginFailure + NegotiatedParams \<times> Conn) \<times> bytes" where
  "Login env opts =
     (let cfg = foldl (\<lambda>c o'. o' c) defaultLoginConfig opts
      in case chooseISID env (lc_isid cfg) of
           None \<Rightarrow> (Inl GenerateISID, [])
         | Some isid \<Rightarrow>
             let cfg = cfg\<lparr>lc_isid := isid\<rparr>;
                 chap = setupCHAP env cfg
             in case chap of
                  None \<Rightarrow> (Inl ChapInit, [])
                | Some chap \<Rightarrow>
                    (case runLogin (initLogin env cfg isid chap) of
                       (Inl e, ls) \<Rightarrow> (Inl e, ls_tx ls)
                     | (Inr _, ls) \<Rightarrow>
                         let p = ls_params ls;
                             conn = \<lparr>cn_digestHeader = np_HeaderDigest p, cn_digestData = np_DataDigest p,
                                     cn_maxRecvDSL = np_MaxRecvDataSegmentLength p\<rparr>;
                             p = p\<lparr>np_CmdSN := ls_cmdSN ls, np_ExpStatSN := ls_expStatSN ls, np_ISID := ls_isid ls\<rparr>
                         in (Inr (p, conn), ls_tx ls)))"

section \<open>One exchange on the wire\<close>

definition request_ok :: "loginState \<Rightarrow> KeyValue list \<Rightarrow> u8 \<Rightarrow> u8 \<Rightarrow> bool" where
  "request_ok ls keys csg nsg \<longleftrightarrow> length (EncodeTextKV keys) \<le> 2 ^ 24 - 4 \<and> length (ls_isid ls) = 6 \<and> unat csg < 4 \<and> unat nsg < 4"

definition reply_ok :: "LoginResp \<Rightarrow> bool" where
  "reply_ok resp \<longleftrightarrow> consistent (PLoginResp resp)"

definition replyFrame :: "LoginResp \<Rightarrow> bytes" where
  "replyFrame resp = (case LoginResp_MarshalBHS resp of
     Inr b \<Rightarrow> wireLayout (bareRaw b (lr_Data resp)) LittleEndian | Inl _ \<Rightarrow> [])"

lemma loginRequest_consistent:
  "request_ok ls keys csg nsg \<Longrightarrow> consistent (PLoginReq (loginRequest ls (EncodeTextKV keys) t csg nsg))"
  by (simp add: request_ok_def consistent_def loginRequest_def wf_LoginReq_def wf_Header_def zeroHeader_def
      unat_of_nat_u32 word_le_nat_alt)

lemma padding_aligned: "length d < 2 ^ 24 \<Longrightarrow> padding (d @ padding d) = []"
proof -
  assume l: "length d < 2 ^ 24"
  have p: "length (padding d) = (4 - length d mod 4) mod 4"
    using l by (simp add: padding_def unat_PadLen unat_of_nat_u32)
  then have "(length d + length (padding d)) mod 4 = 0" using pad_aligned [of "length d"] by simp
  moreover have "length d + length (padding d) < 2 ^ 32" using l p by (simp add: less_imp_le)
  ultimately have "unat (PadLen (of_nat (length (d @ padding d)))) = 0"
    by (simp add: unat_PadLen unat_of_nat_u32 del: of_nat_add)
  then show ?thesis by (simp add: padding_def)
qed

lemma wireLayout_padded:
  assumes "length d < 2 ^ 24"
  shows "wireLayout (bareRaw b (d @ padding d)) bo = wireLayout (bareRaw b d) bo"
proof -
  have "padding [] = []" by (simp add: padding_def PadLen_def)
  then show ?thesis using padding_aligned [OF assms] by (simp add: wireLayout_def bareRaw_def)
qed

lemma sendLogin_sends:
  assumes "request_ok ls keys csg nsg" "\<not> ls_writeFails ls (ls_writes ls)"
  shows "\<exists>b. LoginReq_MarshalBHS (loginRequest ls (EncodeTextKV keys) t csg nsg) = Inr b \<and>
    unstamped (bareRaw b (EncodeTextKV keys)) \<and>
    DecodeBHS b = Inr (norm_PDU (PLoginReq (loginRequest ls (EncodeTextKV keys) t csg nsg))) \<and>
    sendLogin keys t csg nsg ls =
     (let ls = ls\<lparr>ls_writes := ls_writes ls + 1,
                  ls_tx := ls_tx ls @ wireLayout (bareRaw b (EncodeTextKV keys)) LittleEndian\<rparr>
      in case ReadRawPDU (ls_rx ls) False False 0 LittleEndian of
           Inl e \<Rightarrow> (Inl (ReadFailed e), ls)
         | Inr (respRaw, rx) \<Rightarrow>
             let resp = (LoginResp_UnmarshalBHS (raw_BHS respRaw))\<lparr>lr_Data := raw_DataSegment respRaw\<rparr>
             in (Inr resp, ls\<lparr>ls_rx := rx, ls_expStatSN := lr_StatSN resp + 1\<rparr>))"
proof -
  let ?d = "EncodeTextKV keys" and ?req = "loginRequest ls (EncodeTextKV keys) t csg nsg"
  have c: "consistent (PLoginReq ?req)" by (rule loginRequest_consistent [OF assms(1)])
  obtain b where b: "MarshalBHS (PLoginReq ?req) = Inr b" "unstamped (bareRaw b ?d)"
    "DecodeBHS b = Inr (norm_PDU (PLoginReq ?req))"
    using frame_roundtrip [OF c] by (auto simp: loginRequest_def)
  have l: "length ?d < 2 ^ 24" using assms(1) by (simp add: request_ok_def)
  have lb: "length b = 48" using b(2) by (simp add: unstamped_def shaped_def bareRaw_def)
  have "EncodePDU (PLoginReq ?req) = Inr (b @ ?d @ padding ?d)"
    using EncodePDU_layout [of "PLoginReq ?req" b] b(1) c
    by (simp add: consistent_def padding_def loginRequest_def)
  moreover have "WriteRawPDU pool (bareRaw b (?d @ padding ?d)) LittleEndian = wireLayout (bareRaw b ?d) LittleEndian" for pool
  proof -
    have "length (?d @ padding ?d) < 2 ^ 24"
    proof -
      have "length (padding ?d) < 4" by (simp add: padding_def unat_PadLen_less)
      then show ?thesis using assms(1) by (simp add: request_ok_def)
    qed
    then have "wf_Raw (bareRaw b (?d @ padding ?d))" using lb by (simp add: wf_Raw_def bareRaw_def)
    then show ?thesis by (simp add: WriteRawPDU_wire wireLayout_padded [OF l])
  qed
  ultimately have "sendLogin keys t csg nsg ls =
     (let ls = ls\<lparr>ls_writes := ls_writes ls + 1,
                  ls_tx := ls_tx ls @ wireLayout (bareRaw b (EncodeTextKV keys)) LittleEndian\<rparr>
      in case ReadRawPDU (ls_rx ls) False False 0 LittleEndian of
           Inl e \<Rightarrow> (Inl (ReadFailed e), ls)
         | Inr (respRaw, rx) \<Rightarrow>
             let resp = (LoginResp_UnmarshalBHS (raw_BHS respRaw))\<lparr>lr_Data := raw_DataSegment respRaw\<rparr>
             in (Inr resp, ls\<lparr>ls_rx := rx, ls_expStatSN := lr_StatSN resp + 1\<rparr>))"
    using assms(2) lb by (simp add: sendLogin_def Let_def cong: sum.case_cong prod.case_cong)
  then show ?thesis using b by auto
qed

lemma reply_received:
  assumes "reply_ok resp"
  shows "\<exists>raw. ReadRawPDU (replyFrame resp @ rest) False False 0 LittleEndian = Inr (raw, rest) \<and>
    (LoginResp_UnmarshalBHS (raw_BHS raw))\<lparr>lr_Data := raw_DataSegment raw\<rparr> = (norm_LoginResp resp)\<lparr>lr_Data := lr_Data resp\<rparr>"
proof -
  have c: "consistent (PLoginResp resp)" using assms by (simp add: reply_ok_def)
  obtain b where b: "LoginResp_MarshalBHS resp = Inr b" "unstamped (bareRaw b (lr_Data resp))"
    using frame_roundtrip [OF c] by auto
  have u: "LoginResp_UnmarshalBHS b = norm_LoginResp resp"
    using loginresp.marshal_ok [OF _ b(1)] c by (simp add: consistent_def)
  have "stampDigests False False p = p" for p by (simp add: stampDigests_def Let_def)
  then have "verifyDigests (bareRaw b (lr_Data resp)) (length (raw_DataSegment (bareRaw b (lr_Data resp)))) False False = None"
    by (simp add: verifyDigests_def)
  then show ?thesis
    using b(2) u by (simp add: replyFrame_def b(1) unstamped_def ReadRawPDU_wire) (simp add: bareRaw_def)
qed

lemma sendLogin_reply:
  assumes "request_ok ls keys csg nsg" "\<not> ls_writeFails ls (ls_writes ls)" "ls_rx ls = replyFrame resp @ rest" "reply_ok resp"
  shows "\<exists>frame. sendLogin keys t csg nsg ls = (Inr ((norm_LoginResp resp)\<lparr>lr_Data := lr_Data resp\<rparr>),
    ls\<lparr>ls_writes := ls_writes ls + 1, ls_tx := ls_tx ls @ frame, ls_rx := rest, ls_expStatSN := lr_StatSN resp + 1\<rparr>)"
proof -
  obtain raw where r: "ReadRawPDU (replyFrame resp @ rest) False False 0 LittleEndian = Inr (raw, rest)"
    "(LoginResp_UnmarshalBHS (raw_BHS raw))\<lparr>lr_Data := raw_DataSegment raw\<rparr> = (norm_LoginResp resp)\<lparr>lr_Data := lr_Data resp\<rparr>"
    using reply_received [OF assms(4)] by blast
  obtain b where "sendLogin keys t csg nsg ls =
     (let ls = ls\<lparr>ls_writes := ls_writes ls + 1,
                  ls_tx := ls_tx ls @ wireLayout (bareRaw b (EncodeTextKV keys)) LittleEndian\<rparr>
      in case ReadRawPDU (ls_rx ls) False False 0 LittleEndian of
           Inl e \<Rightarrow> (Inl (ReadFailed e), ls)
         | Inr (respRaw, rx) \<Rightarrow>
             let resp = (LoginResp_UnmarshalBHS (raw_BHS respRaw))\<lparr>lr_Data := raw_DataSegment respRaw\<rparr>
             in (Inr resp, ls\<lparr>ls_rx := rx, ls_expStatSN := lr_StatSN resp + 1\<rparr>))"
    using sendLogin_sends [OF assms(1,2)] by blast
  moreover have "lr_StatSN (LoginResp_UnmarshalBHS (raw_BHS raw)) = lr_StatSN resp"
    using arg_cong [OF r(2), of lr_StatSN] by (simp add: norm_LoginResp_def)
  ultimately have "sendLogin keys t csg nsg ls = (Inr ((norm_LoginResp resp)\<lparr>lr_Data := lr_Data resp\<rparr>),
    ls\<lparr>ls_writes := ls_writes ls + 1, ls_tx := ls_tx ls @ wireLayout (bareRaw b (EncodeTextKV keys)) LittleEndian,
       ls_rx := rest, ls_expStatSN := lr_StatSN resp + 1\<rparr>)"
    by (simp add: assms(3) r Let_def)
  then show ?thesis by blast
qed

section \<open>Composition of exchanges\<close>

lemma bindL_Inr: "bindL m f ls = (Inr y, ls2) \<longleftrightarrow> (\<exists>x ls1. m ls = (Inr x, ls1) \<and> f x ls1 = (Inr y, ls2))"
  by (cases "m ls") (auto simp: bindL_def split: sum.split)

lemma exchange_Inr: "exchange keys t csg nsg ls = (Inr resp, ls') \<longleftrightarrow>
    sendLogin keys t csg nsg ls = (Inr resp, ls') \<and> lr_StatusClass resp = 0"
  by (auto simp: exchange_def bindL_Inr checkStatusClass_def returnL_def failL_def)

lemma exchange_reply:
  assumes "request_ok ls keys csg nsg" "\<not> ls_writeFails ls (ls_writes ls)" "ls_rx ls = replyFrame resp @ rest" "reply_ok resp"
  shows "\<exists>frame. exchange keys t csg nsg ls =
    (if lr_StatusClass resp = 0 then Inr ((norm_LoginResp resp)\<lparr>lr_Data := lr_Data resp\<rparr>)
     else Inl (LoginError (lr_StatusClass resp) (lr_StatusDetail resp)
                 (statusMessage (lr_StatusClass resp) (lr_StatusDetail resp))),
    ls\<lparr>ls_writes := ls_writes ls + 1, ls_tx := ls_tx ls @ frame, ls_rx := rest, ls_expStatSN := lr_StatSN resp + 1\<rparr>)"
proof -
  obtain frame where "sendLogin keys t csg nsg ls = (Inr ((norm_LoginResp resp)\<lparr>lr_Data := lr_Data resp\<rparr>),
    ls\<lparr>ls_writes := ls_writes ls + 1, ls_tx := ls_tx ls @ frame, ls_rx := rest, ls_expStatSN := lr_StatSN resp + 1\<rparr>)"
    using sendLogin_reply [OF assms] by blast
  then show ?thesis
    by (intro exI [of _ frame]) (simp add: exchange_def bindL_def checkStatusClass_def failL_def returnL_def norm_LoginResp_def)
qed

lemma ReadFull_suffix: "ReadFull n s = Inr (a, r) \<Longrightarrow> s = a @ r"
  by (auto simp: ReadFull_def split: if_splits)

lemma ReadRawPDU_suffix: "ReadRawPDU s dh dd mx bo = Inr (raw, rest) \<Longrightarrow> \<exists>pre. s = pre @ rest"
  by (auto simp: ReadRawPDU_def Let_def split: sum.splits prod.splits if_splits option.splits
      dest!: ReadFull_suffix)

lemma sendLogin_Inr:
  assumes "sendLogin keys t csg nsg ls = (Inr resp, ls')"
  shows "\<exists>raw. ReadRawPDU (ls_rx ls) False False 0 LittleEndian = Inr (raw, ls_rx ls') \<and>
    resp = (LoginResp_UnmarshalBHS (raw_BHS raw))\<lparr>lr_Data := raw_DataSegment raw\<rparr> \<and>
    ls_expStatSN ls' = lr_StatSN resp + 1 \<and> ls_cmdSN ls' = ls_cmdSN ls \<and> ls_isid ls' = ls_isid ls \<and>
    ls_cfg ls' = ls_cfg ls \<and> ls_chap ls' = ls_chap ls \<and> (\<exists>pre. ls_rx ls = pre @ ls_rx ls')"
  using assms ReadRawPDU_suffix
  by (fastforce simp: sendLogin_def Let_def split: sum.splits if_splits prod.splits)

lemma noteFullFeature_keeps:
  "noteFullFeature resp ls = (Inr u, ls') \<Longrightarrow> ls_rx ls' = ls_rx ls \<and> ls_cmdSN ls' = ls_cmdSN ls \<and> ls_isid ls' = ls_isid ls"
  by (auto simp: noteFullFeature_def split: if_splits)

lemma doCHAP_Inr:
  assumes "doCHAP chap ls = (Inr u, ls')"
  obtains r1 l1 r2 l2 a r3 l3 where
    "sendLogin (securityKeys (ls_cfg ls) ''CHAP'') False stageSecurityNegotiation stageSecurityNegotiation ls = (Inr r1, l1)"
    "sendLogin [KV ''CHAP_A'' ''5''] False stageSecurityNegotiation stageSecurityNegotiation l1 = (Inr r2, l2)"
    "processChallenge chap (kvToMap (DecodeTextKV (lr_Data r2))) = Inr a"
    "sendLogin (ls_mapOrder ls a) True stageSecurityNegotiation stageOperationalNeg l2 = (Inr r3, l3)"
    "cs_isMutual chap \<Longrightarrow> verifyMutualResponse chap (kvToMap (DecodeTextKV (lr_Data r3))) = None"
    "noteFullFeature r3 l3 = (Inr u, ls')"
proof -
  from assms obtain r1 l1 r2 l2 where
    x: "sendLogin (securityKeys (ls_cfg ls) ''CHAP'') False stageSecurityNegotiation stageSecurityNegotiation ls = (Inr r1, l1)"
      "sendLogin [KV ''CHAP_A'' ''5''] False stageSecurityNegotiation stageSecurityNegotiation l1 = (Inr r2, l2)"
    and rest: "(case processChallenge chap (kvToMap (DecodeTextKV (lr_Data r2))) of
          Inl e \<Rightarrow> failL (ChapFailed e)
        | Inr chapResp \<Rightarrow>
            bindL (exchange (ls_mapOrder ls chapResp) True stageSecurityNegotiation stageOperationalNeg) (\<lambda>resp.
              let mutualKeys = kvToMap (DecodeTextKV (lr_Data resp)) in
              if cs_isMutual chap
              then (case verifyMutualResponse chap mutualKeys of
                      Some e \<Rightarrow> failL (MutualChapFailed e)
                    | None \<Rightarrow> noteFullFeature resp)
              else noteFullFeature resp)) l2 = (Inr u, ls')"
    unfolding doCHAP_def bindL_Inr exchange_Inr Let_def by blast
  from rest obtain a where a: "processChallenge chap (kvToMap (DecodeTextKV (lr_Data r2))) = Inr a"
    by (cases "processChallenge chap (kvToMap (DecodeTextKV (lr_Data r2)))") (auto simp: failL_def)
  from rest a obtain r3 l3 where
    y: "sendLogin (ls_mapOrder ls a) True stageSecurityNegotiation stageOperationalNeg l2 = (Inr r3, l3)"
    and f: "(if cs_isMutual chap
              then (case verifyMutualResponse chap (kvToMap (DecodeTextKV (lr_Data r3))) of
                      Some e \<Rightarrow> failL (MutualChapFailed e)
                    | None \<Rightarrow> noteFullFeature r3)
              else noteFullFeature r3) l3 = (Inr u, ls')"
    by (auto simp: bindL_Inr exchange_Inr Let_def)
  from f have "cs_isMutual chap \<Longrightarrow> verifyMutualResponse chap (kvToMap (DecodeTextKV (lr_Data r3))) = None"
    "noteFullFeature r3 l3 = (Inr u, ls')"
    by (auto simp: failL_def split: if_splits option.splits)
  then show thesis using that x a y by blast
qed

lemma doCHAP_verified:
  assumes "doCHAP chap ls = (Inr u, ls')" "cs_isMutual chap"
  shows "\<exists>pre s raw rest. ls_rx ls = pre @ s \<and> ReadRawPDU s False False 0 LittleEndian = Inr (raw, rest)
    \<and> verifyMutualResponse chap (kvToMap (DecodeTextKV (raw_DataSegment raw))) = None"
proof -
  from assms(1) show ?thesis
  proof (rule doCHAP_Inr)
    fix r1 l1 r2 l2 a r3 l3
    assume x: "sendLogin (securityKeys (ls_cfg ls) ''CHAP'') False stageSecurityNegotiation stageSecurityNegotiation ls = (Inr r1, l1)"
      "sendLogin [KV ''CHAP_A'' ''5''] False stageSecurityNegotiation stageSecurityNegotiation l1 = (Inr r2, l2)"
      "sendLogin (ls_mapOrder ls a) True stageSecurityNegotiation stageOperationalNeg l2 = (Inr r3, l3)"
      and v: "cs_isMutual chap \<Longrightarrow> verifyMutualResponse chap (kvToMap (DecodeTextKV (lr_Data r3))) = None"
    obtain raw p1 p2 where "ReadRawPDU (ls_rx l2) False False 0 LittleEndian = Inr (raw, ls_rx l3)"
      "lr_Data r3 = raw_DataSegment raw" "ls_rx ls = p1 @ ls_rx l1" "ls_rx l1 = p2 @ ls_rx l2"
      using sendLogin_Inr [OF x(1)] sendLogin_Inr [OF x(2)] sendLogin_Inr [OF x(3)] by auto
    then show ?thesis using v assms(2) by (intro exI [of _ "p1 @ p2"] exI [of _ "ls_rx l2"]) auto
  qed
qed

lemma doCHAP_keeps:
  assumes "doCHAP chap ls = (Inr u, ls')"
  shows "ls_cmdSN ls' = ls_cmdSN ls \<and> ls_isid ls' = ls_isid ls"
  using assms by (rule doCHAP_Inr) (auto dest!: sendLogin_Inr noteFullFeature_keeps)

lemma doSecurityNegotiation_keeps:
  "doSecurityNegotiation ls = (Inr u, ls') \<Longrightarrow> ls_cmdSN ls' = ls_cmdSN ls \<and> ls_isid ls' = ls_isid ls"
  by (auto simp: doSecurityNegotiation_def bindL_Inr exchange_Inr
      dest!: sendLogin_Inr noteFullFeature_keeps doCHAP_keeps split: option.splits)

lemma doOperationalNegotiation_params:
  assumes "doOperationalNegotiation ls = (Inr u, ls')"
  shows "params_ok (ls_params ls') \<and> np_FirstBurstLength (ls_params ls') \<le> np_MaxBurstLength (ls_params ls')
    \<and> ls_cmdSN ls' = ls_cmdSN ls \<and> ls_isid ls' = ls_isid ls"
proof -
  define keys where "keys = buildInitiatorKeys (lc_headerDigest (ls_cfg ls)) (lc_dataDigest (ls_cfg ls))
     (lc_operationalOverrides (ls_cfg ls))"
  from assms obtain resp l1 where
    s: "sendLogin keys True stageOperationalNeg stageFullFeaturePhase (ls\<lparr>ls_params := Defaults\<rparr>) = (Inr resp, l1)"
    and c: "(case operationalParams keys (lr_Data resp) of
             Inl e \<Rightarrow> (Inl (NegotiateFailed e), l1)
           | Inr params \<Rightarrow> (Inr (), l1\<lparr>ls_params := params\<lparr>np_TSIH := lr_TSIH resp,
                np_TargetName := lc_targetName (ls_cfg ls)\<rparr>\<rparr>)) = (Inr u, ls')"
    by (auto simp: doOperationalNegotiation_def Let_def bindL_Inr exchange_Inr keys_def cong: sum.case_cong)
  obtain p where o: "operationalParams keys (lr_Data resp) = Inr p"
    and l: "ls' = l1\<lparr>ls_params := p\<lparr>np_TSIH := lr_TSIH resp, np_TargetName := lc_targetName (ls_cfg ls)\<rparr>\<rparr>"
    using c by (cases "operationalParams keys (lr_Data resp)") auto
  have "ls_cmdSN l1 = ls_cmdSN ls \<and> ls_isid l1 = ls_isid ls" using sendLogin_Inr [OF s] by auto
  moreover have "params_ok p \<and> np_FirstBurstLength p \<le> np_MaxBurstLength p" by (rule operationalParams_ok [OF o])
  ultimately show ?thesis by (simp add: l params_ok_def)
qed

text \<open>The configuration that a list of options gives.\<close>

abbreviation loginCfg :: "LoginOption list \<Rightarrow> loginConfig" where
  "loginCfg opts \<equiv> foldl (\<lambda>c o'. o' c) defaultLoginConfig opts"

lemma setupCHAP_isid [simp]: "setupCHAP env (cfg\<lparr>lc_isid := isid\<rparr>) = setupCHAP env cfg"
  by (simp add: setupCHAP_def)

lemma Login_Inr:
  assumes "Login env opts = (Inr (p, conn), tx)"
  obtains isid chap u ls where
    "chooseISID env (lc_isid (loginCfg opts)) = Some isid"
    "setupCHAP env (loginCfg opts) = Some chap"
    "runLogin (initLogin env ((loginCfg opts)\<lparr>lc_isid := isid\<rparr>) isid chap) = (Inr u, ls)"
    "p = (ls_params ls)\<lparr>np_CmdSN := ls_cmdSN ls, np_ExpStatSN := ls_expStatSN ls, np_ISID := ls_isid ls\<rparr>"
    "conn = \<lparr>cn_digestHeader = np_HeaderDigest p, cn_digestData = np_DataDigest p, cn_maxRecvDSL = np_MaxRecvDataSegmentLength p\<rparr>"
    "tx = ls_tx ls"
proof -
  obtain isid where i: "chooseISID env (lc_isid (loginCfg opts)) = Some isid"
    using assms by (cases "chooseISID env (lc_isid (loginCfg opts))") (auto simp: Login_def)
  obtain chap where c: "setupCHAP env (loginCfg opts) = Some chap"
    using assms i by (cases "setupCHAP env (loginCfg opts)") (auto simp: Login_def Let_def)
  obtain r ls where r: "runLogin (initLogin env ((loginCfg opts)\<lparr>lc_isid := isid\<rparr>) isid chap) = (r, ls)"
    by fastforce
  obtain u where u: "r = Inr u"
    using assms i c r by (cases r) (auto simp: Login_def Let_def)
  have "p = (ls_params ls)\<lparr>np_CmdSN := ls_cmdSN ls, np_ExpStatSN := ls_expStatSN ls, np_ISID := ls_isid ls\<rparr>"
    "conn = \<lparr>cn_digestHeader = np_HeaderDigest p, cn_digestData = np_DataDigest p, cn_maxRecvDSL = np_MaxRecvDataSegmentLength p\<rparr>"
    "tx = ls_tx ls"
    using assms i c r u by (auto simp: Login_def Let_def)
  then show thesis using that i c r u by blast
qed

lemma runLogin_Inr:
  assumes "runLogin ls = (Inr u, ls')"
  obtains l1 where "doSecurityNegotiation ls = (Inr (), l1)" "doOperationalNegotiation l1 = (Inr u, ls')"
  using assms by (auto simp: runLogin_def bindL_Inr)

section \<open>Logins against a cooperating target\<close>

text \<open>The response as the login code sees it, and the state after an exchange.\<close>

definition got :: "LoginResp \<Rightarrow> LoginResp" where
  "got resp = (norm_LoginResp resp)\<lparr>lr_Data := lr_Data resp\<rparr>"

lemma got_sel [simp]:
  "lr_Data (got r) = lr_Data r" "lr_StatusClass (got r) = lr_StatusClass r" "lr_StatusDetail (got r) = lr_StatusDetail r"
  "lr_TSIH (got r) = lr_TSIH r" "lr_Transit (got r) = lr_Transit r" "lr_NSG (got r) = lr_NSG r"
  by (simp_all add: got_def norm_LoginResp_def)

text \<open>Nothing but the connection, the counters and the parameters changes.\<close>

definition same_login :: "loginState \<Rightarrow> loginState \<Rightarrow> bool" where
  "same_login ls ls' \<longleftrightarrow> ls_writeFails ls' = ls_writeFails ls \<and> ls_isid ls' = ls_isid ls \<and> ls_cfg ls' = ls_cfg ls
     \<and> ls_cmdSN ls' = ls_cmdSN ls \<and> ls_mapOrder ls' = ls_mapOrder ls"

definition can_send :: "loginState \<Rightarrow> bool" where
  "can_send ls \<longleftrightarrow> (\<forall>n. \<not> ls_writeFails ls n) \<and> length (ls_isid ls) = 6"

abbreviation small :: "KeyValue list \<Rightarrow> bool" where
  "small keys \<equiv> length (EncodeTextKV keys) \<le> 2 ^ 24 - 4"

lemma same_login_trans: "same_login a b \<Longrightarrow> same_login b c \<Longrightarrow> same_login a c"
  by (simp add: same_login_def)

lemma same_login_can_send: "same_login a b \<Longrightarrow> can_send a \<Longrightarrow> can_send b"
  by (simp add: same_login_def can_send_def)

lemma exchange_ok:
  assumes "can_send ls" "small keys" "unat csg < 4" "unat nsg < 4" "ls_rx ls = replyFrame r @ rest" "reply_ok r" "lr_StatusClass r = 0"
  shows "\<exists>ls'. exchange keys t csg nsg ls = (Inr (got r), ls') \<and> same_login ls ls' \<and> ls_rx ls' = rest
    \<and> ls_expStatSN ls' = lr_StatSN r + 1"
proof -
  obtain frame where "exchange keys t csg nsg ls = (Inr (got r),
      ls\<lparr>ls_writes := ls_writes ls + 1, ls_tx := ls_tx ls @ frame, ls_rx := rest, ls_expStatSN := lr_StatSN r + 1\<rparr>)"
    using exchange_reply [of ls keys csg nsg r rest t] assms by (auto simp: can_send_def request_ok_def got_def)
  then show ?thesis by (simp add: same_login_def)
qed

lemma exchange_rejected:
  assumes "can_send ls" "small keys" "unat csg < 4" "unat nsg < 4" "ls_rx ls = replyFrame r @ rest" "reply_ok r" "lr_StatusClass r \<noteq> 0"
  shows "fst (exchange keys t csg nsg ls) = Inl (LoginError (lr_StatusClass r) (lr_StatusDetail r)
                 (statusMessage (lr_StatusClass r) (lr_StatusDetail r)))"
  using exchange_reply [of ls keys csg nsg r rest t] assms by (auto simp: can_send_def request_ok_def)

lemma noteFullFeature_ok:
  "\<exists>ls'. noteFullFeature r ls = (Inr (), ls') \<and> same_login ls ls' \<and> ls_rx ls' = ls_rx ls"
  by (simp add: noteFullFeature_def same_login_def)

lemma securityKeys_isid [simp]: "securityKeys (cfg\<lparr>lc_isid := i\<rparr>) m = securityKeys cfg m"
  by (simp add: securityKeys_def)

lemma security_none_ok:
  assumes "can_send ls" "ls_chap ls = None" "small (securityKeys (ls_cfg ls) ''None'')"
    "ls_rx ls = replyFrame r @ rest" "reply_ok r" "lr_StatusClass r = 0"
  shows "\<exists>ls'. doSecurityNegotiation ls = (Inr (), ls') \<and> same_login ls ls' \<and> ls_rx ls' = rest"
proof -
  obtain l1 where l1: "exchange (securityKeys (ls_cfg ls) ''None'') True stageSecurityNegotiation stageOperationalNeg ls
      = (Inr (got r), l1)" "same_login ls l1" "ls_rx l1 = rest"
    using exchange_ok [OF assms(1,3) _ _ assms(4,5,6), of stageSecurityNegotiation stageOperationalNeg True] by auto
  then show ?thesis
    using noteFullFeature_ok [of "got r" l1]
    by (auto simp: doSecurityNegotiation_def assms(2) bindL_def l1(1) intro: same_login_trans)
qed

lemma security_chap_ok:
  assumes "can_send ls" "ls_chap ls = Some cs" "small (securityKeys (ls_cfg ls) ''CHAP'')"
    "ls_rx ls = replyFrame r1 @ replyFrame r2 @ replyFrame r3 @ rest"
    "reply_ok r1" "reply_ok r2" "reply_ok r3" "lr_StatusClass r1 = 0" "lr_StatusClass r2 = 0" "lr_StatusClass r3 = 0"
    "processChallenge cs (kvToMap (DecodeTextKV (lr_Data r2))) = Inr a" "small (ls_mapOrder ls a)"
    "cs_isMutual cs \<Longrightarrow> verifyMutualResponse cs (kvToMap (DecodeTextKV (lr_Data r3))) = None"
  shows "\<exists>ls'. doSecurityNegotiation ls = (Inr (), ls') \<and> same_login ls ls' \<and> ls_rx ls' = rest"
proof -
  have sm: "small [KV ''CHAP_A'' ''5'']" by (simp add: bytes_of_def)
  obtain l1 where l1: "exchange (securityKeys (ls_cfg ls) ''CHAP'') False stageSecurityNegotiation stageSecurityNegotiation ls
      = (Inr (got r1), l1)" "same_login ls l1" "ls_rx l1 = replyFrame r2 @ replyFrame r3 @ rest"
    using exchange_ok [OF assms(1,3) _ _ assms(4,5,8), of stageSecurityNegotiation stageSecurityNegotiation False] by auto
  have c1: "can_send l1" by (rule same_login_can_send [OF l1(2) assms(1)])
  obtain l2 where l2: "exchange [KV ''CHAP_A'' ''5''] False stageSecurityNegotiation stageSecurityNegotiation l1
      = (Inr (got r2), l2)" "same_login l1 l2" "ls_rx l2 = replyFrame r3 @ rest"
    using exchange_ok [OF c1 sm _ _ l1(3) assms(6,9), of stageSecurityNegotiation stageSecurityNegotiation False] by auto
  have c2: "can_send l2" by (rule same_login_can_send [OF l2(2) c1])
  obtain l3 where l3: "exchange (ls_mapOrder ls a) True stageSecurityNegotiation stageOperationalNeg l2
      = (Inr (got r3), l3)" "same_login l2 l3" "ls_rx l3 = rest"
    using exchange_ok [OF c2 assms(12) _ _ l2(3) assms(7,10), of stageSecurityNegotiation stageOperationalNeg True] by auto
  obtain l4 where l4: "noteFullFeature (got r3) l3 = (Inr (), l4)" "same_login l3 l4" "ls_rx l4 = rest"
    using noteFullFeature_ok [of "got r3" l3] l3(3) by auto
  have "doCHAP cs ls = noteFullFeature (got r3) l3"
    using assms(13) by (auto simp: doCHAP_def bindL_def l1(1) l2(1) l3(1) assms(11) Let_def)
  then show ?thesis
    using l4 l3(2) l2(2) l1(2) by (auto simp: doSecurityNegotiation_def assms(2) intro: same_login_trans)
qed

lemma operational_ok:
  assumes "can_send ls" "ls_rx ls = replyFrame r @ rest" "reply_ok r" "lr_StatusClass r = 0"
    "keys = buildInitiatorKeys (lc_headerDigest (ls_cfg ls)) (lc_dataDigest (ls_cfg ls)) (lc_operationalOverrides (ls_cfg ls))"
    "small keys" "operationalParams keys (lr_Data r) = Inr p"
  shows "\<exists>ls'. doOperationalNegotiation ls = (Inr (), ls') \<and> same_login ls ls' \<and> ls_expStatSN ls' = lr_StatSN r + 1
    \<and> ls_params ls' = p\<lparr>np_TSIH := lr_TSIH r, np_TargetName := lc_targetName (ls_cfg ls)\<rparr>"
proof -
  let ?l = "ls\<lparr>ls_params := Defaults\<rparr>"
  have c: "can_send ?l" using assms(1) by (simp add: can_send_def)
  have rx: "ls_rx ?l = replyFrame r @ rest" using assms(2) by simp
  obtain l1 where l1: "exchange keys True stageOperationalNeg stageFullFeaturePhase ?l
      = (Inr (got r), l1)" "same_login ?l l1" "ls_expStatSN l1 = lr_StatSN r + 1"
    using exchange_ok [OF c assms(6) _ _ rx assms(3,4), of stageOperationalNeg stageFullFeaturePhase True] by auto
  have "doOperationalNegotiation ls = (Inr (), l1\<lparr>ls_params := p\<lparr>np_TSIH := lr_TSIH r, np_TargetName := lc_targetName (ls_cfg ls)\<rparr>\<rparr>)"
    using l1(1) assms(7) by (simp add: doOperationalNegotiation_def Let_def bindL_def flip: assms(5))
  then show ?thesis using l1(2,3) by (auto simp: same_login_def)
qed

text \<open>What a login returns after a successful operational stage.\<close>

lemma Login_ok:
  assumes "chooseISID env (lc_isid (loginCfg opts)) = Some isid" "length isid = 6" "\<forall>n. \<not> le_writeFails env n"
    "setupCHAP env (loginCfg opts) = Some chap"
    "doSecurityNegotiation (initLogin env ((loginCfg opts)\<lparr>lc_isid := isid\<rparr>) isid chap) = (Inr (), l1)"
    "same_login (initLogin env ((loginCfg opts)\<lparr>lc_isid := isid\<rparr>) isid chap) l1"
    "ls_rx l1 = replyFrame r @ rest" "reply_ok r" "lr_StatusClass r = 0"
    "keys = buildInitiatorKeys (lc_headerDigest (loginCfg opts)) (lc_dataDigest (loginCfg opts))
       (lc_operationalOverrides (loginCfg opts))"
    "small keys" "operationalParams keys (lr_Data r) = Inr p"
  shows "\<exists>conn tx. Login env opts = (Inr (p\<lparr>np_TSIH := lr_TSIH r, np_TargetName := lc_targetName (loginCfg opts),
      np_CmdSN := 1, np_ExpStatSN := lr_StatSN r + 1, np_ISID := isid\<rparr>, conn), tx)"
proof -
  have s: "ls_cfg l1 = (loginCfg opts)\<lparr>lc_isid := isid\<rparr>" "ls_cmdSN l1 = 1" "ls_isid l1 = isid" "can_send l1"
    using assms(2,3,6) by (simp_all add: same_login_def initLogin_def can_send_def)
  obtain l2 where l2: "doOperationalNegotiation l1 = (Inr (), l2)" "same_login l1 l2" "ls_expStatSN l2 = lr_StatSN r + 1"
    "ls_params l2 = p\<lparr>np_TSIH := lr_TSIH r, np_TargetName := lc_targetName (loginCfg opts)\<rparr>"
    using operational_ok [OF s(4) assms(7,8,9) _ assms(11,12)] s(1) assms(10) by auto
  have "runLogin (initLogin env ((loginCfg opts)\<lparr>lc_isid := isid\<rparr>) isid chap) = (Inr (), l2)"
    using assms(5) l2(1) by (simp add: runLogin_def bindL_def)
  then show ?thesis
    using assms(1,4) l2 s by (simp add: Login_def Let_def same_login_def)
qed

lemma login_ok:
  assumes "lc_chapUser (loginCfg opts) = ''''" "chooseISID env (lc_isid (loginCfg opts)) = Some isid" "length isid = 6"
    "\<forall>n. \<not> le_writeFails env n" "le_rx env = replyFrame r1 @ replyFrame r2 @ rest"
    "reply_ok r1" "reply_ok r2" "lr_StatusClass r1 = 0" "lr_StatusClass r2 = 0"
    "small (securityKeys (loginCfg opts) ''None'')"
    "keys = buildInitiatorKeys (lc_headerDigest (loginCfg opts)) (lc_dataDigest (loginCfg opts))
       (lc_operationalOverrides (loginCfg opts))"
    "small keys" "operationalParams keys (lr_Data r2) = Inr p"
  shows "\<exists>conn tx. Login env opts = (Inr (p\<lparr>np_TSIH := lr_TSIH r2, np_TargetName := lc_targetName (loginCfg opts),
      np_CmdSN := 1, np_ExpStatSN := lr_StatSN r2 + 1, np_ISID := isid\<rparr>, conn), tx)"
proof -
  let ?l = "initLogin env ((loginCfg opts)\<lparr>lc_isid := isid\<rparr>) isid None"
  have c: "can_send ?l" "ls_chap ?l = None" "small (securityKeys (ls_cfg ?l) ''None'')"
    "ls_rx ?l = replyFrame r1 @ replyFrame r2 @ rest"
    using assms(3,4,5,10) by (simp_all add: can_send_def initLogin_def)
  obtain l1 where l1: "doSecurityNegotiation ?l = (Inr (), l1)" "same_login ?l l1" "ls_rx l1 = replyFrame r2 @ rest"
    using security_none_ok [OF c assms(6,8)] by blast
  show ?thesis
    by (rule Login_ok [OF assms(2,3,4) _ l1 assms(7,9,11,12,13)]) (simp add: setupCHAP_def assms(1))
qed

lemma chap_login_ok:
  assumes "setupCHAP env (loginCfg opts) = Some (Some cs)"
    "chooseISID env (lc_isid (loginCfg opts)) = Some isid" "length isid = 6" "\<forall>n. \<not> le_writeFails env n"
    "le_rx env = replyFrame r1 @ replyFrame r2 @ replyFrame r3 @ replyFrame r4 @ rest"
    "reply_ok r1" "reply_ok r2" "reply_ok r3" "reply_ok r4"
    "lr_StatusClass r1 = 0" "lr_StatusClass r2 = 0" "lr_StatusClass r3 = 0" "lr_StatusClass r4 = 0"
    "processChallenge cs (kvToMap (DecodeTextKV (lr_Data r2))) = Inr a"
    "cs_isMutual cs \<Longrightarrow> verifyMutualResponse cs (kvToMap (DecodeTextKV (lr_Data r3))) = None"
    "small (securityKeys (loginCfg opts) ''CHAP'')" "small (le_mapOrder env a)"
    "keys = buildInitiatorKeys (lc_headerDigest (loginCfg opts)) (lc_dataDigest (loginCfg opts))
       (lc_operationalOverrides (loginCfg opts))"
    "small keys" "operationalParams keys (lr_Data r4) = Inr p"
  shows "\<exists>conn tx. Login env opts = (Inr (p\<lparr>np_TSIH := lr_TSIH r4, np_TargetName := lc_targetName (loginCfg opts),
      np_CmdSN := 1, np_ExpStatSN := lr_StatSN r4 + 1, np_ISID := isid\<rparr>, conn), tx)"
proof -
  let ?l = "initLogin env ((loginCfg opts)\<lparr>lc_isid := isid\<rparr>) isid (Some cs)"
  have c: "can_send ?l" "ls_chap ?l = Some cs" "small (securityKeys (ls_cfg ?l) ''CHAP'')"
    "ls_rx ?l = replyFrame r1 @ replyFrame r2 @ replyFrame r3 @ replyFrame r4 @ rest" "small (ls_mapOrder ?l a)"
    using assms(3,4,5,16,17) by (simp_all add: can_send_def initLogin_def)
  obtain l1 where l1: "doSecurityNegotiation ?l = (Inr (), l1)" "same_login ?l l1" "ls_rx l1 = replyFrame r4 @ rest"
    using security_chap_ok [OF c(1-4) assms(6-8,10-12,14) c(5) assms(15)] by blast
  show ?thesis
    by (rule Login_ok [OF assms(2,3,4,1) l1 assms(9,13,18,19,20)])
qed

section \<open>Properties\<close>

text \<open>C33. One login request on the wire: it is a single frame that a peer without digests reads back as a
  Login Request with the sequence numbers, session identifiers and stages of the login state, and
  whose data segment decodes to the proposed keys.\<close>

theorem login_request_on_wire:
  assumes "request_ok ls keys csg nsg" "\<not> ls_writeFails ls (ls_writes ls)" "list_all wf_KV keys"
  shows "\<exists>b frame. ls_tx (snd (sendLogin keys t csg nsg ls)) = ls_tx ls @ frame \<and>
    (\<forall>rest mx. ReadRawPDU (frame @ rest) False False mx LittleEndian = Inr (bareRaw b (EncodeTextKV keys), rest)) \<and>
    DecodeBHS b = Inr (norm_PDU (PLoginReq (loginRequest ls (EncodeTextKV keys) t csg nsg))) \<and>
    DecodeTextKV (EncodeTextKV keys) = keys"
proof -
  obtain b where b: "unstamped (bareRaw b (EncodeTextKV keys))"
      "DecodeBHS b = Inr (norm_PDU (PLoginReq (loginRequest ls (EncodeTextKV keys) t csg nsg)))"
    and s: "sendLogin keys t csg nsg ls =
     (let ls = ls\<lparr>ls_writes := ls_writes ls + 1,
                  ls_tx := ls_tx ls @ wireLayout (bareRaw b (EncodeTextKV keys)) LittleEndian\<rparr>
      in case ReadRawPDU (ls_rx ls) False False 0 LittleEndian of
           Inl e \<Rightarrow> (Inl (ReadFailed e), ls)
         | Inr (respRaw, rx) \<Rightarrow>
             let resp = (LoginResp_UnmarshalBHS (raw_BHS respRaw))\<lparr>lr_Data := raw_DataSegment respRaw\<rparr>
             in (Inr resp, ls\<lparr>ls_rx := rx, ls_expStatSN := lr_StatSN resp + 1\<rparr>))"
    using sendLogin_sends [OF assms(1,2), of t] by blast
  have "ls_tx (snd (sendLogin keys t csg nsg ls)) = ls_tx ls @ wireLayout (bareRaw b (EncodeTextKV keys)) LittleEndian"
    by (simp add: s Let_def split: sum.split prod.split)
  moreover have "ReadRawPDU (wireLayout (bareRaw b (EncodeTextKV keys)) LittleEndian @ rest) False False mx LittleEndian
      = Inr (bareRaw b (EncodeTextKV keys), rest)" for rest mx
    using b(1) by (simp add: unstamped_def ReadRawPDU_wire verifyDigests_def)
  ultimately show ?thesis using b(2) kv.dec_enc [OF assms(3)] by blast
qed

text \<open>C17. Mutual authentication: when mutual CHAP is configured, a login succeeds only if the received bytes
  contain a PDU whose text keys carry a \<open>CHAP_R\<close> that decodes to the digest of the initiator's
  random identifier, the target's secret and the initiator's random challenge.\<close>

theorem mutual_chap_login_is_verified:
  assumes "Login env opts = (Inr (p, conn), tx)" "lc_chapUser (loginCfg opts) \<noteq> ''''" "lc_mutualCHAP (loginCfg opts)"
  shows "\<exists>id' challenge pre s raw rest r. le_randomCHAP env = Some (id', challenge) \<and> le_rx env = pre @ s \<and>
    ReadRawPDU s False False 0 LittleEndian = Inr (raw, rest) \<and>
    kvToMap (DecodeTextKV (raw_DataSegment raw)) ''CHAP_R'' = Some r \<and>
    decodeCHAPBinary r = Some (md5Sum (id' # bytes_of (lc_targetSecret (loginCfg opts)) @ challenge))"
proof -
  from assms(1) obtain isid chap u ls where c: "setupCHAP env (loginCfg opts) = Some chap"
    and r: "runLogin (initLogin env ((loginCfg opts)\<lparr>lc_isid := isid\<rparr>) isid chap) = (Inr u, ls)"
    by (rule Login_Inr)
  obtain cs id' challenge where cs: "chap = Some cs" "le_randomCHAP env = Some (id', challenge)" "cs_isMutual cs"
    "cs_mutualSecret cs = lc_targetSecret (loginCfg opts)" "cs_initiatorID cs = id'" "cs_initiatorChallenge cs = challenge"
    using c assms(2,3) by (auto simp: setupCHAP_def newCHAPState_def Let_def split: option.splits)
  obtain l1 where "doSecurityNegotiation (initLogin env ((loginCfg opts)\<lparr>lc_isid := isid\<rparr>) isid chap) = (Inr (), l1)"
    using r by (rule runLogin_Inr)
  then have "doCHAP cs (initLogin env ((loginCfg opts)\<lparr>lc_isid := isid\<rparr>) isid chap) = (Inr (), l1)"
    by (simp add: doSecurityNegotiation_def initLogin_def cs(1))
  from doCHAP_verified [OF this cs(3)] obtain pre s raw rest where
    "le_rx env = pre @ s" "ReadRawPDU s False False 0 LittleEndian = Inr (raw, rest)"
    "verifyMutualResponse cs (kvToMap (DecodeTextKV (raw_DataSegment raw))) = None"
    by (auto simp: initLogin_def)
  then show ?thesis
    using cs by (fastforce simp: verifyMutualResponse_def Let_def chapResponse_def split: option.splits if_splits)
qed


text \<open>C13. A login without credentials completes: when the target answers the two requests with success,
  \<open>Login\<close> returns the parameters negotiated from the second answer, the target's TSIH, CmdSN 1 and
  the StatSN that follows the last answer.\<close>

theorem login_completes:
  assumes "lc_chapUser (loginCfg opts) = ''''" "chooseISID env (lc_isid (loginCfg opts)) = Some isid" "length isid = 6"
    "\<forall>n. \<not> le_writeFails env n" "le_rx env = replyFrame r1 @ replyFrame r2 @ rest"
    "reply_ok r1" "reply_ok r2" "lr_StatusClass r1 = 0" "lr_StatusClass r2 = 0"
    "small (securityKeys (loginCfg opts) ''None'')"
    "keys = buildInitiatorKeys (lc_headerDigest (loginCfg opts)) (lc_dataDigest (loginCfg opts))
       (lc_operationalOverrides (loginCfg opts))"
    "small keys" "operationalParams keys (lr_Data r2) = Inr p"
  shows "\<exists>conn tx. Login env opts = (Inr (p\<lparr>np_TSIH := lr_TSIH r2, np_TargetName := lc_targetName (loginCfg opts),
      np_CmdSN := 1, np_ExpStatSN := lr_StatSN r2 + 1, np_ISID := isid\<rparr>, conn), tx)"
  by (rule login_ok [OF assms])



section \<open>Witnesses\<close>

definition sampleResp :: "u8 \<Rightarrow> KeyValue list \<Rightarrow> LoginResp" where
  "sampleResp class keys = \<lparr>lr_Header = zeroHeader\<lparr>DataSegmentLen := of_nat (length (EncodeTextKV keys))\<rparr>,
     lr_Transit = False, lr_Continue = False, lr_CSG = 0, lr_NSG = 0,
     lr_VersionMax = 0, lr_VersionActive = 0, lr_ISID = replicate 6 1, lr_TSIH = 9, lr_StatSN = 41, lr_ExpCmdSN = 1,
     lr_MaxCmdSN = 2, lr_StatusClass = class, lr_StatusDetail = 1, lr_Data = EncodeTextKV keys\<rparr>"

definition sampleEnv :: "bytes \<Rightarrow> LoginEnv" where
  "sampleEnv rx = \<lparr>le_rx = rx, le_writeFails = (\<lambda>_. False), le_pool = (\<lambda>_. []), le_mapOrder = (\<lambda>x. x),
     le_randomISID = Some [1, 2, 3, 4, 5], le_randomCHAP = Some (7, replicate 16 3)\<rparr>"

lemma sampleResp_ok: "length (EncodeTextKV keys) \<le> 1000 \<Longrightarrow> reply_ok (sampleResp c keys)"
  by (simp add: reply_ok_def consistent_def wf_LoginResp_def sampleResp_def wf_Header_def zeroHeader_def
      unat_of_nat_u32 word_le_nat_alt)

lemma sampleResp_sel [simp]:
  "lr_StatusClass (sampleResp c keys) = c" "lr_Data (sampleResp c keys) = EncodeTextKV keys"
  "lr_StatSN (sampleResp c keys) = 41" "lr_TSIH (sampleResp c keys) = 9" "lr_StatusDetail (sampleResp c keys) = 1"
  by (simp_all add: sampleResp_def)

lemma sample_sizes:
  "small (securityKeys defaultLoginConfig ''None'')"
  "small (buildInitiatorKeys [''None''] [''None''] None)"
  by (simp_all add: securityKeys_def defaultLoginConfig_def bytes_of_def buildInitiatorKeys_def)

lemma sample_params: "operationalParams keys [] = Inr Defaults"
  by (simp add: operationalParams_def DecodeTextKV_def kvToMap_simps applyNegotiatedKeys_def Let_def)
    (simp add: Defaults_def)

abbreviation plainStream :: bytes where
  "plainStream \<equiv> replyFrame (sampleResp 0 []) @ replyFrame (sampleResp 0 []) @ []"

text \<open>The answers have no transit bit: the login does not ask for it.\<close>

theorem login_completes_witness:
  "\<exists>conn tx. Login (sampleEnv plainStream) [] = (Inr (Defaults\<lparr>np_TSIH := 9, np_TargetName := [], np_CmdSN := 1,
     np_ExpStatSN := 42, np_ISID := [0x40, 1, 2, 3, 4, 5]\<rparr>, conn), tx)"
  using login_completes [of "[]" "sampleEnv plainStream" "[0x40, 1, 2, 3, 4, 5]"
      "sampleResp 0 []" "sampleResp 0 []" "[]" "buildInitiatorKeys [''None''] [''None''] None" Defaults]
    sampleResp_ok [of "[]" 0] sample_sizes sample_params
  by (simp add: sampleEnv_def chooseISID_def defaultLoginConfig_def)


abbreviation chapOptions :: "LoginOption list" where
  "chapOptions \<equiv> [WithMutualCHAP ''u'' ''s'' ''t'']"

definition chapSample :: chapState where
  "chapSample = \<lparr>cs_user = ''u'', cs_secret = ''s'', cs_mutualSecret = ''t'', cs_isMutual = True,
     cs_initiatorID = 7, cs_initiatorChallenge = replicate 16 3\<rparr>"

definition chapChallengeKeys :: "KeyValue list" where
  "chapChallengeKeys = [KV ''CHAP_A'' ''5'', KV ''CHAP_I'' ''9'', KV ''CHAP_C'' (encodeCHAPBinary (replicate 16 1))]"

definition chapAnswerKeys :: "KeyValue list" where
  "chapAnswerKeys = [KV ''CHAP_R'' (encodeCHAPBinary (md5Sum (7 # bytes_of ''t'' @ replicate 16 3)))]"

abbreviation chapStream :: bytes where
  "chapStream \<equiv> replyFrame (sampleResp 0 []) @ replyFrame (sampleResp 0 chapChallengeKeys)
     @ replyFrame (sampleResp 0 chapAnswerKeys) @ replyFrame (sampleResp 0 []) @ []"

lemma length_hexEncode [simp]: "length (hexEncode b) = 2 * length b"
  by (induction b) auto

lemma hexEncode_clean: "c \<in> set (hexEncode b) \<Longrightarrow> byte_of c \<noteq> 0"
proof (induction b)
  case (Cons x b)
  have "hexDigit d = c \<Longrightarrow> d < 16 \<Longrightarrow> byte_of c \<noteq> 0" for d
    using hexVal_hexDigit [of d] by (auto simp: hexVal_def Let_def byte_of_def word_unat_eq_iff unat_of_nat split: if_splits)
  moreover have "unat x div 16 < 16" using unat_u8_less [of x] by (simp add: div_less_iff_less_mult)
  ultimately show ?case using Cons by fastforce
qed simp

lemma wf_KV_hex: "CHR ''='' \<notin> set k \<Longrightarrow> NUL \<notin> set (bytes_of k) \<Longrightarrow> wf_KV (KV k (encodeCHAPBinary b))"
  using hexEncode_clean by (fastforce simp: wf_KV_def encodeCHAPBinary_def bytes_of_def byte_of_def)

lemma wf_KV_chap:
  "wf_KV (KV ''CHAP_A'' ''5'')" "wf_KV (KV ''CHAP_I'' ''9'')"
  "wf_KV (KV ''CHAP_C'' (encodeCHAPBinary b))" "wf_KV (KV ''CHAP_R'' (encodeCHAPBinary b))"
proof -
  show "wf_KV (KV ''CHAP_A'' ''5'')" "wf_KV (KV ''CHAP_I'' ''9'')"
    by (simp_all add: wf_KV_def bytes_of_def byte_of_def)
  show "wf_KV (KV ''CHAP_C'' (encodeCHAPBinary b))" "wf_KV (KV ''CHAP_R'' (encodeCHAPBinary b))"
    by (rule wf_KV_hex, simp, simp add: bytes_of_def byte_of_def)+
qed

lemma chap_sample_keys:
  "DecodeTextKV (EncodeTextKV chapChallengeKeys) = chapChallengeKeys"
  "DecodeTextKV (EncodeTextKV chapAnswerKeys) = chapAnswerKeys"
  "reply_ok (sampleResp c chapChallengeKeys)" "reply_ok (sampleResp c chapAnswerKeys)"
proof -
  show "DecodeTextKV (EncodeTextKV chapChallengeKeys) = chapChallengeKeys"
    by (rule kv.dec_enc) (simp add: chapChallengeKeys_def wf_KV_chap)
  show "DecodeTextKV (EncodeTextKV chapAnswerKeys) = chapAnswerKeys"
    by (rule kv.dec_enc) (simp add: chapAnswerKeys_def wf_KV_chap)
  show "reply_ok (sampleResp c chapChallengeKeys)" "reply_ok (sampleResp c chapAnswerKeys)"
    by (rule sampleResp_ok, simp add: chapChallengeKeys_def chapAnswerKeys_def encodeCHAPBinary_def bytes_of_def)+
qed

lemma chap_sample_answer:
  "\<exists>a. processChallenge chapSample (kvToMap chapChallengeKeys) = Inr a \<and> small a"
proof -
  have "ParseUint ''9'' 8 = Inr 9" by (simp add: ParseUint_def digitVal_def)
  then show ?thesis
    by (simp add: processChallenge_def kvToMap_simps chapChallengeKeys_def chapText.dec_enc validateChallenge_def Let_def
        list_all_iff chapSample_def) (simp add: bytes_of_def encodeCHAPBinary_def chapResponse_def FormatUint.simps)
qed

lemma chap_sample_verified: "verifyMutualResponse chapSample (kvToMap chapAnswerKeys) = None"
  by (simp add: verifyMutualResponse_def kvToMap_simps chapAnswerKeys_def chapText.dec_enc chapResponse_def chapSample_def)

lemma chap_sample_setup: "setupCHAP (sampleEnv rx) (loginCfg chapOptions) = Some (Some chapSample)"
  by (simp add: setupCHAP_def newCHAPState_def WithMutualCHAP_def sampleEnv_def defaultLoginConfig_def chapSample_def Let_def)

lemma chapStream_login:
  "\<exists>conn tx. Login (sampleEnv chapStream) chapOptions = (Inr (Defaults\<lparr>np_TSIH := 9, np_TargetName := [], np_CmdSN := 1,
     np_ExpStatSN := 42, np_ISID := [0x40, 1, 2, 3, 4, 5]\<rparr>, conn), tx)"
proof -
  obtain a where a: "processChallenge chapSample (kvToMap chapChallengeKeys) = Inr a" "small a"
    using chap_sample_answer by blast
  have k: "small (securityKeys (loginCfg chapOptions) ''CHAP'')"
    by (simp add: securityKeys_def WithMutualCHAP_def defaultLoginConfig_def bytes_of_def)
  show ?thesis
    using chap_login_ok [of "sampleEnv chapStream" chapOptions chapSample "[0x40, 1, 2, 3, 4, 5]"
        "sampleResp 0 []" "sampleResp 0 chapChallengeKeys" "sampleResp 0 chapAnswerKeys" "sampleResp 0 []" "[]" a
        "buildInitiatorKeys [''None''] [''None''] None" Defaults]
      chap_sample_setup chap_sample_verified chap_sample_keys sampleResp_ok [of "[]" 0] sample_sizes sample_params a k
    by (simp add: sampleEnv_def chooseISID_def defaultLoginConfig_def WithMutualCHAP_def)
qed


theorem mutual_chap_login_is_verified_witness:
  "\<exists>s raw rest r. ReadRawPDU s False False 0 LittleEndian = Inr (raw, rest) \<and>
    kvToMap (DecodeTextKV (raw_DataSegment raw)) ''CHAP_R'' = Some r \<and>
    decodeCHAPBinary r = Some (md5Sum (7 # bytes_of ''t'' @ replicate 16 3))"
proof -
  obtain p conn tx where l: "Login (sampleEnv chapStream) chapOptions = (Inr (p, conn), tx)"
    using chapStream_login by blast
  show ?thesis
    using mutual_chap_login_is_verified [OF l]
    by (auto simp: WithMutualCHAP_def sampleEnv_def defaultLoginConfig_def)
qed


theorem login_request_on_wire_witness:
  "\<exists>b frame. ls_tx (snd (sendLogin [KV ''CHAP_A'' ''5''] True 0 1 (initLogin (sampleEnv []) defaultLoginConfig (replicate 6 7) None))) = frame \<and>
    ReadRawPDU (frame @ [1]) False False 0 LittleEndian = Inr (bareRaw b (EncodeTextKV [KV ''CHAP_A'' ''5'']), [1])"
proof -
  let ?ls = "initLogin (sampleEnv []) defaultLoginConfig (replicate 6 7) None"
  have "request_ok ?ls [KV ''CHAP_A'' ''5''] 0 1" "\<not> ls_writeFails ?ls (ls_writes ?ls)"
    "list_all wf_KV [KV ''CHAP_A'' ''5'']"
    by (simp_all add: request_ok_def initLogin_def sampleEnv_def bytes_of_def wf_KV_def byte_of_def)
  from login_request_on_wire [OF this, of True] show ?thesis by (auto simp: initLogin_def)
qed

end
