(* ===== verification/Session_Types.thy ===== *)
theory Session_Types
  imports Pdu_Frame Negotiation
begin

text \<open>
  \<open>internal/session/types.go\<close> and \<open>state.go\<close>: commands, results, errors, options and states of a
  session, and the \<open>io.Reader\<close> values that carry the data of a command.

  A reader is the bytes it will ever deliver, the position reached, whether it ends with an error
  other than \<open>io.EOF\<close>, and what \<open>Seek\<close> does on it. \<open>io_ReadFull\<close> and \<open>io_ReadAll\<close> are
  \<open>io.ReadFull\<close> and \<open>io.ReadAll\<close>, whose results do not depend on how a reader chunks its bytes.
\<close>

section \<open>Readers\<close>

datatype SeekKind = NotSeeker | SeekFails | Seeks

record Reader =
  rd_content :: bytes
  rd_pos :: nat
  rd_fails :: bool
  rd_seek :: SeekKind

datatype IOError = IO_EOF | IO_UnexpectedEOF | IO_Failed

definition unread :: "Reader \<Rightarrow> bytes" where
  "unread r = drop (rd_pos r) (rd_content r)"

definition io_ReadFull :: "nat \<Rightarrow> Reader \<Rightarrow> (bytes \<times> IOError option) \<times> Reader" where
  "io_ReadFull n r =
     (let got = take n (unread r);
          r' = r\<lparr>rd_pos := rd_pos r + length got\<rparr>
      in if length got = n then ((got, None), r')
         else if rd_fails r then ((got, Some IO_Failed), r')
         else if got = [] then ((got, Some IO_EOF), r')
         else ((got, Some IO_UnexpectedEOF), r'))"

definition io_ReadAll :: "Reader \<Rightarrow> IOError + bytes" where
  "io_ReadAll r = (if rd_fails r then Inl IO_Failed else Inr (unread r))"

definition bytes_NewReader :: "bytes \<Rightarrow> Reader" where
  "bytes_NewReader b = \<lparr>rd_content = b, rd_pos = 0, rd_fails = False, rd_seek = Seeks\<rparr>"

lemma io_ReadFull_next:
  "io_ReadFull n r = ((got, e), r') \<Longrightarrow>
     got = take n (unread r) \<and> unread r' = drop (length got) (unread r) \<and> rd_fails r' = rd_fails r \<and> rd_seek r' = rd_seek r
     \<and> rd_content r' = rd_content r"
  by (auto simp: io_ReadFull_def Let_def unread_def add.commute split: if_splits)

lemma io_ReadFull_err:
  "io_ReadFull n r = ((got, e), r') \<Longrightarrow>
     (e = None \<longleftrightarrow> n \<le> length (unread r)) \<and>
     (e = Some IO_UnexpectedEOF \<longleftrightarrow> length (unread r) < n \<and> \<not> rd_fails r \<and> unread r \<noteq> []) \<and>
     (e = Some IO_EOF \<longleftrightarrow> length (unread r) < n \<and> \<not> rd_fails r \<and> unread r = [])"
  by (auto simp: io_ReadFull_def Let_def min_def split: if_splits)

lemma unread_NewReader [simp]: "unread (bytes_NewReader b) = b" "rd_fails (bytes_NewReader b) = False"
  by (simp_all add: unread_def bytes_NewReader_def)

section \<open>Errors of the session layer\<close>

datatype SessionError =
    ErrTaskAborted
  | ErrSessionDraining
  | ErrSessionRecovering
  | ErrRetryNotPossible
  | ErrSessionClosed
  | ErrContext
  | ErrAcquire
  | ErrEncode ProtocolError
  | ErrDecode ProtocolError
  | ErrReadData IOError
  | ErrSegmentLength
  | ErrDataSNGap u32 u32 u32
  | ErrBufferOffset u32 u32 u32
  | ErrSNACK
  | ErrRejected u8 u32
  | ErrStreamingNotRetriable
  | ErrSeek
  | ErrWriteChannelFull
  | ErrOther string

section \<open>Commands and results\<close>

record Command =
  cm_CDB :: bytes
  cm_Read :: bool
  cm_Write :: bool
  cm_ExpectedDataTransferLen :: u32
  cm_LUN :: u64
  cm_TaskAttributes :: u8
  cm_Data :: "Reader option"

record Result =
  rs_Status :: u8
  rs_SenseData :: bytes
  rs_Data :: "Reader option"
  rs_Overflow :: bool
  rs_Underflow :: bool
  rs_ResidualCount :: u32
  rs_Err :: "SessionError option"

definition zeroCommand :: Command where
  "zeroCommand = \<lparr>cm_CDB = replicate 16 0, cm_Read = False, cm_Write = False, cm_ExpectedDataTransferLen = 0,
     cm_LUN = 0, cm_TaskAttributes = 0, cm_Data = None\<rparr>"

definition zeroResult :: Result where
  "zeroResult = \<lparr>rs_Status = 0, rs_SenseData = [], rs_Data = None, rs_Overflow = False, rs_Underflow = False,
     rs_ResidualCount = 0, rs_Err = None\<rparr>"

definition errResult :: "SessionError \<Rightarrow> Result" where
  "errResult e = zeroResult\<lparr>rs_Err := Some e\<rparr>"

record AsyncEvent =
  ae_EventCode :: u8
  ae_VendorCode :: u8
  ae_Parameter1 :: u16
  ae_Parameter2 :: u16
  ae_Parameter3 :: u16
  ae_Data :: bytes

record Portal =
  pt_Address :: string
  pt_Port :: int
  pt_GroupTag :: int

record DiscoveryTarget =
  dt_Name :: string
  dt_Portals :: "Portal list"

abbreviation (input) TMFAbortTask :: u8 where "TMFAbortTask \<equiv> 1"
abbreviation (input) TMFAbortTaskSet :: u8 where "TMFAbortTaskSet \<equiv> 2"
abbreviation (input) TMFClearTaskSet :: u8 where "TMFClearTaskSet \<equiv> 3"
abbreviation (input) TMFLogicalUnitReset :: u8 where "TMFLogicalUnitReset \<equiv> 5"
abbreviation (input) TMFTargetWarmReset :: u8 where "TMFTargetWarmReset \<equiv> 6"
abbreviation (input) TMFTargetColdReset :: u8 where "TMFTargetColdReset \<equiv> 7"
abbreviation (input) TMFTaskReassign :: u8 where "TMFTaskReassign \<equiv> 14"

abbreviation (input) SNACKTypeDataR2T :: u8 where "SNACKTypeDataR2T \<equiv> 0"
abbreviation (input) SNACKTypeStatus :: u8 where "SNACKTypeStatus \<equiv> 1"
abbreviation (input) SNACKTypeDataACK :: u8 where "SNACKTypeDataACK \<equiv> 2"

record TMFResult =
  tf_Response :: u8
  tf_Err :: "SessionError option"

section \<open>States\<close>

datatype SessionState = SessionLogin | SessionFullFeature | SessionReconnecting | SessionClosed

definition SessionState_String :: "SessionState \<Rightarrow> string" where
  "SessionState_String s =
     (case s of
        SessionLogin \<Rightarrow> ''login''
      | SessionFullFeature \<Rightarrow> ''full-feature''
      | SessionReconnecting \<Rightarrow> ''reconnecting''
      | SessionClosed \<Rightarrow> ''closed'')"

section \<open>Options\<close>

text \<open>Durations are nanoseconds. Hooks and loggers are left out: they only observe.\<close>

record sessionConfig =
  sg_keepaliveInterval :: int
  sg_keepaliveTimeout :: int
  sg_maxReconnectAttempts :: int
  sg_reconnectBackoff :: int
  sg_snackTimeout :: int
  sg_targetAddr :: string
  sg_digestByteOrder :: "ByteOrder option"
  sg_streamBufDepth :: int
  sg_routerBufDepth :: int

type_synonym SessionOption = "sessionConfig \<Rightarrow> sessionConfig"

abbreviation (input) second :: int where "second \<equiv> 1000000000"

definition defaultConfig :: sessionConfig where
  "defaultConfig = \<lparr>sg_keepaliveInterval = 30 * second, sg_keepaliveTimeout = 5 * second,
     sg_maxReconnectAttempts = 3, sg_reconnectBackoff = 1 * second, sg_snackTimeout = 5 * second,
     sg_targetAddr = '''', sg_digestByteOrder = None, sg_streamBufDepth = 0, sg_routerBufDepth = 0\<rparr>"

definition WithKeepaliveInterval :: "int \<Rightarrow> SessionOption" where
  "WithKeepaliveInterval d c = c\<lparr>sg_keepaliveInterval := d\<rparr>"

definition WithKeepaliveTimeout :: "int \<Rightarrow> SessionOption" where
  "WithKeepaliveTimeout d c = c\<lparr>sg_keepaliveTimeout := d\<rparr>"

definition WithMaxReconnectAttempts :: "int \<Rightarrow> SessionOption" where
  "WithMaxReconnectAttempts n c = c\<lparr>sg_maxReconnectAttempts := n\<rparr>"

definition WithReconnectBackoff :: "int \<Rightarrow> SessionOption" where
  "WithReconnectBackoff base c = c\<lparr>sg_reconnectBackoff := base\<rparr>"

definition WithSNACKTimeout :: "int \<Rightarrow> SessionOption" where
  "WithSNACKTimeout d c = c\<lparr>sg_snackTimeout := d\<rparr>"

definition WithStreamBufDepth :: "int \<Rightarrow> SessionOption" where
  "WithStreamBufDepth depth c = c\<lparr>sg_streamBufDepth := depth\<rparr>"

definition WithRouterBufDepth :: "int \<Rightarrow> SessionOption" where
  "WithRouterBufDepth depth c = c\<lparr>sg_routerBufDepth := depth\<rparr>"

definition WithDigestByteOrder :: "ByteOrder \<Rightarrow> SessionOption" where
  "WithDigestByteOrder bo c = c\<lparr>sg_digestByteOrder := Some bo\<rparr>"

definition WithReconnectInfo :: "string \<Rightarrow> SessionOption" where
  "WithReconnectInfo addr c = c\<lparr>sg_targetAddr := addr\<rparr>"

end
