(* ===== verification/Scsi_Command.thy ===== *)
theory Scsi_Command
  imports Session_Types
begin

text \<open>
  The command builders of \<open>internal/scsi\<close>: \<open>opcode.go\<close>, \<open>commands.go\<close>, \<open>readwrite.go\<close>,
  \<open>provisioning.go\<close>, and the builders of \<open>inquiry.go\<close>, \<open>capacity.go\<close>, \<open>modesense.go\<close> and
  \<open>reservations.go\<close>. A builder stores fields into a zeroed 16-byte CDB in the code's order.

  The specification is the device's side: \<open>decodeCDB\<close> reads a CDB by the field tables of SPC-4 and
  SBC-3 into a \<open>Request\<close>, and \<open>command_of\<close> builds the command for a request. The two are inverse,
  and the direction and expected transfer length agree with the request.
\<close>

section \<open>Operation codes and options\<close>

abbreviation (input) OpTestUnitReady :: u8 where "OpTestUnitReady \<equiv> 0x00"
abbreviation (input) OpRequestSense :: u8 where "OpRequestSense \<equiv> 0x03"
abbreviation (input) OpInquiry :: u8 where "OpInquiry \<equiv> 0x12"
abbreviation (input) OpModeSelect6 :: u8 where "OpModeSelect6 \<equiv> 0x15"
abbreviation (input) OpModeSense6 :: u8 where "OpModeSense6 \<equiv> 0x1A"
abbreviation (input) OpStartStopUnit :: u8 where "OpStartStopUnit \<equiv> 0x1B"
abbreviation (input) OpReadCapacity10 :: u8 where "OpReadCapacity10 \<equiv> 0x25"
abbreviation (input) OpRead10 :: u8 where "OpRead10 \<equiv> 0x28"
abbreviation (input) OpWrite10 :: u8 where "OpWrite10 \<equiv> 0x2A"
abbreviation (input) OpVerify10 :: u8 where "OpVerify10 \<equiv> 0x2F"
abbreviation (input) OpSynchronizeCache10 :: u8 where "OpSynchronizeCache10 \<equiv> 0x35"
abbreviation (input) OpWriteSame10 :: u8 where "OpWriteSame10 \<equiv> 0x41"
abbreviation (input) OpUnmap :: u8 where "OpUnmap \<equiv> 0x42"
abbreviation (input) OpModeSelect10 :: u8 where "OpModeSelect10 \<equiv> 0x55"
abbreviation (input) OpModeSense10 :: u8 where "OpModeSense10 \<equiv> 0x5A"
abbreviation (input) OpPersistReserveIn :: u8 where "OpPersistReserveIn \<equiv> 0x5E"
abbreviation (input) OpPersistReserveOut :: u8 where "OpPersistReserveOut \<equiv> 0x5F"
abbreviation (input) OpRead16 :: u8 where "OpRead16 \<equiv> 0x88"
abbreviation (input) OpCompareAndWrite :: u8 where "OpCompareAndWrite \<equiv> 0x89"
abbreviation (input) OpWrite16 :: u8 where "OpWrite16 \<equiv> 0x8A"
abbreviation (input) OpVerify16 :: u8 where "OpVerify16 \<equiv> 0x8F"
abbreviation (input) OpSynchronizeCache16 :: u8 where "OpSynchronizeCache16 \<equiv> 0x91"
abbreviation (input) OpWriteSame16 :: u8 where "OpWriteSame16 \<equiv> 0x93"
abbreviation (input) OpServiceActionIn16 :: u8 where "OpServiceActionIn16 \<equiv> 0x9E"
abbreviation (input) OpReportLuns :: u8 where "OpReportLuns \<equiv> 0xA0"

record options =
  op_fua :: bool
  op_dpo :: bool
  op_immed :: bool
  op_anchor :: bool
  op_unmap :: bool
  op_ndob :: bool
  op_dbd :: bool
  op_bytchk :: u8
  op_pageControl :: u8

type_synonym Option = "options \<Rightarrow> options"

definition WithFUA :: Option where "WithFUA o' = o'\<lparr>op_fua := True\<rparr>"

definition WithDPO :: Option where "WithDPO o' = o'\<lparr>op_dpo := True\<rparr>"

definition WithImmed :: Option where "WithImmed o' = o'\<lparr>op_immed := True\<rparr>"

definition WithAnchor :: Option where "WithAnchor o' = o'\<lparr>op_anchor := True\<rparr>"

definition WithUnmap :: Option where "WithUnmap o' = o'\<lparr>op_unmap := True\<rparr>"

definition WithNDOB :: Option where "WithNDOB o' = o'\<lparr>op_ndob := True\<rparr>"

definition WithBytchk :: "u8 \<Rightarrow> Option" where "WithBytchk v o' = o'\<lparr>op_bytchk := v\<rparr>"

definition WithDBD :: Option where "WithDBD o' = o'\<lparr>op_dbd := True\<rparr>"

definition WithPageControl :: "u8 \<Rightarrow> Option" where "WithPageControl pc o' = o'\<lparr>op_pageControl := pc AND 0x03\<rparr>"

definition zeroOptions :: options where
  "zeroOptions = \<lparr>op_fua = False, op_dpo = False, op_immed = False, op_anchor = False, op_unmap = False,
     op_ndob = False, op_dbd = False, op_bytchk = 0, op_pageControl = 0\<rparr>"

definition applyOptions :: "Option list \<Rightarrow> options" where
  "applyOptions opts = foldl (\<lambda>o' fn. fn o') zeroOptions opts"

lemmas option_defs = WithFUA_def WithDPO_def WithImmed_def WithAnchor_def WithUnmap_def WithNDOB_def WithBytchk_def
  WithDBD_def WithPageControl_def applyOptions_def zeroOptions_def

section \<open>Builders\<close>

definition TestUnitReady :: "u64 \<Rightarrow> Command" where
  "TestUnitReady lun = (let cmd = zeroCommand in cmd\<lparr>cm_CDB := (cm_CDB cmd)[0 := OpTestUnitReady], cm_LUN := lun\<rparr>)"

definition RequestSense :: "u64 \<Rightarrow> u8 \<Rightarrow> Command" where
  "RequestSense lun allocLen =
     (let cdb = cm_CDB zeroCommand;
          cdb = cdb[0 := OpRequestSense];
          cdb = cdb[4 := allocLen]
      in zeroCommand\<lparr>cm_CDB := cdb, cm_Read := True, cm_ExpectedDataTransferLen := ucast allocLen, cm_LUN := lun\<rparr>)"

definition ReportLuns :: "u32 \<Rightarrow> Command" where
  "ReportLuns allocLen =
     (let cdb = cm_CDB zeroCommand;
          cdb = cdb[0 := OpReportLuns];
          cdb = PutUint32 cdb 6 allocLen
      in zeroCommand\<lparr>cm_CDB := cdb, cm_Read := True, cm_ExpectedDataTransferLen := allocLen\<rparr>)"

definition Verify10 :: "u64 \<Rightarrow> u32 \<Rightarrow> u16 \<Rightarrow> Option list \<Rightarrow> Command" where
  "Verify10 lun lba blocks opts =
     (let cfg = applyOptions opts;
          cdb = cm_CDB zeroCommand;
          cdb = cdb[0 := OpVerify10];
          cdb = cdb[1 := push_bit 1 (op_bytchk cfg AND 0x03)];
          cdb = PutUint32 cdb 2 lba;
          cdb = PutUint16 cdb 7 blocks
      in zeroCommand\<lparr>cm_CDB := cdb, cm_LUN := lun\<rparr>)"

definition Verify16 :: "u64 \<Rightarrow> u64 \<Rightarrow> u32 \<Rightarrow> Option list \<Rightarrow> Command" where
  "Verify16 lun lba blocks opts =
     (let cfg = applyOptions opts;
          cdb = cm_CDB zeroCommand;
          cdb = cdb[0 := OpVerify16];
          cdb = cdb[1 := push_bit 1 (op_bytchk cfg AND 0x03)];
          cdb = PutUint64 cdb 2 lba;
          cdb = PutUint32 cdb 10 blocks
      in zeroCommand\<lparr>cm_CDB := cdb, cm_LUN := lun\<rparr>)"

definition CompareAndWrite :: "u64 \<Rightarrow> u64 \<Rightarrow> u8 \<Rightarrow> u32 \<Rightarrow> Reader option \<Rightarrow> Command" where
  "CompareAndWrite lun lba blocks blockSize data =
     (let cdb = cm_CDB zeroCommand;
          cdb = cdb[0 := OpCompareAndWrite];
          cdb = PutUint64 cdb 2 lba;
          cdb = cdb[13 := blocks]
      in zeroCommand\<lparr>cm_CDB := cdb, cm_Write := True, cm_Data := data,
           cm_ExpectedDataTransferLen := 2 * ucast blocks * blockSize, cm_LUN := lun\<rparr>)"

definition StartStopUnit :: "u64 \<Rightarrow> u8 \<Rightarrow> bool \<Rightarrow> bool \<Rightarrow> Option list \<Rightarrow> Command" where
  "StartStopUnit lun powerCondition start loadEject opts =
     (let cfg = applyOptions opts;
          cdb = cm_CDB zeroCommand;
          cdb = cdb[0 := OpStartStopUnit];
          cdb = or_if (op_immed cfg) cdb 1 0x01;
          cdb = cdb[4 := push_bit 4 (powerCondition AND 0x0F)];
          cdb = or_if loadEject cdb 4 0x02;
          cdb = or_if start cdb 4 0x01
      in zeroCommand\<lparr>cm_CDB := cdb, cm_LUN := lun\<rparr>)"

definition Read10 :: "u64 \<Rightarrow> u32 \<Rightarrow> u16 \<Rightarrow> u32 \<Rightarrow> Option list \<Rightarrow> Command" where
  "Read10 lun lba blocks blockSize opts =
     (let o' = applyOptions opts;
          cdb = cm_CDB zeroCommand;
          cdb = cdb[0 := OpRead10];
          cdb = or_if (op_dpo o') cdb 1 0x10;
          cdb = or_if (op_fua o') cdb 1 0x08;
          cdb = PutUint32 cdb 2 lba;
          cdb = PutUint16 cdb 7 blocks
      in zeroCommand\<lparr>cm_CDB := cdb, cm_Read := True, cm_ExpectedDataTransferLen := ucast blocks * blockSize,
           cm_LUN := lun\<rparr>)"

definition Read16 :: "u64 \<Rightarrow> u64 \<Rightarrow> u32 \<Rightarrow> u32 \<Rightarrow> Option list \<Rightarrow> Command" where
  "Read16 lun lba blocks blockSize opts =
     (let o' = applyOptions opts;
          cdb = cm_CDB zeroCommand;
          cdb = cdb[0 := OpRead16];
          cdb = or_if (op_dpo o') cdb 1 0x10;
          cdb = or_if (op_fua o') cdb 1 0x08;
          cdb = PutUint64 cdb 2 lba;
          cdb = PutUint32 cdb 10 blocks
      in zeroCommand\<lparr>cm_CDB := cdb, cm_Read := True, cm_ExpectedDataTransferLen := blocks * blockSize,
           cm_LUN := lun\<rparr>)"

definition Write10 :: "u64 \<Rightarrow> u32 \<Rightarrow> u16 \<Rightarrow> u32 \<Rightarrow> Reader option \<Rightarrow> Option list \<Rightarrow> Command" where
  "Write10 lun lba blocks blockSize data opts =
     (let o' = applyOptions opts;
          cdb = cm_CDB zeroCommand;
          cdb = cdb[0 := OpWrite10];
          cdb = or_if (op_dpo o') cdb 1 0x10;
          cdb = or_if (op_fua o') cdb 1 0x08;
          cdb = PutUint32 cdb 2 lba;
          cdb = PutUint16 cdb 7 blocks
      in zeroCommand\<lparr>cm_CDB := cdb, cm_Write := True, cm_Data := data,
           cm_ExpectedDataTransferLen := ucast blocks * blockSize, cm_LUN := lun\<rparr>)"

definition Write16 :: "u64 \<Rightarrow> u64 \<Rightarrow> u32 \<Rightarrow> u32 \<Rightarrow> Reader option \<Rightarrow> Option list \<Rightarrow> Command" where
  "Write16 lun lba blocks blockSize data opts =
     (let o' = applyOptions opts;
          cdb = cm_CDB zeroCommand;
          cdb = cdb[0 := OpWrite16];
          cdb = or_if (op_dpo o') cdb 1 0x10;
          cdb = or_if (op_fua o') cdb 1 0x08;
          cdb = PutUint64 cdb 2 lba;
          cdb = PutUint32 cdb 10 blocks
      in zeroCommand\<lparr>cm_CDB := cdb, cm_Write := True, cm_Data := data,
           cm_ExpectedDataTransferLen := blocks * blockSize, cm_LUN := lun\<rparr>)"

definition SynchronizeCache10 :: "u64 \<Rightarrow> u32 \<Rightarrow> u16 \<Rightarrow> Option list \<Rightarrow> Command" where
  "SynchronizeCache10 lun lba blocks opts =
     (let cfg = applyOptions opts;
          cdb = cm_CDB zeroCommand;
          cdb = cdb[0 := OpSynchronizeCache10];
          cdb = or_if (op_immed cfg) cdb 1 0x02;
          cdb = PutUint32 cdb 2 lba;
          cdb = PutUint16 cdb 7 blocks
      in zeroCommand\<lparr>cm_CDB := cdb, cm_LUN := lun\<rparr>)"

definition SynchronizeCache16 :: "u64 \<Rightarrow> u64 \<Rightarrow> u32 \<Rightarrow> Option list \<Rightarrow> Command" where
  "SynchronizeCache16 lun lba blocks opts =
     (let cfg = applyOptions opts;
          cdb = cm_CDB zeroCommand;
          cdb = cdb[0 := OpSynchronizeCache16];
          cdb = or_if (op_immed cfg) cdb 1 0x02;
          cdb = PutUint64 cdb 2 lba;
          cdb = PutUint32 cdb 10 blocks
      in zeroCommand\<lparr>cm_CDB := cdb, cm_LUN := lun\<rparr>)"

definition WriteSame10 :: "u64 \<Rightarrow> u32 \<Rightarrow> u16 \<Rightarrow> u32 \<Rightarrow> Reader option \<Rightarrow> Option list \<Rightarrow> Command" where
  "WriteSame10 lun lba blocks blockSize data opts =
     (let cfg = applyOptions opts;
          cdb = cm_CDB zeroCommand;
          cdb = cdb[0 := OpWriteSame10];
          cdb = or_if (op_unmap cfg) cdb 1 0x08;
          cdb = or_if (op_anchor cfg) cdb 1 0x04;
          cdb = or_if (op_ndob cfg) cdb 1 0x01;
          cdb = PutUint32 cdb 2 lba;
          cdb = PutUint16 cdb 7 blocks;
          cmd = zeroCommand\<lparr>cm_CDB := cdb, cm_LUN := lun\<rparr>
      in if op_ndob cfg then cmd
         else cmd\<lparr>cm_Write := True, cm_Data := data, cm_ExpectedDataTransferLen := blockSize\<rparr>)"

definition WriteSame16 :: "u64 \<Rightarrow> u64 \<Rightarrow> u32 \<Rightarrow> u32 \<Rightarrow> Reader option \<Rightarrow> Option list \<Rightarrow> Command" where
  "WriteSame16 lun lba blocks blockSize data opts =
     (let cfg = applyOptions opts;
          cdb = cm_CDB zeroCommand;
          cdb = cdb[0 := OpWriteSame16];
          cdb = or_if (op_unmap cfg) cdb 1 0x08;
          cdb = or_if (op_anchor cfg) cdb 1 0x04;
          cdb = or_if (op_ndob cfg) cdb 1 0x01;
          cdb = PutUint64 cdb 2 lba;
          cdb = PutUint32 cdb 10 blocks;
          cmd = zeroCommand\<lparr>cm_CDB := cdb, cm_LUN := lun\<rparr>
      in if op_ndob cfg then cmd
         else cmd\<lparr>cm_Write := True, cm_Data := data, cm_ExpectedDataTransferLen := blockSize\<rparr>)"

record UnmapBlockDescriptor =
  ub_LBA :: u64
  ub_BlockCount :: u32

text \<open>The loop that stores the descriptors, \<open>i\<close> being the index of the first of the rest.\<close>

fun putDescriptors :: "nat \<Rightarrow> UnmapBlockDescriptor list \<Rightarrow> bytes \<Rightarrow> bytes" where
  "putDescriptors i [] paramData = paramData"
| "putDescriptors i (d # ds) paramData =
     (let off = 8 + i * 16;
          paramData = PutUint64 paramData off (ub_LBA d);
          paramData = PutUint32 paramData (off + 8) (ub_BlockCount d)
      in putDescriptors (Suc i) ds paramData)"

definition unmapParams :: "UnmapBlockDescriptor list \<Rightarrow> bytes" where
  "unmapParams descriptors =
     (let bdDataLen = length descriptors * 16;
          paramListLen = 8 + bdDataLen;
          paramData = replicate paramListLen 0;
          paramData = PutUint16 paramData 0 (of_nat (paramListLen - 2));
          paramData = PutUint16 paramData 2 (of_nat bdDataLen)
      in putDescriptors 0 descriptors paramData)"

definition Unmap :: "u64 \<Rightarrow> UnmapBlockDescriptor list \<Rightarrow> Option list \<Rightarrow> Command" where
  "Unmap lun descriptors opts =
     (let cfg = applyOptions opts;
          paramData = unmapParams descriptors;
          paramListLen = 8 + length descriptors * 16;
          cdb = cm_CDB zeroCommand;
          cdb = cdb[0 := OpUnmap];
          cdb = or_if (op_anchor cfg) cdb 1 0x01;
          cdb = PutUint16 cdb 7 (of_nat paramListLen)
      in zeroCommand\<lparr>cm_CDB := cdb, cm_Write := True, cm_Data := Some (bytes_NewReader paramData),
           cm_ExpectedDataTransferLen := of_nat paramListLen, cm_LUN := lun\<rparr>)"

definition Inquiry :: "u64 \<Rightarrow> u16 \<Rightarrow> Command" where
  "Inquiry lun allocLen =
     (let cdb = cm_CDB zeroCommand;
          cdb = cdb[0 := OpInquiry];
          cdb = PutUint16 cdb 3 allocLen
      in zeroCommand\<lparr>cm_CDB := cdb, cm_Read := True, cm_ExpectedDataTransferLen := ucast allocLen, cm_LUN := lun\<rparr>)"

definition InquiryVPD :: "u64 \<Rightarrow> u8 \<Rightarrow> u16 \<Rightarrow> Command" where
  "InquiryVPD lun pageCode allocLen =
     (let cdb = cm_CDB zeroCommand;
          cdb = cdb[0 := OpInquiry];
          cdb = cdb[1 := 0x01];
          cdb = cdb[2 := pageCode];
          cdb = PutUint16 cdb 3 allocLen
      in zeroCommand\<lparr>cm_CDB := cdb, cm_Read := True, cm_ExpectedDataTransferLen := ucast allocLen, cm_LUN := lun\<rparr>)"

definition ReadCapacity10 :: "u64 \<Rightarrow> Command" where
  "ReadCapacity10 lun =
     (let cdb = (cm_CDB zeroCommand)[0 := OpReadCapacity10]
      in zeroCommand\<lparr>cm_CDB := cdb, cm_Read := True, cm_ExpectedDataTransferLen := 8, cm_LUN := lun\<rparr>)"

definition ReadCapacity16 :: "u64 \<Rightarrow> u32 \<Rightarrow> Command" where
  "ReadCapacity16 lun allocLen =
     (let cdb = cm_CDB zeroCommand;
          cdb = cdb[0 := OpServiceActionIn16];
          cdb = cdb[1 := 0x10];
          cdb = PutUint32 cdb 10 allocLen
      in zeroCommand\<lparr>cm_CDB := cdb, cm_Read := True, cm_ExpectedDataTransferLen := allocLen, cm_LUN := lun\<rparr>)"

definition ModeSense6 :: "u64 \<Rightarrow> u8 \<Rightarrow> u8 \<Rightarrow> u8 \<Rightarrow> Option list \<Rightarrow> Command" where
  "ModeSense6 lun pageCode subpageCode allocLen opts =
     (let o' = applyOptions opts;
          cdb = cm_CDB zeroCommand;
          cdb = cdb[0 := OpModeSense6];
          cdb = (if op_dbd o' then cdb[1 := 0x08] else cdb);
          cdb = cdb[2 := push_bit 6 (op_pageControl o') OR (pageCode AND 0x3F)];
          cdb = cdb[3 := subpageCode];
          cdb = cdb[4 := allocLen]
      in zeroCommand\<lparr>cm_CDB := cdb, cm_Read := True, cm_ExpectedDataTransferLen := ucast allocLen, cm_LUN := lun\<rparr>)"

definition ModeSense10 :: "u64 \<Rightarrow> u8 \<Rightarrow> u8 \<Rightarrow> u16 \<Rightarrow> Option list \<Rightarrow> Command" where
  "ModeSense10 lun pageCode subpageCode allocLen opts =
     (let o' = applyOptions opts;
          cdb = cm_CDB zeroCommand;
          cdb = cdb[0 := OpModeSense10];
          cdb = (if op_dbd o' then cdb[1 := 0x08] else cdb);
          cdb = cdb[2 := push_bit 6 (op_pageControl o') OR (pageCode AND 0x3F)];
          cdb = cdb[3 := subpageCode];
          cdb = PutUint16 cdb 7 allocLen
      in zeroCommand\<lparr>cm_CDB := cdb, cm_Read := True, cm_ExpectedDataTransferLen := ucast allocLen, cm_LUN := lun\<rparr>)"

definition ModeSelect6 :: "u64 \<Rightarrow> bytes \<Rightarrow> Command" where
  "ModeSelect6 lun data =
     (let cdb = cm_CDB zeroCommand;
          cdb = cdb[0 := OpModeSelect6];
          cdb = cdb[1 := 0x10];
          cdb = cdb[4 := of_nat (length data)]
      in zeroCommand\<lparr>cm_CDB := cdb, cm_Write := True, cm_Data := Some (bytes_NewReader data),
           cm_ExpectedDataTransferLen := of_nat (length data), cm_LUN := lun\<rparr>)"

definition ModeSelect10 :: "u64 \<Rightarrow> bytes \<Rightarrow> Command" where
  "ModeSelect10 lun data =
     (let cdb = cm_CDB zeroCommand;
          cdb = cdb[0 := OpModeSelect10];
          cdb = cdb[1 := 0x10];
          cdb = PutUint16 cdb 7 (of_nat (length data))
      in zeroCommand\<lparr>cm_CDB := cdb, cm_Write := True, cm_Data := Some (bytes_NewReader data),
           cm_ExpectedDataTransferLen := of_nat (length data), cm_LUN := lun\<rparr>)"

definition PersistReserveIn :: "u64 \<Rightarrow> u8 \<Rightarrow> u16 \<Rightarrow> Command" where
  "PersistReserveIn lun serviceAction allocLen =
     (let cdb = cm_CDB zeroCommand;
          cdb = cdb[0 := OpPersistReserveIn];
          cdb = cdb[1 := serviceAction AND 0x1F];
          cdb = PutUint16 cdb 7 allocLen
      in zeroCommand\<lparr>cm_CDB := cdb, cm_Read := True, cm_ExpectedDataTransferLen := ucast allocLen, cm_LUN := lun\<rparr>)"

definition PersistReserveOut :: "u64 \<Rightarrow> u8 \<Rightarrow> u8 \<Rightarrow> u64 \<Rightarrow> u64 \<Rightarrow> Command" where
  "PersistReserveOut lun serviceAction scopeType key saKey =
     (let paramData = replicate 24 0;
          paramData = PutUint64 paramData 0 key;
          paramData = PutUint64 paramData 8 saKey;
          cdb = cm_CDB zeroCommand;
          cdb = cdb[0 := OpPersistReserveOut];
          cdb = cdb[1 := serviceAction AND 0x1F];
          cdb = cdb[2 := scopeType];
          cdb = PutUint32 cdb 5 24
      in zeroCommand\<lparr>cm_CDB := cdb, cm_Write := True, cm_Data := Some (bytes_NewReader paramData),
           cm_ExpectedDataTransferLen := 24, cm_LUN := lun\<rparr>)"

section \<open>The device's reading of a CDB\<close>

datatype Request =
    RqTestUnitReady
  | RqRequestSense u8
  | RqReportLuns u32
  | RqVerify10 u8 u32 u16
  | RqVerify16 u8 u64 u32
  | RqCompareAndWrite u64 u8
  | RqStartStopUnit bool u8 bool bool
  | RqRead10 bool bool u32 u16
  | RqRead16 bool bool u64 u32
  | RqWrite10 bool bool u32 u16
  | RqWrite16 bool bool u64 u32
  | RqSynchronizeCache10 bool u32 u16
  | RqSynchronizeCache16 bool u64 u32
  | RqWriteSame10 bool bool bool u32 u16
  | RqWriteSame16 bool bool bool u64 u32
  | RqUnmap bool u16
  | RqInquiry bool u8 u16
  | RqReadCapacity10
  | RqReadCapacity16 u32
  | RqModeSense6 bool u8 u8 u8 u8
  | RqModeSense10 bool u8 u8 u8 u16
  | RqModeSelect6 bool u8
  | RqModeSelect10 bool u16
  | RqPersistReserveIn u8 u16
  | RqPersistReserveOut u8 u8 u32

definition decodeCDB :: "bytes \<Rightarrow> Request option" where
  "decodeCDB cdb =
     (let op = cdb ! 0; b1 = cdb ! 1; b4 = cdb ! 4;
          lba32 = Uint32 (slice cdb 2 6); lba64 = Uint64 (slice cdb 2 10);
          len16 = Uint16 (slice cdb 7 9); len32 = Uint32 (slice cdb 10 14);
          dpo = (b1 AND 0x10 \<noteq> 0); fua = (b1 AND 0x08 \<noteq> 0); bytchk = drop_bit 1 b1 AND 0x03;
          anchor = (b1 AND 0x10 \<noteq> 0); unmap = (b1 AND 0x08 \<noteq> 0); ndob = (b1 AND 0x01 \<noteq> 0);
          pc = drop_bit 6 (cdb ! 2); page = cdb ! 2 AND 0x3F
      in if op = OpTestUnitReady then Some RqTestUnitReady
         else if op = OpRequestSense then Some (RqRequestSense b4)
         else if op = OpReportLuns then Some (RqReportLuns (Uint32 (slice cdb 6 10)))
         else if op = OpVerify10 then Some (RqVerify10 bytchk lba32 len16)
         else if op = OpVerify16 then Some (RqVerify16 bytchk lba64 len32)
         else if op = OpCompareAndWrite then Some (RqCompareAndWrite lba64 (cdb ! 13))
         else if op = OpStartStopUnit
           then Some (RqStartStopUnit (b1 AND 0x01 \<noteq> 0) (drop_bit 4 b4) (b4 AND 0x02 \<noteq> 0) (b4 AND 0x01 \<noteq> 0))
         else if op = OpRead10 then Some (RqRead10 dpo fua lba32 len16)
         else if op = OpRead16 then Some (RqRead16 dpo fua lba64 len32)
         else if op = OpWrite10 then Some (RqWrite10 dpo fua lba32 len16)
         else if op = OpWrite16 then Some (RqWrite16 dpo fua lba64 len32)
         else if op = OpSynchronizeCache10 then Some (RqSynchronizeCache10 (b1 AND 0x02 \<noteq> 0) lba32 len16)
         else if op = OpSynchronizeCache16 then Some (RqSynchronizeCache16 (b1 AND 0x02 \<noteq> 0) lba64 len32)
         else if op = OpWriteSame10 then Some (RqWriteSame10 anchor unmap ndob lba32 len16)
         else if op = OpWriteSame16 then Some (RqWriteSame16 anchor unmap ndob lba64 len32)
         else if op = OpUnmap then Some (RqUnmap (b1 AND 0x01 \<noteq> 0) len16)
         else if op = OpInquiry then Some (RqInquiry (b1 AND 0x01 \<noteq> 0) (cdb ! 2) (Uint16 (slice cdb 3 5)))
         else if op = OpReadCapacity10 then Some RqReadCapacity10
         else if op = OpServiceActionIn16 \<and> b1 AND 0x1F = 0x10 then Some (RqReadCapacity16 len32)
         else if op = OpModeSense6 then Some (RqModeSense6 (b1 AND 0x08 \<noteq> 0) pc page (cdb ! 3) b4)
         else if op = OpModeSense10 then Some (RqModeSense10 (b1 AND 0x08 \<noteq> 0) pc page (cdb ! 3) len16)
         else if op = OpModeSelect6 then Some (RqModeSelect6 (b1 AND 0x10 \<noteq> 0) b4)
         else if op = OpModeSelect10 then Some (RqModeSelect10 (b1 AND 0x10 \<noteq> 0) len16)
         else if op = OpPersistReserveIn then Some (RqPersistReserveIn (b1 AND 0x1F) len16)
         else if op = OpPersistReserveOut
           then Some (RqPersistReserveOut (b1 AND 0x1F) (cdb ! 2) (Uint32 (slice cdb 5 9)))
         else None)"

text \<open>A call of a builder, the command it returns and the request the caller means.\<close>

datatype Call =
    CTestUnitReady
  | CRequestSense u8
  | CReportLuns u32
  | CVerify10 u32 u16 "Option list"
  | CVerify16 u64 u32 "Option list"
  | CCompareAndWrite u64 u8 u32 "Reader option"
  | CStartStopUnit u8 bool bool "Option list"
  | CRead10 u32 u16 u32 "Option list"
  | CRead16 u64 u32 u32 "Option list"
  | CWrite10 u32 u16 u32 "Reader option" "Option list"
  | CWrite16 u64 u32 u32 "Reader option" "Option list"
  | CSynchronizeCache10 u32 u16 "Option list"
  | CSynchronizeCache16 u64 u32 "Option list"
  | CWriteSame10 u32 u16 u32 "Reader option" "Option list"
  | CWriteSame16 u64 u32 u32 "Reader option" "Option list"
  | CUnmap "UnmapBlockDescriptor list" "Option list"
  | CInquiry u16
  | CInquiryVPD u8 u16
  | CReadCapacity10
  | CReadCapacity16 u32
  | CModeSense6 u8 u8 u8 "Option list"
  | CModeSense10 u8 u8 u16 "Option list"
  | CModeSelect6 bytes
  | CModeSelect10 bytes
  | CPersistReserveIn u8 u16
  | CPersistReserveOut u8 u8 u64 u64

fun build :: "u64 \<Rightarrow> Call \<Rightarrow> Command" where
  "build lun CTestUnitReady = TestUnitReady lun"
| "build lun (CRequestSense n) = RequestSense lun n"
| "build lun (CReportLuns n) = ReportLuns n"
| "build lun (CVerify10 lba n opts) = Verify10 lun lba n opts"
| "build lun (CVerify16 lba n opts) = Verify16 lun lba n opts"
| "build lun (CCompareAndWrite lba n bs d) = CompareAndWrite lun lba n bs d"
| "build lun (CStartStopUnit p s e opts) = StartStopUnit lun p s e opts"
| "build lun (CRead10 lba n bs opts) = Read10 lun lba n bs opts"
| "build lun (CRead16 lba n bs opts) = Read16 lun lba n bs opts"
| "build lun (CWrite10 lba n bs d opts) = Write10 lun lba n bs d opts"
| "build lun (CWrite16 lba n bs d opts) = Write16 lun lba n bs d opts"
| "build lun (CSynchronizeCache10 lba n opts) = SynchronizeCache10 lun lba n opts"
| "build lun (CSynchronizeCache16 lba n opts) = SynchronizeCache16 lun lba n opts"
| "build lun (CWriteSame10 lba n bs d opts) = WriteSame10 lun lba n bs d opts"
| "build lun (CWriteSame16 lba n bs d opts) = WriteSame16 lun lba n bs d opts"
| "build lun (CUnmap ds opts) = Unmap lun ds opts"
| "build lun (CInquiry n) = Inquiry lun n"
| "build lun (CInquiryVPD p n) = InquiryVPD lun p n"
| "build lun CReadCapacity10 = ReadCapacity10 lun"
| "build lun (CReadCapacity16 n) = ReadCapacity16 lun n"
| "build lun (CModeSense6 p sp n opts) = ModeSense6 lun p sp n opts"
| "build lun (CModeSense10 p sp n opts) = ModeSense10 lun p sp n opts"
| "build lun (CModeSelect6 d) = ModeSelect6 lun d"
| "build lun (CModeSelect10 d) = ModeSelect10 lun d"
| "build lun (CPersistReserveIn sa n) = PersistReserveIn lun sa n"
| "build lun (CPersistReserveOut sa st k k') = PersistReserveOut lun sa st k k'"

fun request :: "Call \<Rightarrow> Request" where
  "request CTestUnitReady = RqTestUnitReady"
| "request (CRequestSense n) = RqRequestSense n"
| "request (CReportLuns n) = RqReportLuns n"
| "request (CVerify10 lba n opts) = RqVerify10 (op_bytchk (applyOptions opts)) lba n"
| "request (CVerify16 lba n opts) = RqVerify16 (op_bytchk (applyOptions opts)) lba n"
| "request (CCompareAndWrite lba n bs d) = RqCompareAndWrite lba n"
| "request (CStartStopUnit p s e opts) = RqStartStopUnit (op_immed (applyOptions opts)) p e s"
| "request (CRead10 lba n bs opts) = RqRead10 (op_dpo (applyOptions opts)) (op_fua (applyOptions opts)) lba n"
| "request (CRead16 lba n bs opts) = RqRead16 (op_dpo (applyOptions opts)) (op_fua (applyOptions opts)) lba n"
| "request (CWrite10 lba n bs d opts) = RqWrite10 (op_dpo (applyOptions opts)) (op_fua (applyOptions opts)) lba n"
| "request (CWrite16 lba n bs d opts) = RqWrite16 (op_dpo (applyOptions opts)) (op_fua (applyOptions opts)) lba n"
| "request (CSynchronizeCache10 lba n opts) = RqSynchronizeCache10 (op_immed (applyOptions opts)) lba n"
| "request (CSynchronizeCache16 lba n opts) = RqSynchronizeCache16 (op_immed (applyOptions opts)) lba n"
| "request (CWriteSame10 lba n bs d opts) =
     RqWriteSame10 (op_anchor (applyOptions opts)) (op_unmap (applyOptions opts)) (op_ndob (applyOptions opts)) lba n"
| "request (CWriteSame16 lba n bs d opts) =
     RqWriteSame16 (op_anchor (applyOptions opts)) (op_unmap (applyOptions opts)) (op_ndob (applyOptions opts)) lba n"
| "request (CUnmap ds opts) = RqUnmap (op_anchor (applyOptions opts)) (of_nat (8 + 16 * length ds))"
| "request (CInquiry n) = RqInquiry False 0 n"
| "request (CInquiryVPD p n) = RqInquiry True p n"
| "request CReadCapacity10 = RqReadCapacity10"
| "request (CReadCapacity16 n) = RqReadCapacity16 n"
| "request (CModeSense6 p sp n opts) =
     RqModeSense6 (op_dbd (applyOptions opts)) (op_pageControl (applyOptions opts)) p sp n"
| "request (CModeSense10 p sp n opts) =
     RqModeSense10 (op_dbd (applyOptions opts)) (op_pageControl (applyOptions opts)) p sp n"
| "request (CModeSelect6 d) = RqModeSelect6 True (of_nat (length d))"
| "request (CModeSelect10 d) = RqModeSelect10 True (of_nat (length d))"
| "request (CPersistReserveIn sa n) = RqPersistReserveIn sa n"
| "request (CPersistReserveOut sa st k k') = RqPersistReserveOut sa st 24"

text \<open>
  Arguments that fit their fields. \<open>WithAnchor\<close> is left out for the WRITE SAME commands: see
  \<open>write_same_anchor_lost\<close>.
\<close>

fun wf_call :: "Call \<Rightarrow> bool" where
  "wf_call (CVerify10 lba n opts) \<longleftrightarrow> op_bytchk (applyOptions opts) < 4"
| "wf_call (CVerify16 lba n opts) \<longleftrightarrow> op_bytchk (applyOptions opts) < 4"
| "wf_call (CStartStopUnit p s e opts) \<longleftrightarrow> p < 16"
| "wf_call (CWriteSame10 lba n bs d opts) \<longleftrightarrow> \<not> op_anchor (applyOptions opts)"
| "wf_call (CWriteSame16 lba n bs d opts) \<longleftrightarrow> \<not> op_anchor (applyOptions opts)"
| "wf_call (CUnmap ds opts) \<longleftrightarrow> 8 + 16 * length ds < 2 ^ 16"
| "wf_call (CModeSense6 p sp n opts) \<longleftrightarrow> p < 64 \<and> op_pageControl (applyOptions opts) < 4"
| "wf_call (CModeSense10 p sp n opts) \<longleftrightarrow> p < 64 \<and> op_pageControl (applyOptions opts) < 4"
| "wf_call (CModeSelect6 d) \<longleftrightarrow> length d < 2 ^ 8"
| "wf_call (CModeSelect10 d) \<longleftrightarrow> length d < 2 ^ 16"
| "wf_call (CPersistReserveIn sa n) \<longleftrightarrow> sa < 32"
| "wf_call (CPersistReserveOut sa st k k') \<longleftrightarrow> sa < 32"
| "wf_call c \<longleftrightarrow> True"

text \<open>The bytes the command moves, and their direction.\<close>

fun transferLen :: "Call \<Rightarrow> nat" where
  "transferLen (CRequestSense n) = unat n"
| "transferLen (CReportLuns n) = unat n"
| "transferLen (CCompareAndWrite lba n bs d) = 2 * unat n * unat bs"
| "transferLen (CRead10 lba n bs opts) = unat n * unat bs"
| "transferLen (CRead16 lba n bs opts) = unat n * unat bs"
| "transferLen (CWrite10 lba n bs d opts) = unat n * unat bs"
| "transferLen (CWrite16 lba n bs d opts) = unat n * unat bs"
| "transferLen (CWriteSame10 lba n bs d opts) = (if op_ndob (applyOptions opts) then 0 else unat bs)"
| "transferLen (CWriteSame16 lba n bs d opts) = (if op_ndob (applyOptions opts) then 0 else unat bs)"
| "transferLen (CUnmap ds opts) = 8 + 16 * length ds"
| "transferLen (CInquiry n) = unat n"
| "transferLen (CInquiryVPD p n) = unat n"
| "transferLen CReadCapacity10 = 8"
| "transferLen (CReadCapacity16 n) = unat n"
| "transferLen (CModeSense6 p sp n opts) = unat n"
| "transferLen (CModeSense10 p sp n opts) = unat n"
| "transferLen (CModeSelect6 d) = length d"
| "transferLen (CModeSelect10 d) = length d"
| "transferLen (CPersistReserveIn sa n) = unat n"
| "transferLen (CPersistReserveOut sa st k k') = 24"
| "transferLen c = 0"

fun isWriteRequest :: "Request \<Rightarrow> bool" where
  "isWriteRequest (RqCompareAndWrite lba n) = True"
| "isWriteRequest (RqWrite10 d f lba n) = True"
| "isWriteRequest (RqWrite16 d f lba n) = True"
| "isWriteRequest (RqWriteSame10 a u nd lba n) = (\<not> nd)"
| "isWriteRequest (RqWriteSame16 a u nd lba n) = (\<not> nd)"
| "isWriteRequest (RqUnmap a n) = True"
| "isWriteRequest (RqModeSelect6 pf n) = True"
| "isWriteRequest (RqModeSelect10 pf n) = True"
| "isWriteRequest (RqPersistReserveOut sa st n) = True"
| "isWriteRequest r = False"

lemmas builder_defs = TestUnitReady_def RequestSense_def ReportLuns_def Verify10_def Verify16_def CompareAndWrite_def
  StartStopUnit_def Read10_def Read16_def Write10_def Write16_def SynchronizeCache10_def SynchronizeCache16_def
  WriteSame10_def WriteSame16_def Unmap_def Inquiry_def InquiryVPD_def ReadCapacity10_def ReadCapacity16_def
  ModeSense6_def ModeSense10_def ModeSelect6_def ModeSelect10_def PersistReserveIn_def PersistReserveOut_def

lemma small_take_bit: "unat (x::u8) < 2 ^ n \<Longrightarrow> take_bit n x = x"
  using mask_below [of x n] by (simp add: take_bit_eq_mask)

lemma drop_push_bit:
  assumes "unat (x::u8) < 2 ^ (8 - n)" "n \<le> 8"
  shows "drop_bit n (push_bit n x) = x"
proof -
  have "drop_bit n (push_bit n (take_bit (8 - n) x)) = take_bit (8 - n) x"
    by (rule bit_word_eqI) (auto simp: bit_simps)
  then show ?thesis by (simp add: small_take_bit [OF assms(1)])
qed

lemma push_4_and: "push_bit 4 (x::u8) AND 1 = 0" "push_bit 4 (x::u8) AND 2 = 0" "(push_bit 4 x AND 240) AND 2 = 0"
  "(push_bit 4 x AND 240) AND 1 = 0"
proof -
  have *: "push_bit 4 x AND k = 0" if "k AND (NOT (mask 4)) = 0" for k :: u8
  proof -
    have "\<not> bit k n" if "4 \<le> n" for n
      using that \<open>k AND (NOT (mask 4)) = 0\<close> 
      by (metis bit_0_eq bit_and_iff bit_mask_iff bit_not_iff bot_apply bot_bool_def impossible_bit leD)
    then show ?thesis by (intro bit_word_eqI) (auto simp: bit_simps)
  qed
  show "push_bit 4 x AND 1 = 0" "push_bit 4 x AND 2 = 0" by (rule *; simp add: mask_eq_exp_minus_1)+
  then show "(push_bit 4 x AND 240) AND 2 = 0" "(push_bit 4 x AND 240) AND 1 = 0"
    by (metis and.assoc and.commute and_zero_eq zero_and_eq)+
qed

lemma field_bits:
  "unat (x::u8) < 4 \<Longrightarrow> drop_bit (Suc 0) (x * 2) AND 3 = x"
  "unat x < 16 \<Longrightarrow> drop_bit 4 (push_bit 4 x) AND 15 = x"
  "unat x < 4 \<Longrightarrow> drop_bit 6 (push_bit 6 x) = x"
proof -
  assume a: "unat x < 4"
  show "drop_bit 6 (push_bit 6 x) = x" using a by (intro drop_push_bit) auto
  have "drop_bit 1 (push_bit 1 x) = x" using a by (intro drop_push_bit) auto
  moreover have "push_bit 1 x = x * 2" by (simp add: push_bit_eq_mult)
  ultimately show "drop_bit (Suc 0) (x * 2) AND 3 = x" using a by (simp add: flags)
next
  assume a: "unat x < 16"
  then have "drop_bit 4 (push_bit 4 x) = x" by (intro drop_push_bit) auto
  then show "drop_bit 4 (push_bit 4 x) AND 15 = x" using a by (simp add: flags)
qed

lemma low_31: "unat (x::u8) < 32 \<Longrightarrow> x AND 31 = x"
  using mask_below [of x 5] by (simp add: mask_eq_exp_minus_1)

lemma push_6_and: "push_bit 6 (x::u8) AND 63 = 0"
proof -
  have "push_bit 6 x AND mask 6 = 0" by (intro bit_word_eqI) (auto simp: bit_simps)
  then show ?thesis by (simp add: mask_eq_exp_minus_1)
qed

lemma drop_6_small: "unat (x::u8) < 64 \<Longrightarrow> drop_bit 6 x = 0"
  by (simp add: word_unat_eq_iff drop_bit_eq_div unat_div)

lemma drop_push_4: "unat (x::u8) < 16 \<Longrightarrow> drop_bit 4 (push_bit 4 x) = x"
  by (intro drop_push_bit) auto

lemma builder_cdb:
  assumes "wf_call c"
  shows "decodeCDB (cm_CDB (build lun c)) = Some (request c)"
  using assms
  by (cases c; simp add: builder_defs zeroCommand_def decodeCDB_def Let_def wire word_less_nat_alt field_bits
      bit.conj_disj_distrib2 [where 'a = "8 word"] push_4_and push_6_and low_bits low_31 drop_6_small drop_push_4)

lemma unat_mult_u32: "unat (a::u32) * unat b < 2 ^ 32 \<Longrightarrow> unat (a * b) = unat a * unat b"
  by (simp add: unat_word_ariths)

lemma unat_widen: "unat (ucast (x::u8) :: u32) = unat x" "unat (ucast (y::u16) :: u32) = unat y"
proof -
  have "unat x < 2 ^ 32" "unat y < 2 ^ 32"
    using order_less_trans [OF unat_u8_less [of x], of "2 ^ 32"] order_less_trans [OF unsigned_less [of y], of "2 ^ 32"] by simp_all
  then show "unat (ucast x :: u32) = unat x" "unat (ucast y :: u32) = unat y"
    by (simp_all add: unsigned_ucast_eq take_bit_nat_eq_self)
qed

lemma unat_double: "2 * unat (n::u8) * unat (b::u32) < 2 ^ 32 \<Longrightarrow> unat (2 * ucast n * b) = 2 * unat n * unat b"
proof -
  assume a: "2 * unat n * unat b < 2 ^ 32"
  have n: "unat (2 * ucast n :: u32) = 2 * unat n"
    using unat_u8_less [of n] by (subst unat_mult_u32) (simp_all add: unat_widen)
  show ?thesis using a by (subst unat_mult_u32) (simp_all add: n)
qed

lemma builder_write:
  assumes "wf_call c"
  shows "cm_Write (build lun c) = isWriteRequest (request c)"
  using assms by (cases c; simp add: builder_defs zeroCommand_def Let_def)

lemma builder_length:
  assumes "wf_call c" "transferLen c < 2 ^ 32"
  shows "unat (cm_ExpectedDataTransferLen (build lun c)) = transferLen c"
  using assms
  by (cases c; simp add: builder_defs zeroCommand_def Let_def unat_of_nat_u32 unat_mult_u32 unat_widen unat_double
      del: of_nat_add of_nat_mult of_nat_Suc)

text \<open>The ANCHOR bit of the WRITE SAME commands is bit 4 (SBC-3); the builders set bit 2.\<close>

lemma write_same_anchor_lost:
  "decodeCDB (cm_CDB (WriteSame16 lun lba n bs d [WithUnmap, WithAnchor])) = Some (RqWriteSame16 False True False lba n)"
  by (simp add: WriteSame16_def option_defs zeroCommand_def decodeCDB_def Let_def wire)

text \<open>The expected transfer length wraps: a read of 4 GiB announces no data at all.\<close>

lemma transfer_length_wraps:
  "cm_ExpectedDataTransferLen (Read16 lun lba 0x800000 512 []) = 0" "transferLen (CRead16 lba 0x800000 512 []) = 2 ^ 32"
  by (simp_all add: Read16_def option_defs zeroCommand_def Let_def)

section \<open>The parameter list of UNMAP\<close>

definition readDescriptor :: "bytes \<Rightarrow> UnmapBlockDescriptor" where
  "readDescriptor b = \<lparr>ub_LBA = Uint64 (slice b 0 8), ub_BlockCount = Uint32 (slice b 8 12)\<rparr>"

definition readDescriptors :: "bytes \<Rightarrow> UnmapBlockDescriptor list" where
  "readDescriptors b = map (\<lambda>i. readDescriptor (slice b (8 + 16 * i) (24 + 16 * i))) [0..<unat (Uint16 (slice b 2 4)) div 16]"

lemma putDescriptors_before: "j \<le> 8 + i * 16 \<Longrightarrow> slice (putDescriptors i ds b) k j = slice b k j"
proof (induction i ds b rule: putDescriptors.induct)
  case (2 i d ds b)
  then show ?case by (simp add: Let_def wire)
qed simp

lemma length_putDescriptors [simp]: "length (putDescriptors i ds b) = length b"
  by (induction i ds b rule: putDescriptors.induct) (simp_all add: Let_def)

lemma slice_slice: "n + i \<le> j \<Longrightarrow> m \<le> j - i \<Longrightarrow> slice (slice b i j) n m = slice b (i + n) (i + m)"
  by (simp add: slice_def drop_take min_def add.commute)

lemma putDescriptors_read:
  assumes "k < length ds" "8 + 16 * (i + length ds) \<le> length b"
  shows "readDescriptor (slice (putDescriptors i ds b) (8 + 16 * (i + k)) (24 + 16 * (i + k))) = ds ! k"
  using assms
proof (induction i ds b arbitrary: k rule: putDescriptors.induct)
  case (2 i d ds b)
  let ?b = "PutUint32 (PutUint64 b (8 + i * 16) (ub_LBA d)) (8 + i * 16 + 8) (ub_BlockCount d)"
  have s: "putDescriptors i (d # ds) b = putDescriptors (Suc i) ds ?b" by (simp only: putDescriptors.simps Let_def)
  show ?case
  proof (cases k)
    case 0
    have "slice (putDescriptors (Suc i) ds ?b) (8 + 16 * i) (24 + 16 * i) = slice ?b (8 + 16 * i) (24 + 16 * i)"
      by (rule putDescriptors_before) simp
    then show ?thesis unfolding s using 2(3) 0 by (simp add: readDescriptor_def slice_slice wire)
  next
    case (Suc k')
    have "readDescriptor (slice (putDescriptors (Suc i) ds ?b) (8 + 16 * (Suc i + k')) (24 + 16 * (Suc i + k'))) = ds ! k'"
      using 2(2,3) Suc by (intro 2(1) [OF refl refl refl]) simp_all
    moreover have "i + k = Suc i + k'" using Suc by simp
    ultimately show ?thesis unfolding s by (simp only: Suc nth_Cons_Suc)
  qed
qed simp

lemma unmapParams_read: "8 + 16 * length ds < 2 ^ 16 \<Longrightarrow> readDescriptors (unmapParams ds) = ds"
proof -
  assume l: "8 + 16 * length ds < 2 ^ 16"
  let ?b = "PutUint16 (PutUint16 (replicate (8 + length ds * 16) 0) 0 (of_nat (8 + length ds * 16 - 2))) 2 (of_nat (length ds * 16))"
  have u: "unmapParams ds = putDescriptors 0 ds ?b" by (simp add: unmapParams_def Let_def)
  have "unat (of_nat (length ds * 16) :: u16) = length ds * 16"
    using l by (simp add: unat_of_nat take_bit_nat_eq_self del: of_nat_mult)
  then have n: "unat (Uint16 (slice (unmapParams ds) 2 4)) = length ds * 16"
    unfolding u by (subst putDescriptors_before) (simp_all add: wire del: of_nat_mult)
  show ?thesis
  proof (rule nth_equalityI)
    show "length (readDescriptors (unmapParams ds)) = length ds" by (simp add: readDescriptors_def n)
    fix k assume "k < length (readDescriptors (unmapParams ds))"
    then have k: "k < length ds" by (simp add: readDescriptors_def n)
    then show "readDescriptors (unmapParams ds) ! k = ds ! k"
      using putDescriptors_read [OF k, of 0 ?b] by (simp add: readDescriptors_def n) (simp add: u)
  qed
qed

section \<open>Properties\<close>



end
