(* ===== verification/Scsi_Sense.thy ===== *)
theory Scsi_Sense
  imports Session_Types Go_Text
begin

text \<open>
  \<open>internal/scsi/sense.go\<close> and the sense keys of \<open>opcode.go\<close>: fixed-format and descriptor-format
  sense data.

  \<open>parseDescriptors\<close> is the loop of the code; the specification reads a list of descriptors
  (\<open>applyDescriptor\<close>). The lemmas: the loop refines the list reading, and the two formats give the
  same sense for the same condition.
\<close>

section \<open>Sense keys\<close>

type_synonym SenseKey = u8

definition senseKeyNames :: "string list" where
  "senseKeyNames = [''NO SENSE'', ''RECOVERED ERROR'', ''NOT READY'', ''MEDIUM ERROR'', ''HARDWARE ERROR'', ''ILLEGAL REQUEST'', ''UNIT ATTENTION'', ''DATA PROTECT'', ''BLANK CHECK'', ''VENDOR SPECIFIC'', ''COPY ABORTED'', ''ABORTED COMMAND'', '''', ''VOLUME OVERFLOW'', ''MISCOMPARE'', '''']"

text \<open>\<open>%02X\<close>.\<close>

definition upperHex :: "u8 \<Rightarrow> string" where
  "upperHex b = map (\<lambda>c. if c \<in> set ''abcdef'' then char_of (of_char c - 32 :: nat) else c) (hexEncode [b])"

definition SenseKey_String :: "SenseKey \<Rightarrow> string" where
  "SenseKey_String sk =
     (if unat sk < length senseKeyNames \<and> senseKeyNames ! unat sk \<noteq> '''' then senseKeyNames ! unat sk
      else ''UNKNOWN SENSE KEY (0x'' @ upperHex sk @ '')'')"

section \<open>Parsing\<close>

record SenseData =
  sd_ResponseCode :: u8
  sd_Key :: SenseKey
  sd_ASC :: u8
  sd_ASCQ :: u8
  sd_Information :: u64
  sd_Valid :: bool
  sd_Filemark :: bool
  sd_EOM :: bool
  sd_ILI :: bool
  sd_Raw :: bytes

datatype SenseError = SenseTooShort nat | UnknownResponseCode u8

definition descriptorStep :: "SenseData \<Rightarrow> bytes \<Rightarrow> nat \<Rightarrow> SenseData" where
  "descriptorStep sd data pos =
     (let descType = data ! pos;
          descLen = unat (data ! (pos + 1))
      in if descType = 0x00 then
           (if descLen \<ge> 10
            then sd\<lparr>sd_Valid := data ! (pos + 2) AND 0x80 \<noteq> 0,
                    sd_Information := Uint64 (slice data (pos + 4) (pos + 12))\<rparr>
            else sd)
         else if descType = 0x04 then
           (if descLen \<ge> 2
            then sd\<lparr>sd_Filemark := data ! (pos + 3) AND 0x80 \<noteq> 0, sd_EOM := data ! (pos + 3) AND 0x40 \<noteq> 0,
                    sd_ILI := data ! (pos + 3) AND 0x20 \<noteq> 0\<rparr>
            else sd)
         else sd)"

function descriptorLoop :: "SenseData \<Rightarrow> bytes \<Rightarrow> nat \<Rightarrow> nat \<Rightarrow> SenseData" where
  "descriptorLoop sd data descEnd pos =
     (if pos + 2 \<le> descEnd then
        let descDataEnd = pos + 2 + unat (data ! (pos + 1))
        in if descDataEnd > descEnd then sd
           else descriptorLoop (descriptorStep sd data pos) data descEnd descDataEnd
      else sd)"
  by pat_completeness auto
termination by (relation "measure (\<lambda>(sd, data, descEnd, pos). descEnd - pos)") auto

definition parseDescriptors :: "SenseData \<Rightarrow> bytes \<Rightarrow> SenseData" where
  "parseDescriptors sd data =
     (if length data < 8 then sd
      else let addlLen = unat (data ! 7);
               descStart = 8;
               descEnd = descStart + addlLen;
               descEnd = (if descEnd > length data then length data else descEnd)
           in descriptorLoop sd data descEnd descStart)"

definition ParseSense :: "bytes \<Rightarrow> SenseError + SenseData" where
  "ParseSense data =
     (if length data < 2 then Inl (SenseTooShort (length data))
      else
        let responseCode = data ! 0 AND 0x7F;
            sd = \<lparr>sd_ResponseCode = responseCode, sd_Key = 0, sd_ASC = 0, sd_ASCQ = 0, sd_Information = 0,
                  sd_Valid = False, sd_Filemark = False, sd_EOM = False, sd_ILI = False, sd_Raw = data\<rparr>
        in if responseCode = 0x70 \<or> responseCode = 0x71 then
             (if length data < 18 then Inl (SenseTooShort (length data))
              else Inr (sd\<lparr>sd_Valid := data ! 0 AND 0x80 \<noteq> 0,
                          sd_Filemark := data ! 2 AND 0x80 \<noteq> 0,
                          sd_EOM := data ! 2 AND 0x40 \<noteq> 0,
                          sd_ILI := data ! 2 AND 0x20 \<noteq> 0,
                          sd_Key := data ! 2 AND 0x0F,
                          sd_Information := ucast (Uint32 (slice data 3 7)),
                          sd_ASC := data ! 12,
                          sd_ASCQ := data ! 13\<rparr>))
           else if responseCode = 0x72 \<or> responseCode = 0x73 then
             (if length data < 8 then Inl (SenseTooShort (length data))
              else Inr (parseDescriptors
                     (sd\<lparr>sd_Key := data ! 1 AND 0x0F, sd_ASC := data ! 2, sd_ASCQ := data ! 3\<rparr>) data))
           else Inl (UnknownResponseCode responseCode))"

section \<open>Texts\<close>

definition ascTable :: "(u16 \<times> string) list" where
  "ascTable =
    [(0x0000, ''No additional sense information''),
     (0x0001, ''Filemark detected''),
     (0x0002, ''End-of-partition/medium detected''),
     (0x0004, ''Beginning-of-partition/medium detected''),
     (0x0005, ''End-of-data detected''),
     (0x0100, ''No index/sector signal''),
     (0x0200, ''No seek complete''),
     (0x0300, ''Peripheral device write fault''),
     (0x0400, ''Not ready, cause not reportable''),
     (0x0401, ''Not ready, becoming ready''),
     (0x0402, ''Not ready, initializing command required''),
     (0x0403, ''Not ready, manual intervention required''),
     (0x0404, ''Not ready, format in progress''),
     (0x0407, ''Not ready, operation in progress''),
     (0x0408, ''Not ready, long write in progress''),
     (0x0409, ''Not ready, self-test in progress''),
     (0x0411, ''Not ready, notify (enable spinup) required''),
     (0x0500, ''Logical unit does not respond to selection''),
     (0x0600, ''No reference position found''),
     (0x0700, ''Multiple peripheral devices selected''),
     (0x0800, ''Logical unit communication failure''),
     (0x0801, ''Logical unit communication time-out''),
     (0x0802, ''Logical unit communication parity error''),
     (0x0803, ''Logical unit communication CRC error (ultra-DMA/32)''),
     (0x0900, ''Track following error''),
     (0x0A00, ''Error log overflow''),
     (0x0B00, ''Warning''),
     (0x0B01, ''Warning, specified temperature exceeded''),
     (0x0C00, ''Write error''),
     (0x0C02, ''Write error, auto reallocation failed''),
     (0x1000, ''ID CRC or ECC error''),
     (0x1100, ''Unrecovered read error''),
     (0x1101, ''Read retries exhausted''),
     (0x1104, ''Unrecovered read error, auto reallocate failed''),
     (0x1200, ''Address mark not found for ID field''),
     (0x1400, ''Recorded entity not found''),
     (0x1500, ''Random positioning error''),
     (0x1600, ''Data synchronization mark error''),
     (0x1700, ''Recovered data with no error correction applied''),
     (0x1800, ''Recovered data with retries''),
     (0x1900, ''Defect list error''),
     (0x1A00, ''Parameter list length error''),
     (0x2000, ''Invalid command operation code''),
     (0x2100, ''Logical block address out of range''),
     (0x2400, ''Invalid field in CDB''),
     (0x2500, ''Logical unit not supported''),
     (0x2600, ''Invalid field in parameter list''),
     (0x2700, ''Write protected''),
     (0x2800, ''Not ready to ready change, medium may have changed''),
     (0x2900, ''Power on, reset, or bus device reset occurred''),
     (0x2901, ''Power on occurred''),
     (0x2902, ''SCSI bus reset occurred''),
     (0x2903, ''Bus device reset function occurred''),
     (0x2904, ''Device internal reset''),
     (0x2A00, ''Parameters changed''),
     (0x2A01, ''Mode parameters changed''),
     (0x2A02, ''Log parameters changed''),
     (0x2A03, ''Reservations preempted''),
     (0x2A04, ''Reservations released''),
     (0x2A05, ''Registrations preempted''),
     (0x2C00, ''Command sequence error''),
     (0x2F00, ''Commands cleared by another initiator''),
     (0x3000, ''Incompatible medium installed''),
     (0x3003, ''Cleaning cartridge installed''),
     (0x3100, ''Medium format corrupted''),
     (0x3200, ''No defect spare location available''),
     (0x3500, ''Enclosure failure''),
     (0x3700, ''Rounded parameter''),
     (0x3900, ''Saving parameters not supported''),
     (0x3A00, ''Medium not present''),
     (0x3B00, ''Sequential positioning error''),
     (0x3D00, ''Invalid bits in identify message''),
     (0x3E00, ''Logical unit has not self-configured yet''),
     (0x3F00, ''Target operating conditions have changed''),
     (0x3F01, ''Microcode has been changed''),
     (0x3F02, ''Changed operating definition''),
     (0x3F03, ''Inquiry data has changed''),
     (0x4000, ''RAM failure''),
     (0x4100, ''Data path failure''),
     (0x4200, ''Power-on or self-test failure''),
     (0x4300, ''Message error''),
     (0x4400, ''Internal target failure''),
     (0x4500, ''Select or reselect failure''),
     (0x4700, ''SCSI parity error''),
     (0x4800, ''Initiator detected error message received''),
     (0x4900, ''Invalid message error''),
     (0x4E00, ''Overlapped commands attempted''),
     (0x5300, ''Media load or eject failed''),
     (0x5500, ''System resource failure''),
     (0x5D00, ''Failure prediction threshold exceeded''),
     (0x5E00, ''Low power condition on'')]"

definition ascLookup :: "u8 \<Rightarrow> u8 \<Rightarrow> string" where
  "ascLookup asc ascq =
     (let key = push_bit 8 (ucast asc) OR ucast ascq
      in case map_of ascTable key of Some desc \<Rightarrow> desc | None \<Rightarrow> '''')"

definition SenseData_String :: "SenseData \<Rightarrow> string" where
  "SenseData_String sd =
     (let desc = ascLookup (sd_ASC sd) (sd_ASCQ sd)
      in if desc \<noteq> '''' then SenseKey_String (sd_Key sd) @ '': '' @ desc
         else SenseKey_String (sd_Key sd) @ '': UNKNOWN (0x'' @ upperHex (sd_ASC sd) @ ''/0x''
                @ upperHex (sd_ASCQ sd) @ '')'')"

declare descriptorLoop.simps [simp del]

section \<open>Descriptors as a list\<close>

text \<open>A descriptor is its type and its data.\<close>

type_synonym Descriptor = "u8 \<times> bytes"

definition wf_descriptor :: "Descriptor \<Rightarrow> bool" where
  "wf_descriptor d \<longleftrightarrow> length (snd d) < 256"

definition encodeDescriptor :: "Descriptor \<Rightarrow> bytes" where
  "encodeDescriptor d = [fst d, of_nat (length (snd d))] @ snd d"

definition applyDescriptor :: "SenseData \<Rightarrow> Descriptor \<Rightarrow> SenseData" where
  "applyDescriptor sd d =
     (if fst d = 0x00 \<and> length (snd d) \<ge> 10
      then sd\<lparr>sd_Valid := snd d ! 0 AND 0x80 \<noteq> 0, sd_Information := Uint64 (slice (snd d) 2 10)\<rparr>
      else if fst d = 0x04 \<and> length (snd d) \<ge> 2
      then sd\<lparr>sd_Filemark := snd d ! 1 AND 0x80 \<noteq> 0, sd_EOM := snd d ! 1 AND 0x40 \<noteq> 0,
              sd_ILI := snd d ! 1 AND 0x20 \<noteq> 0\<rparr>
      else sd)"

lemma slice_shift: "length a = k \<Longrightarrow> slice (a @ b) (k + i) (k + j) = slice b i j"
  by (simp add: slice_def)

lemma encoded_nth:
  assumes "length pre = pos" "wf_descriptor d"
  shows "(pre @ encodeDescriptor d @ post) ! pos = fst d"
    "unat ((pre @ encodeDescriptor d @ post) ! Suc pos) = length (snd d)"
    "i < length (snd d) \<Longrightarrow> (pre @ encodeDescriptor d @ post) ! (pos + 2 + i) = snd d ! i"
  using assms
  by (simp_all add: nth_append encodeDescriptor_def wf_descriptor_def unat_of_nat take_bit_nat_eq_self)

lemma descriptorStep_encoded:
  assumes "wf_descriptor d" "length pre = pos"
  shows "descriptorStep sd (pre @ encodeDescriptor d @ post) pos = applyDescriptor sd d"
proof -
  let ?data = "pre @ encodeDescriptor d @ post"
  note n = encoded_nth [where post = post, OF assms(2,1)]
  have "?data ! (pos + 2) = snd d ! 0" if "length (snd d) \<ge> 1"
    using n(3) [of 0] that by (cases "snd d") simp_all
  moreover have "?data ! (pos + 3) = snd d ! 1" if "length (snd d) \<ge> 2"
    using n(3) [of 1] that by (simp add: numeral_eq_Suc)
  moreover have "slice ?data (pos + 4) (pos + 12) = slice (snd d) 2 10" if "length (snd d) \<ge> 10"
    using that assms(2) by (simp add: slice_shift encodeDescriptor_def) (simp add: slice_def)
  ultimately show ?thesis by (simp add: descriptorStep_def applyDescriptor_def Let_def n(1,2))
qed

lemma descriptorLoop_encoded:
  assumes "list_all wf_descriptor ds" "length pre = pos" "descEnd = pos + length (concat (map encodeDescriptor ds))"
  shows "descriptorLoop sd (pre @ concat (map encodeDescriptor ds) @ post) descEnd pos = foldl applyDescriptor sd ds"
  using assms
proof (induction ds arbitrary: pre pos sd)
  case Nil
  then show ?case by (subst descriptorLoop.simps) simp
next
  case (Cons d ds)
  let ?rest = "concat (map encodeDescriptor ds) @ post"
  let ?data = "pre @ encodeDescriptor d @ ?rest"
  have wd: "wf_descriptor d" using Cons.prems(1) by simp
  have ld: "length (encodeDescriptor d) = 2 + length (snd d)" by (simp add: encodeDescriptor_def)
  have "descriptorLoop sd ?data descEnd pos
      = descriptorLoop (descriptorStep sd ?data pos) ?data descEnd (pos + 2 + length (snd d))"
    using Cons.prems(3) encoded_nth(2) [where post = ?rest, OF Cons.prems(2) wd]
    by (subst descriptorLoop.simps) (simp add: ld)
  also have "descriptorStep sd ?data pos = applyDescriptor sd d"
    by (rule descriptorStep_encoded [OF wd Cons.prems(2)])
  also have "descriptorLoop (applyDescriptor sd d) ?data descEnd (pos + 2 + length (snd d))
      = foldl applyDescriptor (applyDescriptor sd d) ds"
    using Cons.IH [of "pre @ encodeDescriptor d" "pos + 2 + length (snd d)" "applyDescriptor sd d"] Cons.prems
    by (simp add: ld)
  finally show ?case by simp
qed

lemma ParseSense_descriptors:
  assumes "list_all wf_descriptor ds" "length (concat (map encodeDescriptor ds)) < 256" "rc = 0x72 \<or> rc = 0x73" "unat key < 16"
  shows "ParseSense ([rc, key, asc, ascq, 0, 0, 0, of_nat (length (concat (map encodeDescriptor ds)))]
      @ concat (map encodeDescriptor ds)) =
    Inr (foldl applyDescriptor \<lparr>sd_ResponseCode = rc, sd_Key = key, sd_ASC = asc, sd_ASCQ = ascq, sd_Information = 0,
           sd_Valid = False, sd_Filemark = False, sd_EOM = False, sd_ILI = False,
           sd_Raw = [rc, key, asc, ascq, 0, 0, 0, of_nat (length (concat (map encodeDescriptor ds)))]
             @ concat (map encodeDescriptor ds)\<rparr> ds)"
proof -
  let ?h = "[rc, key, asc, ascq, 0, 0, 0, of_nat (length (concat (map encodeDescriptor ds)))]"
  let ?b = "concat (map encodeDescriptor ds)"
  have l: "unat ((?h @ ?b) ! 7) = length ?b"
    using assms(2) by (simp add: unat_of_nat take_bit_nat_eq_self)
  have r: "(?h @ ?b) ! 0 = rc" "(?h @ ?b) ! Suc 0 = key" "(?h @ ?b) ! 2 = asc" "(?h @ ?b) ! 3 = ascq"
    by simp_all
  have c: "rc AND 0x7F = rc" using assms(3) by auto
  have "parseDescriptors sd (?h @ ?b) = foldl applyDescriptor sd ds" for sd
    using descriptorLoop_encoded [OF assms(1), of ?h 8 "8 + length ?b" sd "[]"]
    by (simp add: parseDescriptors_def l del: append_Cons append.simps)
  moreover have "\<not> length (?h @ ?b) < 8" by simp
  ultimately show ?thesis
    using assms(3) by (auto simp: ParseSense_def Let_def r c low_bits(3) [OF assms(4)] simp del: append_Cons append.simps)
qed

section \<open>One condition in both formats\<close>

record SenseCondition =
  se_key :: SenseKey
  se_asc :: u8
  se_ascq :: u8
  se_info :: "u32 option"
  se_filemark :: bool
  se_eom :: bool
  se_ili :: bool

definition flagByte :: "SenseCondition \<Rightarrow> u8" where
  "flagByte c = (if se_filemark c then 0x80 else 0) OR (if se_eom c then 0x40 else 0) OR (if se_ili c then 0x20 else 0)"

definition fixedSense :: "bool \<Rightarrow> SenseCondition \<Rightarrow> bytes" where
  "fixedSense deferred c =
     [(if se_info c = None then 0 else 0x80) OR (if deferred then 0x71 else 0x70), 0, flagByte c OR se_key c]
     @ be32 (case se_info c of Some i \<Rightarrow> i | None \<Rightarrow> 0) @ [10, 0, 0, 0, 0, se_asc c, se_ascq c, 0, 0, 0, 0]"

definition infoDescriptors :: "SenseCondition \<Rightarrow> Descriptor list" where
  "infoDescriptors c = (case se_info c of Some i \<Rightarrow> [(0x00, [0x80, 0] @ be64 (ucast i))] | None \<Rightarrow> [])"

definition streamDescriptor :: "SenseCondition \<Rightarrow> Descriptor" where
  "streamDescriptor c = (0x04, [0, flagByte c])"

definition descriptorSense :: "bool \<Rightarrow> SenseCondition \<Rightarrow> Descriptor list \<Rightarrow> bytes" where
  "descriptorSense deferred c ds =
     [if deferred then 0x73 else 0x72, se_key c, se_asc c, se_ascq c, 0, 0, 0,
      of_nat (length (concat (map encodeDescriptor ds)))] @ concat (map encodeDescriptor ds)"

text \<open>The sense a condition stands for, apart from the response code and the raw bytes.\<close>

definition conditionSense :: "u8 \<Rightarrow> bytes \<Rightarrow> SenseCondition \<Rightarrow> SenseData" where
  "conditionSense rc raw c =
     \<lparr>sd_ResponseCode = rc, sd_Key = se_key c, sd_ASC = se_asc c, sd_ASCQ = se_ascq c,
      sd_Information = (case se_info c of Some i \<Rightarrow> ucast i | None \<Rightarrow> 0), sd_Valid = (se_info c \<noteq> None),
      sd_Filemark = se_filemark c, sd_EOM = se_eom c, sd_ILI = se_ili c, sd_Raw = raw\<rparr>"

lemma flagByte_bits:
  "(flagByte c AND 0x80 \<noteq> 0) = se_filemark c" "(flagByte c AND 0x40 \<noteq> 0) = se_eom c" "(flagByte c AND 0x20 \<noteq> 0) = se_ili c"
  "flagByte c AND 0x0F = 0"
  by (auto simp: flagByte_def)

lemma high_bits_16: "unat (x::u8) < 16 \<Longrightarrow> x AND 64 = 0 \<and> x AND 32 = 0"
  using above_mask [of x 4] by (simp add: mask_eq_exp_minus_1)

lemma ParseSense_fixed:
  assumes "unat (se_key c) < 16"
  shows "ParseSense (fixedSense deferred c) =
    Inr (conditionSense (if deferred then 0x71 else 0x70) (fixedSense deferred c) c)"
proof -
  let ?d = "fixedSense deferred c"
  have n: "?d ! 0 = (if se_info c = None then 0 else 0x80) OR (if deferred then 0x71 else 0x70)"
    "?d ! 2 = flagByte c OR se_key c" "length ?d = 18" "?d ! 12 = se_asc c" "?d ! 13 = se_ascq c"
    "slice ?d 3 7 = be32 (case se_info c of Some i \<Rightarrow> i | None \<Rightarrow> 0)"
    by (simp_all add: fixedSense_def be32_def slice_def)
  have k: "(?d ! 2) AND 0x0F = se_key c" "(?d ! 2 AND 0x80 \<noteq> 0) = se_filemark c"
    "(?d ! 2 AND 0x40 \<noteq> 0) = se_eom c" "(?d ! 2 AND 0x20 \<noteq> 0) = se_ili c"
    using assms flagByte_bits [of c] high_bits_16 [OF assms]
    by (simp_all add: n bit.conj_disj_distrib2 [where 'a = "8 word"] low_bits high_bits)
  have r: "?d ! 0 AND 0x7F = (if deferred then 0x71 else 0x70)" "(?d ! 0 AND 0x80 \<noteq> 0) = (se_info c \<noteq> None)"
    by (auto simp: n(1))
  show ?thesis
    by (simp add: ParseSense_def Let_def conditionSense_def n(3-6) k r wire split: option.splits)
qed

lemma applyDescriptor_other: "\<forall>d\<in>set ds. fst d \<noteq> 0 \<and> fst d \<noteq> 4 \<Longrightarrow> foldl applyDescriptor sd ds = sd"
  by (induction ds arbitrary: sd) (simp_all add: applyDescriptor_def)

section \<open>Properties\<close>

lemma slice_be64: "slice (a # b # be64 x) 2 10 = be64 x"
  by (simp add: slice_def)

text \<open>C30. Fixed-format and descriptor-format sense data for the same condition parse to the same sense (key,
  additional code, information, flags), current or deferred, also when other descriptors surround the ones
  that are read.\<close>

theorem sense_formats_agree:
  assumes "unat (se_key c) < 16" "\<forall>d\<in>set (pre @ mid @ post). fst d \<noteq> 0 \<and> fst d \<noteq> 4 \<and> wf_descriptor d"
    "ds = pre @ infoDescriptors c @ mid @ [streamDescriptor c] @ post"
    "length (concat (map encodeDescriptor ds)) < 256"
  shows "ParseSense (fixedSense deferred c) =
      Inr (conditionSense (if deferred then 0x71 else 0x70) (fixedSense deferred c) c) \<and>
    ParseSense (descriptorSense deferred c ds) =
      Inr (conditionSense (if deferred then 0x73 else 0x72) (descriptorSense deferred c ds) c)"
proof -
  have "list_all wf_descriptor ds"
    using assms(2) by (auto simp: assms(3) list_all_iff infoDescriptors_def streamDescriptor_def wf_descriptor_def split: option.splits)
  then have p: "ParseSense (descriptorSense deferred c ds) =
    Inr (foldl applyDescriptor \<lparr>sd_ResponseCode = (if deferred then 0x73 else 0x72), sd_Key = se_key c, sd_ASC = se_asc c,
           sd_ASCQ = se_ascq c, sd_Information = 0, sd_Valid = False, sd_Filemark = False, sd_EOM = False, sd_ILI = False,
           sd_Raw = descriptorSense deferred c ds\<rparr> ds)"
    using ParseSense_descriptors [OF _ assms(4), of "if deferred then 0x73 else 0x72" "se_key c" "se_asc c" "se_ascq c"] assms(1)
    by (simp add: descriptorSense_def)
  have o: "\<forall>d\<in>set pre. fst d \<noteq> 0 \<and> fst d \<noteq> 4" "\<forall>d\<in>set mid. fst d \<noteq> 0 \<and> fst d \<noteq> 4"
    "\<forall>d\<in>set post. fst d \<noteq> 0 \<and> fst d \<noteq> 4" using assms(2) by auto
  have "foldl applyDescriptor \<lparr>sd_ResponseCode = rc, sd_Key = se_key c, sd_ASC = se_asc c,
           sd_ASCQ = se_ascq c, sd_Information = 0, sd_Valid = False, sd_Filemark = False, sd_EOM = False, sd_ILI = False,
           sd_Raw = raw\<rparr> ds = conditionSense rc raw c" for rc raw
    using flagByte_bits [of c]
    by (cases "se_info c")
      (simp_all add: assms(3) applyDescriptor_other [OF o(1)] applyDescriptor_other [OF o(2)] applyDescriptor_other [OF o(3)]
        infoDescriptors_def streamDescriptor_def applyDescriptor_def conditionSense_def slice_be64 Uint64_be64)
  then show ?thesis using p ParseSense_fixed [OF assms(1)] by simp
qed

definition sampleCondition :: SenseCondition where
  "sampleCondition = \<lparr>se_key = 3, se_asc = 0x11, se_ascq = 0, se_info = Some 0x1234, se_filemark = False, se_eom = True,
     se_ili = False\<rparr>"

theorem sense_formats_agree_witness:
  "\<exists>ds. length ds = 3 \<and> ParseSense (descriptorSense True sampleCondition ds) =
      Inr (conditionSense 0x73 (descriptorSense True sampleCondition ds) sampleCondition) \<and>
    sd_Information (conditionSense 0x73 [] sampleCondition) = 0x1234"
proof -
  let ?ds = "[(9, [1])] @ infoDescriptors sampleCondition @ [] @ [streamDescriptor sampleCondition] @ []"
  show ?thesis
    using sense_formats_agree [of sampleCondition "[(9, [1])]" "[]" "[]" ?ds True]
    by (intro exI [of _ ?ds])
      (simp add: sampleCondition_def infoDescriptors_def streamDescriptor_def wf_descriptor_def encodeDescriptor_def conditionSense_def)
qed

end
