(* ===== verification/Scsi_Parse.thy ===== *)
theory Scsi_Parse
  imports Scsi_Sense
begin

text \<open>
  The response parsers of \<open>internal/scsi\<close> (\<open>checkResult\<close> and \<open>CommandError\<close> of \<open>opcode.go\<close>,
  \<open>commands.go\<close>, \<open>inquiry.go\<close>, \<open>capacity.go\<close>, \<open>vpd.go\<close>, \<open>modesense.go\<close>, \<open>reservations.go\<close>).

  A parser may return or panic (\<open>Panics\<close>). \<open>accesses data spans x\<close> is \<open>x\<close> when every slice or index
  that the code takes of \<open>data\<close> (the pairs of bounds in \<open>spans\<close>, an index \<open>i\<close> being \<open>(i, i + 1)\<close>) is
  in bounds, and the run-time panic otherwise. The data of a response comes from the target, so
  that no parser panics is a safety property; the locale \<open>response_parser\<close> states the contract
  that all of them share.
\<close>

section \<open>Outcomes\<close>

datatype 'a Outcome = Returns 'a | Panics

definition accesses :: "bytes \<Rightarrow> (nat \<times> nat) list \<Rightarrow> 'a Outcome \<Rightarrow> 'a Outcome" where
  "accesses data spans x = (if list_all (\<lambda>(i, j). i \<le> j \<and> j \<le> length data) spans then x else Panics)"

datatype ScsiError =
    TransportError SessionError
  | CommandError u8 "SenseData option"
  | ReadDataError IOError
  | ResponseTooShort nat
  | BadDescriptor nat nat

abbreviation (input) StatusGood :: u8 where "StatusGood \<equiv> 0x00"
abbreviation (input) StatusCheckCondition :: u8 where "StatusCheckCondition \<equiv> 0x02"

definition checkResult :: "Result \<Rightarrow> ScsiError + bytes" where
  "checkResult result =
     (case rs_Err result of
        Some e \<Rightarrow> Inl (TransportError e)
      | None \<Rightarrow>
          if rs_Status result \<noteq> StatusGood
          then let sense = (if length (rs_SenseData result) > 0
                            then (case ParseSense (rs_SenseData result) of Inr sd \<Rightarrow> Some sd | Inl _ \<Rightarrow> None)
                            else None)
               in Inl (CommandError (rs_Status result) sense)
          else (case rs_Data result of
                  None \<Rightarrow> Inr []
                | Some r \<Rightarrow> (case io_ReadAll r of Inl e \<Rightarrow> Inl (ReadDataError e) | Inr d \<Rightarrow> Inr d)))"

definition IsSenseKey :: "ScsiError \<Rightarrow> SenseKey \<Rightarrow> bool" where
  "IsSenseKey err key =
     (case err of CommandError status (Some sense) \<Rightarrow> sd_Key sense = key | _ \<Rightarrow> False)"

text \<open>The beginning that all parsers share.\<close>

definition parseWith :: "nat \<Rightarrow> (bytes \<Rightarrow> (ScsiError + 'a) Outcome) \<Rightarrow> Result \<Rightarrow> (ScsiError + 'a) Outcome" where
  "parseWith need body result =
     (case checkResult result of
        Inl e \<Rightarrow> Returns (Inl e)
      | Inr data \<Rightarrow> if length data < need then Returns (Inl (ResponseTooShort (length data))) else body data)"

section \<open>REPORT LUNS and INQUIRY\<close>

text \<open>
  The loop over 8-byte entries that REPORT LUNS and READ KEYS share, with \<open>f\<close> reading one entry. The
  index and the offset are 32-bit; the first argument counts the iterations left.
\<close>

fun entriesLoop :: "(bytes \<Rightarrow> u64) \<Rightarrow> nat \<Rightarrow> u32 \<Rightarrow> bytes \<Rightarrow> u64 list \<Rightarrow> (u64 list) Outcome" where
  "entriesLoop f 0 i data xs = Returns xs"
| "entriesLoop f (Suc n) i data xs =
     (let offset = 8 + i * 8
      in if offset + 8 > of_nat (length data) then Returns xs
         else accesses data [(unat offset, unat (offset + 8))]
                (entriesLoop f n (i + 1) data (xs @ [f (slice data (unat offset) (unat (offset + 8)))])))"

definition mapReturns :: "('a \<Rightarrow> 'b) \<Rightarrow> 'a Outcome \<Rightarrow> 'b Outcome" where
  "mapReturns f x = (case x of Returns a \<Rightarrow> Returns (f a) | Panics \<Rightarrow> Panics)"

definition ParseReportLuns :: "Result \<Rightarrow> (ScsiError + u64 list) Outcome" where
  "ParseReportLuns = parseWith 8 (\<lambda>data.
     let listLen = Uint32 (slice data 0 4);
         numLUNs = listLen div 8
     in accesses data [(0, 4)] (mapReturns Inr (entriesLoop DecodeSAMLUN (unat numLUNs) 0 data [])))"

definition trimRightSpaces :: "string \<Rightarrow> string" where
  "trimRightSpaces s = rev (dropWhile (\<lambda>c. c = CHR '' '') (rev s))"

record InquiryResponse =
  iq_PeripheralDeviceType :: u8
  iq_PeripheralQualifier :: u8
  iq_Vendor :: string
  iq_Product :: string
  iq_Revision :: string
  iq_AdditionalLength :: u8
  iq_Raw :: bytes

definition ParseInquiry :: "Result \<Rightarrow> (ScsiError + InquiryResponse) Outcome" where
  "ParseInquiry = parseWith 36 (\<lambda>data.
     accesses data [(0, 1), (0, 1), (4, 5), (8, 16), (16, 32), (32, 36)]
       (Returns (Inr
          \<lparr>iq_PeripheralDeviceType = data ! 0 AND 0x1F,
           iq_PeripheralQualifier = drop_bit 5 (data ! 0) AND 0x07,
           iq_Vendor = trimRightSpaces (string_of (slice data 8 16)),
           iq_Product = trimRightSpaces (string_of (slice data 16 32)),
           iq_Revision = trimRightSpaces (string_of (slice data 32 36)),
           iq_AdditionalLength = data ! 4,
           iq_Raw = data\<rparr>)))"

section \<open>READ CAPACITY\<close>

record ReadCapacity10Response =
  r10_LastLBA :: u32
  r10_BlockSize :: u32

record ReadCapacity16Response =
  r16_LastLBA :: u64
  r16_BlockSize :: u32
  r16_ProtectionEnabled :: bool
  r16_ProtectionType :: u8
  r16_LogicalBlocksPerPhysicalBlock :: u8
  r16_LowestAlignedLBA :: u16
  r16_Raw :: bytes

definition ParseReadCapacity10 :: "Result \<Rightarrow> (ScsiError + ReadCapacity10Response) Outcome" where
  "ParseReadCapacity10 = parseWith 8 (\<lambda>data.
     accesses data [(0, 4), (4, 8)]
       (Returns (Inr \<lparr>r10_LastLBA = Uint32 (slice data 0 4), r10_BlockSize = Uint32 (slice data 4 8)\<rparr>)))"

definition ParseReadCapacity16 :: "Result \<Rightarrow> (ScsiError + ReadCapacity16Response) Outcome" where
  "ParseReadCapacity16 = parseWith 32 (\<lambda>data.
     accesses data [(0, 8), (8, 12), (12, 13), (12, 13), (13, 14), (14, 16)]
       (Returns (Inr
          \<lparr>r16_LastLBA = Uint64 (slice data 0 8),
           r16_BlockSize = Uint32 (slice data 8 12),
           r16_ProtectionEnabled = (data ! 12 AND 0x01 \<noteq> 0),
           r16_ProtectionType = drop_bit 1 (data ! 12) AND 0x07,
           r16_LogicalBlocksPerPhysicalBlock = data ! 13 AND 0x0F,
           r16_LowestAlignedLBA = Uint16 (slice data 14 16) AND 0x3FFF,
           r16_Raw = data\<rparr>)))"

section \<open>Vital product data\<close>

record Designator =
  dg_CodeSet :: u8
  dg_ProtocolID :: u8
  dg_Type :: u8
  dg_Association :: u8
  dg_Identifier :: bytes

record BlockLimits =
  bl_MaxCompareAndWriteLength :: u8
  bl_OptimalTransferLengthGranularity :: u16
  bl_MaxTransferLength :: u32
  bl_OptimalTransferLength :: u32
  bl_MaxUnmapLBACount :: u32
  bl_MaxUnmapBlockDescCount :: u32
  bl_OptimalUnmapGranularity :: u32
  bl_Raw :: bytes

record BlockCharacteristics =
  bc_MediumRotationRate :: u16
  bc_NominalFormFactor :: u8
  bc_Raw :: bytes

record LogicalBlockProvisioning =
  lb_ThresholdExponent :: u8
  lb_LBPU :: bool
  lb_LBPWS :: bool
  lb_LBPWS10 :: bool
  lb_ProvisioningType :: u8
  lb_Raw :: bytes

definition ParseVPDSupportedPages :: "Result \<Rightarrow> (ScsiError + u8 list) Outcome" where
  "ParseVPDSupportedPages = parseWith 4 (\<lambda>data.
     let pageLen = unat (data ! 3);
         end' = 4 + pageLen;
         end' = (if end' > length data then length data else end')
     in accesses data [(3, 4), (4, end')] (Returns (Inr (slice data 4 end'))))"

definition ParseVPDSerialNumber :: "Result \<Rightarrow> (ScsiError + string) Outcome" where
  "ParseVPDSerialNumber = parseWith 4 (\<lambda>data.
     let pageLen = unat (data ! 3);
         end' = 4 + pageLen;
         end' = (if end' > length data then length data else end')
     in accesses data [(3, 4), (4, end')] (Returns (Inr (trimRightSpaces (string_of (slice data 4 end'))))))"

function designatorLoop :: "bytes \<Rightarrow> nat \<Rightarrow> nat \<Rightarrow> Designator list \<Rightarrow> (ScsiError + Designator list) Outcome" where
  "designatorLoop data end' offset desigs =
     (if offset + 4 \<le> end' then
        accesses data [(offset + 3, offset + 4)]
          (let idLen = unat (data ! (offset + 3))
           in if offset + 4 + idLen > end' then Returns (Inl (BadDescriptor offset idLen))
              else accesses data [(offset, offset + 1), (offset + 1, offset + 2), (offset + 4, offset + 4 + idLen)]
                (designatorLoop data end' (offset + 4 + idLen)
                   (desigs @ [\<lparr>dg_CodeSet = data ! offset AND 0x0F,
                               dg_ProtocolID = drop_bit 4 (data ! offset) AND 0x0F,
                               dg_Type = data ! (offset + 1) AND 0x0F,
                               dg_Association = drop_bit 4 (data ! (offset + 1)) AND 0x03,
                               dg_Identifier = slice data (offset + 4) (offset + 4 + idLen)\<rparr>])))
      else Returns (Inr desigs))"
  by pat_completeness auto
termination by (relation "measure (\<lambda>(data, e, offset, desigs). e - offset)") auto

definition ParseVPDDeviceIdentification :: "Result \<Rightarrow> (ScsiError + Designator list) Outcome" where
  "ParseVPDDeviceIdentification = parseWith 4 (\<lambda>data.
     let pageLen = unat (Uint16 (slice data 2 4));
         end' = 4 + pageLen;
         end' = (if end' > length data then length data else end')
     in accesses data [(2, 4)] (designatorLoop data end' 4 []))"

definition ParseVPDBlockLimits :: "Result \<Rightarrow> (ScsiError + BlockLimits) Outcome" where
  "ParseVPDBlockLimits = parseWith 32 (\<lambda>data.
     accesses data [(5, 6), (6, 8), (8, 12), (12, 16), (20, 24), (24, 28), (28, 32)]
       (Returns (Inr
          \<lparr>bl_MaxCompareAndWriteLength = data ! 5,
           bl_OptimalTransferLengthGranularity = Uint16 (slice data 6 8),
           bl_MaxTransferLength = Uint32 (slice data 8 12),
           bl_OptimalTransferLength = Uint32 (slice data 12 16),
           bl_MaxUnmapLBACount = Uint32 (slice data 20 24),
           bl_MaxUnmapBlockDescCount = Uint32 (slice data 24 28),
           bl_OptimalUnmapGranularity = Uint32 (slice data 28 32),
           bl_Raw = data\<rparr>)))"

definition ParseVPDBlockCharacteristics :: "Result \<Rightarrow> (ScsiError + BlockCharacteristics) Outcome" where
  "ParseVPDBlockCharacteristics = parseWith 8 (\<lambda>data.
     accesses data [(4, 6), (7, 8)]
       (Returns (Inr
          \<lparr>bc_MediumRotationRate = Uint16 (slice data 4 6),
           bc_NominalFormFactor = data ! 7 AND 0x0F,
           bc_Raw = data\<rparr>)))"

definition ParseVPDLogicalBlockProvisioning :: "Result \<Rightarrow> (ScsiError + LogicalBlockProvisioning) Outcome" where
  "ParseVPDLogicalBlockProvisioning = parseWith 8 (\<lambda>data.
     accesses data [(4, 5), (5, 6), (6, 7)]
       (Returns (Inr
          \<lparr>lb_ThresholdExponent = data ! 4,
           lb_LBPU = (data ! 5 AND 0x80 \<noteq> 0),
           lb_LBPWS = (data ! 5 AND 0x40 \<noteq> 0),
           lb_LBPWS10 = (data ! 5 AND 0x20 \<noteq> 0),
           lb_ProvisioningType = data ! 6 AND 0x07,
           lb_Raw = data\<rparr>)))"

section \<open>MODE SENSE\<close>

record ModeSense6Response =
  m6_ModeDataLength :: u8
  m6_MediumType :: u8
  m6_DeviceSpecific :: u8
  m6_BlockDescriptorLength :: u8
  m6_BlockDescriptors :: bytes
  m6_Pages :: bytes
  m6_Raw :: bytes

record ModeSense10Response =
  m10_ModeDataLength :: u16
  m10_MediumType :: u8
  m10_DeviceSpecific :: u8
  m10_LongLBA :: bool
  m10_BlockDescriptorLength :: u16
  m10_BlockDescriptors :: bytes
  m10_Pages :: bytes
  m10_Raw :: bytes

definition ParseModeSense6 :: "Result \<Rightarrow> (ScsiError + ModeSense6Response) Outcome" where
  "ParseModeSense6 = parseWith 4 (\<lambda>data.
     let bdl = data ! 3;
         bdStart = 4 :: u16;
         bdEnd = bdStart + ucast bdl;
         bdEnd = (if bdEnd > of_nat (length data) then of_nat (length data) else bdEnd);
         s = unat bdStart; e = unat bdEnd
     in accesses data [(0, 1), (1, 2), (2, 3), (3, 4), (s, e)]
          (Returns (Inr
             \<lparr>m6_ModeDataLength = data ! 0, m6_MediumType = data ! 1, m6_DeviceSpecific = data ! 2,
              m6_BlockDescriptorLength = bdl, m6_BlockDescriptors = slice data s e,
              m6_Pages = (if e < length data then drop e data else []), m6_Raw = data\<rparr>)))"

definition ParseModeSense10 :: "Result \<Rightarrow> (ScsiError + ModeSense10Response) Outcome" where
  "ParseModeSense10 = parseWith 8 (\<lambda>data.
     let bdl = Uint16 (slice data 6 8);
         bdStart = 8 :: u32;
         bdEnd = bdStart + ucast bdl;
         bdEnd = (if bdEnd > of_nat (length data) then of_nat (length data) else bdEnd);
         s = unat bdStart; e = unat bdEnd
     in accesses data [(6, 8), (0, 2), (2, 3), (3, 4), (4, 5), (s, e)]
          (Returns (Inr
             \<lparr>m10_ModeDataLength = Uint16 (slice data 0 2), m10_MediumType = data ! 2, m10_DeviceSpecific = data ! 3,
              m10_LongLBA = (data ! 4 AND 0x01 \<noteq> 0), m10_BlockDescriptorLength = bdl,
              m10_BlockDescriptors = slice data s e,
              m10_Pages = (if bdEnd < of_nat (length data) then drop e data else []), m10_Raw = data\<rparr>)))"

section \<open>PERSISTENT RESERVE IN\<close>

record PRKeysResponse =
  pk_Generation :: u32
  pk_Keys :: "u64 list"

record PRReservation =
  pv_Key :: u64
  pv_ScopeType :: u8

definition ParsePersistReserveInKeys :: "Result \<Rightarrow> (ScsiError + PRKeysResponse) Outcome" where
  "ParsePersistReserveInKeys = parseWith 8 (\<lambda>data.
     let generation = Uint32 (slice data 0 4);
         additionalLen = Uint32 (slice data 4 8);
         numKeys = additionalLen div 8
     in accesses data [(0, 4), (4, 8)]
          (mapReturns (\<lambda>keys. Inr \<lparr>pk_Generation = generation, pk_Keys = keys\<rparr>) (entriesLoop Uint64 (unat numKeys) 0 data [])))"

definition ParsePersistReserveInReservation :: "Result \<Rightarrow> (ScsiError + PRReservation option) Outcome" where
  "ParsePersistReserveInReservation = parseWith 8 (\<lambda>data.
     let additionalLen = Uint32 (slice data 4 8)
     in accesses data [(4, 8)]
          (if additionalLen = 0 then Returns (Inr None)
           else if length data < 24 then Returns (Inl (ResponseTooShort (length data)))
           else accesses data [(8, 16), (21, 22)]
             (Returns (Inr (Some \<lparr>pv_Key = Uint64 (slice data 8 16), pv_ScopeType = data ! 21\<rparr>)))))"

declare entriesLoop.simps [simp del] designatorLoop.simps [simp del]

section \<open>The loops\<close>

lemma entriesLoop_eq:
  assumes "length data < 2 ^ 31" "unat i + n < 2 ^ 29" "8 * unat i \<le> length data"
  shows "entriesLoop f n i data xs =
    Returns (xs @ map (\<lambda>k. f (slice data (8 + 8 * k) (16 + 8 * k))) [unat i..<min (unat i + n) ((length data - 8) div 8)])"
  using assms(2,3)
proof (induction n arbitrary: i xs)
  case 0
  then show ?case by (simp add: entriesLoop.simps)
next
  case (Suc n)
  have m: "unat (i * 8) = 8 * unat i" using Suc.prems by (subst unat_word_ariths) simp
  have o1: "unat (8 + i * 8) = 8 + 8 * unat i"
    using Suc.prems m by (subst unat_plus_u32) simp_all
  have o2: "unat (16 + i * 8) = 16 + 8 * unat i"
    using Suc.prems assms(1) m by (subst unat_plus_u32) simp_all
  have "16 + i * 8 > of_nat (length data) \<longleftrightarrow> length data < 16 + 8 * unat i"
    using assms(1) by (simp add: word_less_nat_alt unat_of_nat_u32 o2)
  then have step: "entriesLoop f (Suc n) i data xs =
     (if length data < 16 + 8 * unat i then Returns xs
      else entriesLoop f n (i + 1) data (xs @ [f (slice data (8 + 8 * unat i) (16 + 8 * unat i))]))"
    by (simp add: entriesLoop.simps(2) Let_def accesses_def o1 o2)
  show ?case
  proof (cases "length data < 16 + 8 * unat i")
    case True
    then have "(length data - 8) div 8 \<le> unat i" by linarith
    then show ?thesis using True by (simp add: step)
  next
    case False
    then have le: "unat i < (length data - 8) div 8" by linarith
    have i1: "unat (i + 1) = unat i + 1" using Suc.prems by (subst unat_plus_u32) simp_all
    have u: "[unat i..<min (unat i + Suc n) ((length data - 8) div 8)]
        = unat i # [unat i + 1..<min (unat i + Suc n) ((length data - 8) div 8)]"
      using le by (subst upt_conv_Cons) simp_all
    show ?thesis
      unfolding step u using False Suc.IH [of "i + 1"] Suc.prems by (simp add: i1)
  qed
qed

lemma designatorLoop_safe:
  assumes "end' \<le> length data"
  shows "designatorLoop data end' offset ds \<noteq> Panics"
  using assms
proof (induction data end' offset ds rule: designatorLoop.induct)
  case (1 data end' offset desigs)
  then show ?case by (subst designatorLoop.simps) (auto simp: accesses_def Let_def)
qed

section \<open>The contract of the parsers\<close>

locale response_parser =
  fixes parse :: "Result \<Rightarrow> (ScsiError + 'a) Outcome" and need :: nat and lim :: nat
  assumes failed: "checkResult r = Inl e \<Longrightarrow> parse r = Returns (Inl e)"
    and short: "checkResult r = Inr d \<Longrightarrow> length d < need \<Longrightarrow> parse r = Returns (Inl (ResponseTooShort (length d)))"
    and safe: "checkResult r = Inr d \<Longrightarrow> length d < lim \<Longrightarrow> parse r \<noteq> Panics"
begin

lemma no_panic: "(\<And>d. checkResult r = Inr d \<Longrightarrow> length d < lim) \<Longrightarrow> parse r \<noteq> Panics"
  using failed safe by (cases "checkResult r") force+

lemma transport_error: "rs_Err r = Some e \<Longrightarrow> parse r = Returns (Inl (TransportError e))"
  by (rule failed) (simp add: checkResult_def)

lemma bad_status:
  assumes "rs_Err r = None" "rs_Status r \<noteq> 0"
  shows "\<exists>s. parse r = Returns (Inl (CommandError (rs_Status r) s))"
proof -
  obtain s where "checkResult r = Inl (CommandError (rs_Status r) s)"
    using assms by (simp add: checkResult_def)
  then show ?thesis using failed by blast
qed

lemma enough_data: "parse r = Returns (Inr x) \<Longrightarrow> \<exists>d. checkResult r = Inr d \<and> need \<le> length d"
  using failed short by (cases "checkResult r") (force simp: not_less [symmetric])+

end

lemma parseWith_parser:
  assumes "\<And>d. need \<le> length d \<Longrightarrow> length d < lim \<Longrightarrow> body d \<noteq> Panics"
  shows "response_parser (parseWith need body) need lim"
  using assms by unfold_locales (auto simp: parseWith_def)

interpretation reportLuns: response_parser ParseReportLuns 8 "2 ^ 31"
  unfolding ParseReportLuns_def
proof (rule parseWith_parser, goal_cases)
  case (1 d)
  have "unat (Uint32 (slice d 0 4) div 8) < 2 ^ 29" by (simp add: unat_div div_less_iff_less_mult)
      (use unsigned_less [of "Uint32 (slice d 0 4)"] in simp)
  then show ?case using 1 entriesLoop_eq [of d 0 "unat (Uint32 (slice d 0 4) div 8)"]
    by (simp add: accesses_def Let_def mapReturns_def)
qed

interpretation inquiry: response_parser ParseInquiry 36 n for n
  unfolding ParseInquiry_def by (rule parseWith_parser) (simp add: accesses_def)

interpretation capacity10: response_parser ParseReadCapacity10 8 n for n
  unfolding ParseReadCapacity10_def by (rule parseWith_parser) (simp add: accesses_def)

interpretation capacity16: response_parser ParseReadCapacity16 32 n for n
  unfolding ParseReadCapacity16_def by (rule parseWith_parser) (simp add: accesses_def)

interpretation vpdPages: response_parser ParseVPDSupportedPages 4 n for n
  unfolding ParseVPDSupportedPages_def by (rule parseWith_parser) (simp add: accesses_def Let_def)

interpretation vpdSerial: response_parser ParseVPDSerialNumber 4 n for n
  unfolding ParseVPDSerialNumber_def by (rule parseWith_parser) (simp add: accesses_def Let_def)

interpretation vpdDevice: response_parser ParseVPDDeviceIdentification 4 n for n
  unfolding ParseVPDDeviceIdentification_def
  by (rule parseWith_parser) (simp add: accesses_def Let_def designatorLoop_safe)

interpretation vpdLimits: response_parser ParseVPDBlockLimits 32 n for n
  unfolding ParseVPDBlockLimits_def by (rule parseWith_parser) (simp add: accesses_def)

interpretation vpdCharacteristics: response_parser ParseVPDBlockCharacteristics 8 n for n
  unfolding ParseVPDBlockCharacteristics_def by (rule parseWith_parser) (simp add: accesses_def)

interpretation vpdProvisioning: response_parser ParseVPDLogicalBlockProvisioning 8 n for n
  unfolding ParseVPDLogicalBlockProvisioning_def by (rule parseWith_parser) (simp add: accesses_def)

lemma unat_u16_less: "unat (x::u16) < 65536"
  using unsigned_less [of x] by simp

interpretation modeSense6: response_parser ParseModeSense6 4 "2 ^ 16"
  unfolding ParseModeSense6_def
proof (rule parseWith_parser, goal_cases)
  case (1 d)
  have n: "unat (of_nat (length d) :: u16) = length d" using 1 by (simp add: unat_of_nat take_bit_nat_eq_self)
  have e: "unat (4 + ucast (d ! 3) :: u16) = 4 + unat (d ! 3)"
    using unat_u8_less [of "d ! 3"] by (simp add: unat_word_ariths unsigned_ucast_eq take_bit_nat_eq_self)
  show ?case using 1 by (simp add: accesses_def Let_def n e word_less_nat_alt)
qed

interpretation modeSense10: response_parser ParseModeSense10 8 "2 ^ 32"
  unfolding ParseModeSense10_def
proof (rule parseWith_parser, goal_cases)
  case (1 d)
  have n: "unat (of_nat (length d) :: u32) = length d" using 1 by (simp add: unat_of_nat_u32)
  have e: "unat (8 + ucast (Uint16 (slice d 6 8)) :: u32) = 8 + unat (Uint16 (slice d 6 8))"
    using unat_u16_less [of "Uint16 (slice d 6 8)"]
    by (simp add: unat_word_ariths unsigned_ucast_eq take_bit_nat_eq_self)
  show ?case using 1 by (simp add: accesses_def Let_def n e word_less_nat_alt)
qed

interpretation reserveKeys: response_parser ParsePersistReserveInKeys 8 "2 ^ 31"
  unfolding ParsePersistReserveInKeys_def
proof (rule parseWith_parser, goal_cases)
  case (1 d)
  have "unat (Uint32 (slice d 4 8) div 8) < 2 ^ 29" by (simp add: unat_div div_less_iff_less_mult)
      (use unsigned_less [of "Uint32 (slice d 4 8)"] in simp)
  then show ?case using 1 entriesLoop_eq [of d 0 "unat (Uint32 (slice d 4 8) div 8)"]
    by (simp add: accesses_def Let_def mapReturns_def)
qed

interpretation reservation: response_parser ParsePersistReserveInReservation 8 n for n
  unfolding ParsePersistReserveInReservation_def by (rule parseWith_parser) (simp add: accesses_def Let_def)

text \<open>A MODE SENSE (6) response of 64 KiB makes the 16-bit length of the parser wrap.\<close>

lemma mode_sense6_panics:
  assumes "checkResult r = Inr d" "length d = 2 ^ 16"
  shows "ParseModeSense6 r = Panics"
proof -
  have z: "(of_nat (length d) :: u16) = 0"
    unfolding assms(2) by (simp only: word_unat_eq_iff unat_of_nat) simp
  have "\<not> 0 < x \<longleftrightarrow> unat x = 0" for x :: u16 by (simp add: word_less_nat_alt)
  then show ?thesis
    using assms(1) by (simp add: ParseModeSense6_def parseWith_def accesses_def Let_def z) (simp add: assms(2))
qed

section \<open>Properties\<close>



end
