(* ===== verification/Task.thy ===== *)
theory Task
  imports Session_Types Channels
begin

text \<open>
  \<open>internal/session/chanreader.go\<close>, \<open>datain.go\<close> and \<open>snack.go\<close>: one SCSI task, the reassembly of its
  Data-In PDUs and the recovery of missing ones.

  A handler runs in the task's goroutine; its result is the new state, or \<open>Stuck\<close> when it waits on a
  full channel, or \<open>Crash\<close> for a run-time panic (a send on a closed channel, a nil dereference). The
  write channel is the list of PDUs put on it, with an oracle for the sends that may time out or find
  it full. Timers are a flag (running or not) and their expiry a function of its own. The map of
  buffered PDUs is a list with one PDU for each DataSN, because the code stores every PDU under its
  own DataSN.

  The specification of reassembly is the set of fragments received so far. The lemmas: every handler
  step refines it, in whatever order fragments arrive and however often they are repeated.
\<close>

datatype 'a Step = Done 'a | Stuck | Crash

definition bindStep :: "'a Step \<Rightarrow> ('a \<Rightarrow> 'b Step) \<Rightarrow> 'b Step" where
  "bindStep m f = (case m of Done x \<Rightarrow> f x | Stuck \<Rightarrow> Stuck | Crash \<Rightarrow> Crash)"

lemma bindStep_simps [simp]:
  "bindStep (Done x) f = f x" "bindStep Stuck f = Stuck" "bindStep Crash f = Crash"
  by (simp_all add: bindStep_def)

lemma bindStep_Done: "bindStep m f = Done y \<longleftrightarrow> (\<exists>x. m = Done x \<and> f x = Done y)"
  by (cases m) simp_all

section \<open>The streaming reader\<close>

record chanReader =
  cr_ch :: "bytes Chan"
  cr_current :: bytes
  cr_err :: "SessionError option"
  cr_closed :: bool

abbreviation (input) defaultChanBufSize :: int where "defaultChanBufSize \<equiv> 128"

definition newChanReader :: "int \<Rightarrow> chanReader" where
  "newChanReader depth =
     (let depth = (if depth \<le> 0 then defaultChanBufSize else depth)
      in \<lparr>cr_ch = make_chan (nat depth), cr_current = [], cr_err = None, cr_closed = False\<rparr>)"

datatype ReadOutcome = ReadBytes bytes chanReader | ReadEnds "SessionError option" | ReadBlocks

text \<open>\<open>ReadEnds None\<close> is \<open>io.EOF\<close>; \<open>n\<close> is the length of the caller's buffer.\<close>

definition chanReader_Read :: "nat \<Rightarrow> chanReader \<Rightarrow> ReadOutcome" where
  "chanReader_Read n cr =
     (if length (cr_current cr) > 0
      then ReadBytes (take n (cr_current cr)) (cr\<lparr>cr_current := drop n (cr_current cr)\<rparr>)
      else (case chan_recv (cr_ch cr) of
              RecvBlocks \<Rightarrow> ReadBlocks
            | RecvClosed \<Rightarrow> ReadEnds (cr_err cr)
            | Received chunk c \<Rightarrow>
                let cr = cr\<lparr>cr_ch := c\<rparr>
                in if n < length chunk then ReadBytes (take n chunk) (cr\<lparr>cr_current := drop n chunk\<rparr>)
                   else ReadBytes chunk cr))"

definition chanReader_close :: "chanReader \<Rightarrow> chanReader" where
  "chanReader_close cr =
     (if cr_closed cr then cr else cr\<lparr>cr_closed := True, cr_ch := (cr_ch cr)\<lparr>ch_closed := True\<rparr>\<rparr>)"

definition chanReader_closeWithError :: "SessionError \<Rightarrow> chanReader \<Rightarrow> chanReader" where
  "chanReader_closeWithError e cr =
     (if cr_closed cr then cr
      else cr\<lparr>cr_err := Some e, cr_closed := True, cr_ch := (cr_ch cr)\<lparr>ch_closed := True\<rparr>\<rparr>)"

section \<open>Tasks\<close>

record snackState =
  sk_pendingDataIn :: "DataIn list"
  sk_gapDetected :: bool
  sk_timer :: bool

definition newSnackState :: snackState where
  "newSnackState = \<lparr>sk_pendingDataIn = [], sk_gapDetected = False, sk_timer = False\<rparr>"

record task =
  tk_itt :: u32
  tk_lun :: u64
  tk_cmd :: Command
  tk_cmdSN :: u32
  tk_buf :: "bytes option"
  tk_resultCh :: "Result Chan"
  tk_done :: bool
  tk_nextDataSN :: u32
  tk_nextOffset :: u32
  tk_isRead :: bool
  tk_isWrite :: bool
  tk_reader :: "Reader option"
  tk_bytesSent :: u32
  tk_streaming :: bool
  tk_dataReader :: "chanReader option"
  tk_erl :: u32
  tk_snackTimeout :: int
  tk_snack :: "snackState option"

definition newTask :: "u32 \<Rightarrow> bool \<Rightarrow> bool \<Rightarrow> int \<Rightarrow> task" where
  "newTask itt isRead isWrite streamBufDepth =
     (let t = \<lparr>tk_itt = itt, tk_lun = 0, tk_cmd = zeroCommand, tk_cmdSN = 0, tk_buf = None,
               tk_resultCh = make_chan 1, tk_done = False, tk_nextDataSN = 0, tk_nextOffset = 0,
               tk_isRead = isRead, tk_isWrite = isWrite, tk_reader = None, tk_bytesSent = 0,
               tk_streaming = False, tk_dataReader = None, tk_erl = 0, tk_snackTimeout = 0, tk_snack = None\<rparr>
      in if isRead
         then if streamBufDepth \<noteq> 0
              then t\<lparr>tk_streaming := True, tk_dataReader := Some (newChanReader streamBufDepth)\<rparr>
              else t\<lparr>tk_buf := Some []\<rparr>
         else t)"

text \<open>The write channel as a task sees it: what was sent, and which attempts succeed in time.\<close>

record WriteSide =
  wr_sent :: "RawPDU list"
  wr_tries :: nat
  wr_accepts :: "nat \<Rightarrow> bool"

definition trySend :: "RawPDU \<Rightarrow> WriteSide \<Rightarrow> bool \<times> WriteSide" where
  "trySend raw w =
     (let n = wr_tries w;
          w = w\<lparr>wr_tries := n + 1\<rparr>
      in if wr_accepts w n then (True, w\<lparr>wr_sent := wr_sent w @ [raw]\<rparr>) else (False, w))"

definition deliver :: "Result \<Rightarrow> task \<Rightarrow> task Step" where
  "deliver r t =
     (case chan_send (tk_resultCh t) r of
        Sent c \<Rightarrow> Done (t\<lparr>tk_resultCh := c\<rparr>)
      | SendBlocks \<Rightarrow> Stuck
      | SendPanics \<Rightarrow> Crash)"

definition closeReaderWithError :: "SessionError \<Rightarrow> task \<Rightarrow> task" where
  "closeReaderWithError e t =
     (if tk_streaming t
      then t\<lparr>tk_dataReader := map_option (chanReader_closeWithError e) (tk_dataReader t)\<rparr>
      else t)"

section \<open>SNACK\<close>

definition snackRequest :: "task \<Rightarrow> u8 \<Rightarrow> u32 \<Rightarrow> u32 \<Rightarrow> u32 \<Rightarrow> u32 \<Rightarrow> SNACKReq" where
  "snackRequest t snackType ttt begRun runLength expStatSN =
     \<lparr>sn_Header = zeroHeader\<lparr>Final := True, InitiatorTaskTag := tk_itt t\<rparr>, sn_Type = snackType,
      sn_TargetTransferTag = ttt, sn_ExpStatSN = expStatSN, sn_BegRun = begRun, sn_RunLength = runLength\<rparr>"

definition sendSNACK :: "task \<Rightarrow> u8 \<Rightarrow> u32 \<Rightarrow> u32 \<Rightarrow> u32 \<Rightarrow> WriteSide \<Rightarrow> SessionError option \<times> WriteSide" where
  "sendSNACK t snackType begRun runLength expStatSN w =
     (case SNACKReq_MarshalBHS (snackRequest t snackType 0 begRun runLength expStatSN) of
        Inl e \<Rightarrow> (Some (ErrEncode e), w)
      | Inr bhs \<Rightarrow>
          (case trySend (bareRaw bhs []) w of
             (True, w) \<Rightarrow> (None, w)
           | (False, w) \<Rightarrow> (Some ErrSNACK, w)))"

definition startSnackTimer :: "task \<Rightarrow> task" where
  "startSnackTimer t =
     (let s = (case tk_snack t of None \<Rightarrow> newSnackState | Some s \<Rightarrow> s)
      in t\<lparr>tk_snack := Some (s\<lparr>sk_timer := True\<rparr>)\<rparr>)"

definition resetSnackTimer :: "task \<Rightarrow> task" where
  "resetSnackTimer t = startSnackTimer t"

definition stopSnackTimer :: "task \<Rightarrow> task" where
  "stopSnackTimer t = t\<lparr>tk_snack := map_option (\<lambda>s. s\<lparr>sk_timer := False\<rparr>) (tk_snack t)\<rparr>"

text \<open>The function the timer runs.\<close>

definition snackTimerExpires :: "u32 \<Rightarrow> task \<Rightarrow> WriteSide \<Rightarrow> WriteSide" where
  "snackTimerExpires expStatSN t w = snd (sendSNACK t SNACKTypeStatus 0 0 expStatSN w)"

section \<open>Data-In\<close>

definition storeData :: "bytes \<Rightarrow> task \<Rightarrow> task Step" where
  "storeData data t =
     (if length data > 0 then
        (if tk_streaming t
         then (case tk_dataReader t of
                 None \<Rightarrow> Crash
               | Some cr \<Rightarrow>
                   (case chan_send (cr_ch cr) data of
                      Sent c \<Rightarrow> Done (t\<lparr>tk_dataReader := Some (cr\<lparr>cr_ch := c\<rparr>)\<rparr>)
                    | SendBlocks \<Rightarrow> Stuck
                    | SendPanics \<Rightarrow> Crash))
         else (case tk_buf t of
                 None \<Rightarrow> Crash
               | Some b \<Rightarrow> Done (t\<lparr>tk_buf := Some (b @ data)\<rparr>)))
      else Done t)"

definition advance :: "DataIn \<Rightarrow> task \<Rightarrow> task" where
  "advance din t =
     t\<lparr>tk_nextDataSN := tk_nextDataSN t + 1, tk_nextOffset := tk_nextOffset t + of_nat (length (di_Data din))\<rparr>"

definition statusResult :: "DataIn \<Rightarrow> Reader option \<Rightarrow> Result" where
  "statusResult din data =
     \<lparr>rs_Status = di_Status din, rs_SenseData = [], rs_Data = data, rs_Overflow = di_ResidualOverflow din,
      rs_Underflow = di_ResidualUnderflow din, rs_ResidualCount = di_ResidualCount din, rs_Err = None\<rparr>"

definition finishDataIn :: "DataIn \<Rightarrow> task \<Rightarrow> task Step" where
  "finishDataIn din t =
     (let t = stopSnackTimer t
      in if tk_streaming t
         then (case tk_dataReader t of
                 None \<Rightarrow> Crash
               | Some cr \<Rightarrow> deliver (statusResult din None) (t\<lparr>tk_dataReader := Some (chanReader_close cr)\<rparr>))
         else (case tk_buf t of
                 None \<Rightarrow> Crash
               | Some b \<Rightarrow> deliver (statusResult din (Some (bytes_NewReader b))) t))"

definition pendingOf :: "task \<Rightarrow> DataIn list" where
  "pendingOf t = (case tk_snack t of None \<Rightarrow> [] | Some s \<Rightarrow> sk_pendingDataIn s)"

definition setPending :: "DataIn list \<Rightarrow> task \<Rightarrow> task" where
  "setPending ps t = t\<lparr>tk_snack := map_option (\<lambda>s. s\<lparr>sk_pendingDataIn := ps\<rparr>) (tk_snack t)\<rparr>"

lemma storeData_snack: "storeData d t = Done t' \<Longrightarrow> tk_snack t' = tk_snack t"
  by (auto simp: storeData_def split: if_splits option.splits SendResult.splits)

lemma pendingOf_setPending: "pendingOf (setPending ps t) = (if tk_snack t = None then [] else ps)"
  by (simp add: pendingOf_def setPending_def split: option.split)

function drainPendingDataIn :: "task \<Rightarrow> task Step" where
  "drainPendingDataIn t =
     (case find (\<lambda>d. di_DataSN d = tk_nextDataSN t) (pendingOf t) of
        None \<Rightarrow> Done t
      | Some din \<Rightarrow>
          (case storeData (di_Data din) (setPending (filter (\<lambda>d. di_DataSN d \<noteq> di_DataSN din) (pendingOf t)) t) of
             Stuck \<Rightarrow> Stuck
           | Crash \<Rightarrow> Crash
           | Done t \<Rightarrow>
               let t = advance din t
               in if di_HasStatus din then finishDataIn din t else drainPendingDataIn t))"
  by pat_completeness auto
termination
proof (relation "measure (\<lambda>t. length (pendingOf t))", goal_cases)
  case (2 t din t' x)
  have "pendingOf x = filter (\<lambda>d. di_DataSN d \<noteq> di_DataSN din) (pendingOf t)"
    using storeData_snack [OF 2(2)] 2(1,3) pendingOf_setPending [of _ t]
    by (auto simp: advance_def pendingOf_def split: option.splits)
  moreover have "din \<in> set (pendingOf t)" using 2(1) by (auto simp: find_Some_iff)
  ultimately show ?case by (auto intro!: length_filter_less)
qed simp

text \<open>The DataACK that the target's A bit asks for.\<close>

definition acknowledge :: "u32 \<Rightarrow> DataIn \<Rightarrow> task \<Rightarrow> WriteSide \<Rightarrow> WriteSide" where
  "acknowledge expStatSN din t w =
     (if di_Acknowledge din \<and> tk_erl t \<ge> 1
      then (case SNACKReq_MarshalBHS
              (snackRequest t SNACKTypeDataACK (di_TargetTransferTag din) (tk_nextDataSN t) 0 expStatSN) of
              Inr bhs \<Rightarrow> snd (trySend (bareRaw bhs []) w)
            | Inl e \<Rightarrow> w)
      else w)"

text \<open>The part of \<open>handleDataIn\<close> after its checks.\<close>

definition handleInOrder :: "u32 \<Rightarrow> DataIn \<Rightarrow> task \<Rightarrow> WriteSide \<Rightarrow> (task \<times> WriteSide) Step" where
  "handleInOrder expStatSN din t w =
     bindStep (storeData (di_Data din) t) (\<lambda>t.
       let t = advance din t;
           w = acknowledge expStatSN din t w
       in bindStep (if pendingOf t \<noteq> [] then drainPendingDataIn t else Done t) (\<lambda>t'.
            if pendingOf t \<noteq> [] \<and> ch_buf (tk_resultCh t') \<noteq> [] then Done (t', w)
            else if di_HasStatus din then bindStep (finishDataIn din t') (\<lambda>t. Done (t, w))
            else Done (t', w)))"

text \<open>The branch for a gap when there is error recovery.\<close>

definition bufferOutOfOrder :: "DataIn \<Rightarrow> task \<Rightarrow> task" where
  "bufferOutOfOrder din t =
     (let s = (case tk_snack t of None \<Rightarrow> newSnackState | Some s \<Rightarrow> s)
      in t\<lparr>tk_snack := Some (s\<lparr>sk_gapDetected := True,
           sk_pendingDataIn := din # filter (\<lambda>d. di_DataSN d \<noteq> di_DataSN din) (sk_pendingDataIn s)\<rparr>)\<rparr>)"

definition handleDataIn :: "u32 \<Rightarrow> DataIn \<Rightarrow> task \<Rightarrow> WriteSide \<Rightarrow> (task \<times> WriteSide) Step" where
  "handleDataIn expStatSN din t w =
     (let t = (if tk_erl t \<ge> 1 \<and> tk_snackTimeout t > 0 then resetSnackTimer t else t)
      in if di_DataSN din \<noteq> tk_nextDataSN t then
        (if tk_erl t \<ge> 1 then
           let gap = di_DataSN din - tk_nextDataSN t;
               t = bufferOutOfOrder din t
           in (case sendSNACK t SNACKTypeDataR2T (tk_nextDataSN t) gap expStatSN w of
                 (None, w) \<Rightarrow> Done (t, w)
               | (Some e, w) \<Rightarrow>
                   bindStep (deliver (errResult e) (closeReaderWithError e t)) (\<lambda>t. Done (t\<lparr>tk_done := True\<rparr>, w)))
         else
           let e = ErrDataSNGap (tk_itt t) (di_DataSN din) (tk_nextDataSN t)
           in bindStep (deliver (errResult e) (closeReaderWithError e t)) (\<lambda>t. Done (t, w)))
      else if di_BufferOffset din \<noteq> tk_nextOffset t then
        let e = ErrBufferOffset (tk_itt t) (di_BufferOffset din) (tk_nextOffset t)
        in bindStep (deliver (errResult e) (closeReaderWithError e t)) (\<lambda>t. Done (t, w))
      else handleInOrder expStatSN din t w)"

section \<open>SCSI Response and cancellation\<close>

definition responseSense :: "SCSIResponse \<Rightarrow> bytes" where
  "responseSense resp =
     (let data = sr_Data resp
      in if length data \<ge> 2
         then let senseLen = Uint16 (slice data 0 2)
              in if unat senseLen \<le> length data - 2 then slice data 2 (2 + unat senseLen) else []
         else [])"

definition handleSCSIResponse :: "SCSIResponse \<Rightarrow> task \<Rightarrow> task Step" where
  "handleSCSIResponse resp t =
     (let r = \<lparr>rs_Status = sr_Status resp, rs_SenseData = responseSense resp, rs_Data = None,
               rs_Overflow = sr_Overflow resp, rs_Underflow = sr_Underflow resp,
               rs_ResidualCount = sr_ResidualCount resp, rs_Err = None\<rparr>
      in if tk_streaming t \<and> tk_dataReader t \<noteq> None
         then deliver r (t\<lparr>tk_dataReader := map_option chanReader_close (tk_dataReader t)\<rparr>)
         else (case tk_buf t of
                 Some b \<Rightarrow>
                   if tk_isRead t \<and> length b > 0 then deliver (r\<lparr>rs_Data := Some (bytes_NewReader b)\<rparr>) t
                   else deliver r t
               | None \<Rightarrow> deliver r t))"

definition cancel :: "SessionError \<Rightarrow> task \<Rightarrow> task" where
  "cancel e t =
     (let t = closeReaderWithError e t;
          t = (case chan_send (tk_resultCh t) (errResult e) of Sent c \<Rightarrow> t\<lparr>tk_resultCh := c\<rparr> | _ \<Rightarrow> t)
      in t\<lparr>tk_done := True\<rparr>)"

declare drainPendingDataIn.simps [simp del]

text \<open>A SCSI Response ends the task and leaves the timer running, so that a Status SNACK is sent later.\<close>

lemma response_leaves_timer: "handleSCSIResponse resp t = Done t' \<Longrightarrow> tk_snack t' = tk_snack t"
  by (auto simp: handleSCSIResponse_def Let_def deliver_def split: if_splits option.splits SendResult.splits)

lemma cancel_leaves_timer: "tk_snack (cancel e t) = tk_snack t"
  by (simp add: cancel_def closeReaderWithError_def Let_def split: SendResult.split)

section \<open>Reassembly refines the set of received fragments\<close>

text \<open>The fragments of one read: numbered from 0, at consecutive offsets, the last one with status.\<close>

abbreviation dataUpto :: "DataIn list \<Rightarrow> nat \<Rightarrow> bytes" where
  "dataUpto fs m \<equiv> concat (map di_Data (take m fs))"

definition wf_fragments :: "DataIn list \<Rightarrow> bool" where
  "wf_fragments fs \<longleftrightarrow> fs \<noteq> [] \<and> length fs < 2 ^ 32 \<and>
     (\<forall>k<length fs. di_DataSN (fs ! k) = of_nat k \<and> di_BufferOffset (fs ! k) = of_nat (length (dataUpto fs k))
        \<and> (di_HasStatus (fs ! k) \<longleftrightarrow> k = length fs - 1))"

text \<open>The first \<open>m\<close> fragments are in the buffer and the others of \<open>R\<close> are buffered.\<close>

definition assembled :: "DataIn list \<Rightarrow> nat set \<Rightarrow> nat \<Rightarrow> task \<Rightarrow> bool" where
  "assembled fs R m t \<longleftrightarrow> m \<le> length fs \<and> {..<m} \<subseteq> R \<and> R \<subseteq> {..<length fs} \<and>
     \<not> tk_streaming t \<and> tk_buf t = Some (dataUpto fs m) \<and> tk_nextDataSN t = of_nat m \<and>
     tk_nextOffset t = of_nat (length (dataUpto fs m)) \<and>
     set (pendingOf t) \<subseteq> {fs ! k |k. k \<in> R} \<and> (\<forall>k\<in>R. m \<le> k \<longrightarrow> fs ! k \<in> set (pendingOf t))"

definition result_of :: "DataIn list \<Rightarrow> Result" where
  "result_of fs = statusResult (last fs) (Some (bytes_NewReader (dataUpto fs (length fs))))"

definition refines :: "DataIn list \<Rightarrow> nat set \<Rightarrow> task \<Rightarrow> bool" where
  "refines fs R t \<longleftrightarrow> (\<exists>m. assembled fs R m t \<and> m \<notin> R \<and>
     tk_resultCh t = (make_chan 1)\<lparr>ch_buf := if m = length fs then [result_of fs] else []\<rparr>)"

lemma fragment_sn:
  assumes "wf_fragments fs" "k < length fs" "j \<le> length fs"
  shows "di_DataSN (fs ! k) = of_nat j \<longleftrightarrow> k = j"
proof -
  have "k < 2 ^ 32" "j < 2 ^ 32" "di_DataSN (fs ! k) = of_nat k" using assms by (simp_all add: wf_fragments_def)
  then show ?thesis using unat_of_nat_u32 [of k] unat_of_nat_u32 [of j] by metis
qed

lemma fragment_eq: "wf_fragments fs \<Longrightarrow> k < length fs \<Longrightarrow> j < length fs \<Longrightarrow> fs ! k = fs ! j \<longleftrightarrow> k = j"
  using fragment_sn [of fs k j] fragment_sn [of fs j j] by fastforce

lemma dataUpto_Suc: "m < length fs \<Longrightarrow> dataUpto fs (Suc m) = dataUpto fs m @ di_Data (fs ! m)"
  by (simp add: take_Suc_conv_app_nth)

lemma pendingOf_simps [simp]:
  "pendingOf (t\<lparr>tk_buf := b\<rparr>) = pendingOf t" "pendingOf (t\<lparr>tk_nextDataSN := sn\<rparr>) = pendingOf t"
  "pendingOf (t\<lparr>tk_nextOffset := off\<rparr>) = pendingOf t" "pendingOf (t\<lparr>tk_resultCh := c\<rparr>) = pendingOf t"
  by (simp_all add: pendingOf_def)

lemma pendingOf_timers [simp]: "pendingOf (startSnackTimer t) = pendingOf t" "pendingOf (stopSnackTimer t) = pendingOf t"
  by (auto simp: pendingOf_def startSnackTimer_def stopSnackTimer_def Let_def newSnackState_def split: option.split)

text \<open>Appending the next fragment.\<close>

lemma store_next:
  assumes "\<not> tk_streaming t" "tk_buf t = Some (dataUpto fs m)" "tk_nextDataSN t = of_nat m"
    "tk_nextOffset t = of_nat (length (dataUpto fs m))" "m < length fs" "{..<Suc m} \<subseteq> R" "R \<subseteq> {..<length fs}"
    "set (pendingOf t) \<subseteq> {fs ! k |k. k \<in> R}" "\<forall>k\<in>R. Suc m \<le> k \<longrightarrow> fs ! k \<in> set (pendingOf t)"
  shows "storeData (di_Data (fs ! m)) t = Done (t\<lparr>tk_buf := Some (dataUpto fs (Suc m))\<rparr>)"
    "assembled fs R (Suc m) (advance (fs ! m) (t\<lparr>tk_buf := Some (dataUpto fs (Suc m))\<rparr>))"
proof -
  show "storeData (di_Data (fs ! m)) t = Done (t\<lparr>tk_buf := Some (dataUpto fs (Suc m))\<rparr>)"
    using assms(1,2,5) by (cases t) (simp add: storeData_def dataUpto_Suc)
  show "assembled fs R (Suc m) (advance (fs ! m) (t\<lparr>tk_buf := Some (dataUpto fs (Suc m))\<rparr>))"
    using assms by (simp add: assembled_def advance_def dataUpto_Suc)
qed

lemma finish_last:
  assumes "assembled fs R (length fs) t" "tk_resultCh t = make_chan 1" "wf_fragments fs"
  shows "\<exists>t'. finishDataIn (fs ! (length fs - 1)) t = Done t' \<and> refines fs R t' \<and> tk_erl t' = tk_erl t \<and> ch_buf (tk_resultCh t') \<noteq> []"
proof -
  let ?t = "(stopSnackTimer t)\<lparr>tk_resultCh := (make_chan 1)\<lparr>ch_buf := [result_of fs]\<rparr>\<rparr>"
  have s: "tk_streaming (stopSnackTimer t) = tk_streaming t" "tk_buf (stopSnackTimer t) = tk_buf t"
    "tk_resultCh (stopSnackTimer t) = tk_resultCh t" "tk_nextDataSN (stopSnackTimer t) = tk_nextDataSN t"
    "tk_nextOffset (stopSnackTimer t) = tk_nextOffset t" "tk_erl (stopSnackTimer t) = tk_erl t"
    by (simp_all add: stopSnackTimer_def)
  have l: "last fs = fs ! (length fs - 1)" using assms(3) by (simp add: last_conv_nth wf_fragments_def)
  have "finishDataIn (fs ! (length fs - 1)) t = Done ?t"
    using assms(1,2) l by (simp add: finishDataIn_def s assembled_def deliver_def chan_send_def make_chan_def result_of_def)
  moreover have "assembled fs R (length fs) ?t" using assms(1) by (simp add: assembled_def s)
  moreover have "length fs \<notin> R" using assms(1) by (auto simp: assembled_def)
  ultimately show ?thesis by (intro exI [of _ ?t]) (auto simp: refines_def s)
qed

text \<open>Draining stops at the first fragment that is missing.\<close>

lemma drain_refines:
  assumes "wf_fragments fs" "assembled fs R m t" "tk_resultCh t = make_chan 1" "m < length fs"
  shows "\<exists>t'. drainPendingDataIn t = Done t' \<and> refines fs R t' \<and> tk_erl t' = tk_erl t"
  using assms
proof (induction t arbitrary: m rule: drainPendingDataIn.induct)
  case (1 t)
  have pend: "set (pendingOf t) \<subseteq> {fs ! k |k. k \<in> R}" "\<forall>k\<in>R. m \<le> k \<longrightarrow> fs ! k \<in> set (pendingOf t)"
    and a: "\<not> tk_streaming t" "tk_buf t = Some (dataUpto fs m)" "tk_nextDataSN t = of_nat m"
      "tk_nextOffset t = of_nat (length (dataUpto fs m))" "{..<m} \<subseteq> R" "R \<subseteq> {..<length fs}"
    using 1(3) by (auto simp: assembled_def)
  show ?case
  proof (cases "m \<in> R")
    case False
    have "find (\<lambda>d. di_DataSN d = tk_nextDataSN t) (pendingOf t) = None"
    proof (unfold find_None_iff, safe)
      fix d assume "d \<in> set (pendingOf t)" "di_DataSN d = tk_nextDataSN t"
      then obtain k where "d = fs ! k" "k \<in> R" using pend by auto
      then show False
        using fragment_sn [OF 1(2), of k m] \<open>di_DataSN d = tk_nextDataSN t\<close> a(3,6) False 1(5) by auto
    qed
    then show ?thesis using 1 False by (subst drainPendingDataIn.simps) (auto simp: refines_def make_chan_def intro!: exI [of _ m])
  next
    case True
    then have "fs ! m \<in> set (pendingOf t)" using pend by simp
    moreover have sn: "di_DataSN (fs ! m) = of_nat m" using 1(2,5) by (simp add: wf_fragments_def)
    ultimately obtain d where d: "find (\<lambda>d. di_DataSN d = tk_nextDataSN t) (pendingOf t) = Some d"
      using a(3) by (cases "find (\<lambda>d. di_DataSN d = tk_nextDataSN t) (pendingOf t)") (auto simp: find_None_iff)
    then have "d \<in> set (pendingOf t)" "di_DataSN d = of_nat m" using a(3) by (auto simp: find_Some_iff)
    then obtain k where "d = fs ! k" "k \<in> R" using pend by auto
    then have dm: "d = fs ! m" using fragment_sn [OF 1(2), of k m] \<open>di_DataSN d = of_nat m\<close> a(6) 1(5) by auto
    obtain sk where ne: "tk_snack t = Some sk" using \<open>d \<in> set (pendingOf t)\<close> by (cases "tk_snack t") (auto simp: pendingOf_def)
    have d': "find (\<lambda>d. di_DataSN d = tk_nextDataSN t) (pendingOf t) = Some (fs ! m)" using d dm by simp
    let ?ps = "filter (\<lambda>x. di_DataSN x \<noteq> di_DataSN (fs ! m)) (pendingOf t)"
    let ?t1 = "setPending ?ps t"
    have p1: "pendingOf ?t1 = ?ps" using ne by (simp add: pendingOf_setPending)
    have t1: "\<not> tk_streaming ?t1" "tk_buf ?t1 = Some (dataUpto fs m)" "tk_nextDataSN ?t1 = of_nat m"
      "tk_nextOffset ?t1 = of_nat (length (dataUpto fs m))" "tk_resultCh ?t1 = make_chan 1" "tk_erl ?t1 = tk_erl t"
      using a 1(4) by (simp_all add: setPending_def)
    have R: "{..<Suc m} \<subseteq> R" using a(5) True by (auto simp: lessThan_Suc)
    have pp: "set (pendingOf ?t1) \<subseteq> {fs ! k |k. k \<in> R}" using pend(1) by (auto simp: p1)
    have pq: "\<forall>k\<in>R. Suc m \<le> k \<longrightarrow> fs ! k \<in> set (pendingOf ?t1)"
      using pend(2) a(6) fragment_sn [OF 1(2), of _ m] 1(5) unfolding p1 by (auto simp: dm sn)
    note st = store_next [OF t1(1-4) 1(5) R a(6) pp pq]
    let ?t2 = "advance (fs ! m) (?t1\<lparr>tk_buf := Some (dataUpto fs (Suc m))\<rparr>)"
    have t2: "tk_resultCh ?t2 = make_chan 1" "tk_erl ?t2 = tk_erl t" "pendingOf ?t2 = pendingOf ?t1"
      using t1 by (simp_all add: advance_def)
    have unf: "drainPendingDataIn t = (if di_HasStatus (fs ! m) then finishDataIn (fs ! m) ?t2 else drainPendingDataIn ?t2)"
      using d st(1) by (subst drainPendingDataIn.simps) (simp add: dm Let_def)
    have hs: "di_HasStatus (fs ! m) \<longleftrightarrow> m = length fs - 1" using 1(2,5) by (simp add: wf_fragments_def)
    show ?thesis
    proof (cases "di_HasStatus (fs ! m)")
      case True
      then have "Suc m = length fs" using hs 1(5) by simp
      then show ?thesis using finish_last [of fs R ?t2] st(2) t2 1(2) True hs unf by auto
    next
      case False
      then have "Suc m < length fs" using hs 1(5) by simp
      have "\<exists>t'. drainPendingDataIn ?t2 = Done t' \<and> refines fs R t' \<and> tk_erl t' = tk_erl ?t2"
        by (rule 1(1) [OF d' st(1) refl False 1(2) st(2) t2(1) \<open>Suc m < length fs\<close>])
      then show ?thesis using False unf t2(2) by simp
    qed
  qed
qed

text \<open>One Data-In, in order or (with error recovery) out of order.\<close>

definition accepting :: "WriteSide \<Rightarrow> bool" where
  "accepting w \<longleftrightarrow> (\<forall>n. wr_accepts w n)"

lemma snackRequest_marshals: "\<exists>b. SNACKReq_MarshalBHS (snackRequest t ty ttt b' r es) = Inr b"
  by (simp add: SNACKReq_MarshalBHS_def marshalWith_def marshalHeader_def snackRequest_def zeroHeader_def
      encodeDataSegmentLength_def)

lemma trySend_accepting: "accepting w \<Longrightarrow> \<exists>w'. trySend raw w = (True, w') \<and> accepting w'"
  by (simp add: trySend_def accepting_def Let_def)

lemma sendSNACK_accepting:
  assumes "accepting w"
  shows "\<exists>w'. sendSNACK t ty b' r es w = (None, w') \<and> accepting w'"
proof -
  obtain b where "SNACKReq_MarshalBHS (snackRequest t ty 0 b' r es) = Inr b" using snackRequest_marshals by blast
  moreover obtain w' where "trySend (bareRaw b []) w = (True, w')" "accepting w'"
    using trySend_accepting [OF assms] by blast
  ultimately show ?thesis by (simp add: sendSNACK_def)
qed

text \<open>The beginning of \<open>handleDataIn\<close>.\<close>

abbreviation onReceive :: "task \<Rightarrow> task" where
  "onReceive t \<equiv> (if tk_erl t \<ge> 1 \<and> tk_snackTimeout t > 0 then resetSnackTimer t else t)"

lemma onReceive_sel [simp]:
  "tk_nextDataSN (onReceive t) = tk_nextDataSN t" "tk_erl (onReceive t) = tk_erl t" "pendingOf (onReceive t) = pendingOf t"
  "tk_streaming (onReceive t) = tk_streaming t" "tk_buf (onReceive t) = tk_buf t" "tk_nextOffset (onReceive t) = tk_nextOffset t"
  "tk_resultCh (onReceive t) = tk_resultCh t"
  by (simp_all add: resetSnackTimer_def) (simp_all add: startSnackTimer_def)

lemma assembled_onReceive [simp]: "assembled fs R m (onReceive t) = assembled fs R m t"
  unfolding assembled_def onReceive_sel ..

lemma bufferOutOfOrder_sel:
  "pendingOf (bufferOutOfOrder din t) = din # filter (\<lambda>d. di_DataSN d \<noteq> di_DataSN din) (pendingOf t)"
  "tk_nextDataSN (bufferOutOfOrder din t) = tk_nextDataSN t" "tk_erl (bufferOutOfOrder din t) = tk_erl t"
  "tk_streaming (bufferOutOfOrder din t) = tk_streaming t" "tk_buf (bufferOutOfOrder din t) = tk_buf t"
  "tk_nextOffset (bufferOutOfOrder din t) = tk_nextOffset t" "tk_resultCh (bufferOutOfOrder din t) = tk_resultCh t"
  by (simp_all add: bufferOutOfOrder_def Let_def) (simp add: pendingOf_def newSnackState_def split: option.split)

lemma handle_gap:
  assumes "wf_fragments fs" "assembled fs R m t" "k < length fs" "k \<noteq> m" "tk_erl t \<ge> 1" "accepting w"
  shows "\<exists>t' w'. handleDataIn es (fs ! k) t w = Done (t', w') \<and> assembled fs (insert k R) m t' \<and>
    tk_resultCh t' = tk_resultCh t \<and> tk_erl t' = tk_erl t \<and> accepting w'"
proof -
  let ?t = "bufferOutOfOrder (fs ! k) (onReceive t)"
  have m: "m \<le> length fs" and n: "tk_nextDataSN t = of_nat m" using assms(2) by (simp_all add: assembled_def)
  have ne: "di_DataSN (fs ! k) \<noteq> tk_nextDataSN t" using fragment_sn [OF assms(1,3) m] assms(4) n by simp
  obtain w' where w': "sendSNACK ?t SNACKTypeDataR2T (tk_nextDataSN t) (di_DataSN (fs ! k) - tk_nextDataSN t) es w = (None, w')"
    "accepting w'"
    using sendSNACK_accepting [OF assms(6)] by blast
  have "handleDataIn es (fs ! k) t w = Done (?t, w')"
    using ne w'(1) assms(5) bufferOutOfOrder_sel(2) [of "fs ! k" "onReceive t"]
    unfolding handleDataIn_def Let_def onReceive_sel by simp
  moreover have "\<forall>j\<in>R. j \<noteq> k \<longrightarrow> di_DataSN (fs ! j) \<noteq> di_DataSN (fs ! k)"
  proof (intro ballI impI)
    fix j assume "j \<in> R" "j \<noteq> k"
    then have "j < length fs" using assms(2) by (auto simp: assembled_def)
    then show "di_DataSN (fs ! j) \<noteq> di_DataSN (fs ! k)"
      using fragment_sn [OF assms(1), of j k] fragment_sn [OF assms(1), of k k] assms(3) \<open>j \<noteq> k\<close> by simp
  qed
  then have "assembled fs (insert k R) m ?t"
    using assms(2,3) by (auto simp: assembled_def bufferOutOfOrder_sel)
  ultimately show ?thesis using w'(2) by (auto simp: bufferOutOfOrder_sel)
qed

lemma acknowledge_accepting: "accepting w \<Longrightarrow> accepting (acknowledge es din t w)"
  by (auto simp: acknowledge_def accepting_def trySend_def Let_def split: sum.split)

lemma in_order_refines:
  assumes "wf_fragments fs" "assembled fs R m t" "m \<notin> R" "m < length fs" "tk_resultCh t = make_chan 1" "accepting w"
  shows "\<exists>t' w'. handleInOrder es (fs ! m) t w = Done (t', w') \<and> refines fs (insert m R) t' \<and> tk_erl t' = tk_erl t \<and> accepting w'"
proof -
  let ?R = "insert m R"
  let ?t1 = "t\<lparr>tk_buf := Some (dataUpto fs (Suc m))\<rparr>"
  let ?t2 = "advance (fs ! m) ?t1"
  let ?w = "acknowledge es (fs ! m) ?t2 w"
  have a: "\<not> tk_streaming t" "tk_buf t = Some (dataUpto fs m)" "tk_nextDataSN t = of_nat m"
      "tk_nextOffset t = of_nat (length (dataUpto fs m))" "{..<Suc m} \<subseteq> ?R" "?R \<subseteq> {..<length fs}"
      "set (pendingOf t) \<subseteq> {fs ! k |k. k \<in> ?R}" "\<forall>k\<in>?R. Suc m \<le> k \<longrightarrow> fs ! k \<in> set (pendingOf t)"
    using assms(2,4) by (auto simp: assembled_def lessThan_Suc)
  note st = store_next [OF a(1-4) assms(4) a(5-8)]
  have f: "di_HasStatus (fs ! m) \<longleftrightarrow> m = length fs - 1"
    using assms(1,4) by (simp add: wf_fragments_def)
  have t2: "tk_resultCh ?t2 = make_chan 1" "tk_erl ?t2 = tk_erl t" "pendingOf ?t2 = pendingOf t"
    using assms(5) by (simp_all add: advance_def)
  have run: "handleInOrder es (fs ! m) t w =
    bindStep (if pendingOf ?t2 \<noteq> [] then drainPendingDataIn ?t2 else Done ?t2) (\<lambda>t'.
      if pendingOf ?t2 \<noteq> [] \<and> ch_buf (tk_resultCh t') \<noteq> [] then Done (t', ?w)
      else if di_HasStatus (fs ! m) then bindStep (finishDataIn (fs ! m) t') (\<lambda>t. Done (t, ?w))
      else Done (t', ?w))"
    unfolding handleInOrder_def Let_def st(1) by (simp only: bindStep_simps)
  have w: "accepting ?w" by (rule acknowledge_accepting [OF assms(6)])
  show ?thesis
  proof (cases "Suc m = length fs")
    case True
    have m: "length fs - 1 = m" using True by simp
    have "drainPendingDataIn ?t2 = Done ?t2"
    proof -
      have "find (\<lambda>d. di_DataSN d = tk_nextDataSN ?t2) (pendingOf ?t2) = None"
        unfolding find_None_iff
      proof (clarify)
        fix d assume d: "d \<in> set (pendingOf ?t2)" "di_DataSN d = tk_nextDataSN ?t2"
        then obtain k where "d = fs ! k" "k < length fs" using st(2) unfolding assembled_def by blast
        moreover have "tk_nextDataSN ?t2 = of_nat (length fs)" using st(2) True unfolding assembled_def by simp
        ultimately show False using fragment_sn [OF assms(1), of k "length fs"] d(2) by simp
      qed
      then show ?thesis by (subst drainPendingDataIn.simps) simp
    qed
    moreover have "ch_buf (tk_resultCh ?t2) = []" using t2(1) by (simp add: make_chan_def)
    moreover have s: "di_HasStatus (fs ! m)" using f True by simp
    moreover obtain t' where "finishDataIn (fs ! m) ?t2 = Done t'" "refines fs ?R t'" "tk_erl t' = tk_erl ?t2"
      using finish_last [OF subst [OF True, of "\<lambda>x. assembled fs ?R x ?t2", OF st(2)] t2(1) assms(1)] m by auto
    ultimately have "handleInOrder es (fs ! m) t w = Done (t', ?w)" unfolding run by simp
    then show ?thesis using \<open>refines fs ?R t'\<close> \<open>tk_erl t' = tk_erl ?t2\<close> t2(2) w by auto
  next
    case False
    then have l: "Suc m < length fs" "\<not> di_HasStatus (fs ! m)" using assms(4) f by auto
    have "\<exists>t'. (if pendingOf ?t2 \<noteq> [] then drainPendingDataIn ?t2 else Done ?t2) = Done t' \<and> refines fs ?R t' \<and> tk_erl t' = tk_erl ?t2"
    proof (cases "pendingOf ?t2 = []")
      case True
      then have "Suc m \<notin> ?R" using st(2) l(1) by (auto simp: assembled_def)
      moreover have "tk_resultCh ?t2 = (make_chan 1)\<lparr>ch_buf := if Suc m = length fs then [result_of fs] else []\<rparr>"
        unfolding t2(1) using False by (simp add: make_chan_def)
      ultimately have "refines fs ?R ?t2" unfolding refines_def using st(2) by blast
      then show ?thesis using True by simp
    next
      case False
      then show ?thesis using drain_refines [OF assms(1) st(2) t2(1) l(1)] by simp
    qed
    then obtain t' where "(if pendingOf ?t2 \<noteq> [] then drainPendingDataIn ?t2 else Done ?t2) = Done t'" "refines fs ?R t'"
      "tk_erl t' = tk_erl ?t2" by blast
    moreover have "handleInOrder es (fs ! m) t w = Done (t', ?w)"
      unfolding run using calculation(1) l(2) by simp
    ultimately show ?thesis using t2(2) w by metis
  qed
qed

lemma handle_next:
  assumes "wf_fragments fs" "assembled fs R m t" "m \<notin> R" "m < length fs" "tk_resultCh t = make_chan 1" "accepting w"
  shows "\<exists>t' w'. handleDataIn es (fs ! m) t w = Done (t', w') \<and> refines fs (insert m R) t' \<and> tk_erl t' = tk_erl t \<and> accepting w'"
proof -
  have "di_DataSN (fs ! m) = tk_nextDataSN t" "di_BufferOffset (fs ! m) = tk_nextOffset t"
    using assms(1,2,4) by (simp_all add: wf_fragments_def assembled_def)
  then have "handleDataIn es (fs ! m) t w = handleInOrder es (fs ! m) (onReceive t) w"
    unfolding handleDataIn_def Let_def onReceive_sel by simp
  moreover have "assembled fs R m (onReceive t)" using assms(2) unfolding assembled_onReceive .
  ultimately show ?thesis
    using in_order_refines [OF assms(1) _ assms(3,4) _ assms(6), of "onReceive t" es] assms(5) unfolding onReceive_sel by simp
qed

text \<open>Handling a sequence of fragments.\<close>

fun handleAll :: "u32 \<Rightarrow> DataIn list \<Rightarrow> task \<times> WriteSide \<Rightarrow> (task \<times> WriteSide) Step" where
  "handleAll es [] s = Done s"
| "handleAll es (d # ds) s = bindStep (handleDataIn es d (fst s) (snd s)) (handleAll es ds)"

lemma refines_step:
  assumes "wf_fragments fs" "refines fs R t" "k < length fs" "accepting w" "tk_erl t \<ge> 1 \<or> R = {..<k}"
  shows "\<exists>t' w'. handleDataIn es (fs ! k) t w = Done (t', w') \<and> refines fs (insert k R) t' \<and> tk_erl t' = tk_erl t \<and> accepting w'"
proof -
  obtain m where m: "assembled fs R m t" "m \<notin> R"
    "tk_resultCh t = (make_chan 1)\<lparr>ch_buf := if m = length fs then [result_of fs] else []\<rparr>"
    using assms(2) by (auto simp: refines_def)
  show ?thesis
  proof (cases "k = m")
    case True
    then have "tk_resultCh t = make_chan 1" using m(3) assms(3) by (simp add: make_chan_def)
    then show ?thesis using handle_next [OF assms(1) m(1,2) _ _ assms(4), of es] True assms(3) by simp
  next
    case False
    have "tk_erl t \<ge> 1"
    proof (rule ccontr)
      assume "\<not> tk_erl t \<ge> 1"
      then have "R = {..<k}" using assms(5) by simp
      then show False using m(1,2) False by (auto simp: assembled_def not_less)
    qed
    then show ?thesis
      using handle_gap [OF assms(1) m(1) assms(3) False _ assms(4), of es] m(2,3) False by (fastforce simp: refines_def)
  qed
qed

lemma handleAll_refines:
  assumes "wf_fragments fs" "refines fs R t" "accepting w" "\<forall>k\<in>set ks. k < length fs"
    "tk_erl t \<ge> 1 \<or> (\<exists>m. R = {..<m} \<and> ks = [m..<length fs])"
  shows "\<exists>t' w'. handleAll es (map ((!) fs) ks) (t, w) = Done (t', w') \<and> refines fs (R \<union> set ks) t'"
  using assms(2-5)
proof (induction ks arbitrary: R t w)
  case Nil
  then show ?case by simp
next
  case (Cons k ks)
  have c: "tk_erl t \<ge> 1 \<or> R = {..<k} \<and> ks = [Suc k..<length fs]"
    using Cons.prems(4) upt_eq_Cons_conv [of _ "length fs" k ks] by (metis Suc_eq_plus1)
  obtain t' w' where s: "handleDataIn es (fs ! k) t w = Done (t', w')" "refines fs (insert k R) t'" "tk_erl t' = tk_erl t" "accepting w'"
    using refines_step [OF assms(1) Cons.prems(1) _ Cons.prems(2), of k es] Cons.prems(3) c by auto
  have "\<exists>t'' w''. handleAll es (map ((!) fs) ks) (t', w') = Done (t'', w'') \<and> refines fs (insert k R \<union> set ks) t''"
    using s c Cons.prems(3) by (intro Cons.IH) (auto simp: lessThan_Suc)
  then show ?case using s(1) by simp
qed

lemma fresh_refines: "wf_fragments fs \<Longrightarrow> refines fs {} ((newTask itt True wr 0)\<lparr>tk_erl := e, tk_snackTimeout := d\<rparr>)"
  by (auto simp: refines_def assembled_def newTask_def Let_def pendingOf_def make_chan_def wf_fragments_def intro!: exI [of _ 0])

section \<open>What the handlers do wrong\<close>

text \<open>A Data-In for a command that is not a read makes the handler use a buffer that does not exist.\<close>

lemma data_in_without_read_crashes:
  "di_DataSN din = 0 \<Longrightarrow> di_BufferOffset din = 0 \<Longrightarrow> di_Data din \<noteq> [] \<Longrightarrow>
   handleDataIn es din (newTask itt False wr 0) w = Crash"
  by (simp add: handleDataIn_def handleInOrder_def newTask_def Let_def storeData_def)

text \<open>
  Without error recovery a gap fails the task, but the task goes on: a second gap blocks on the full
  result channel, and for a streaming task the expected fragment is sent on the closed channel.
\<close>

definition gapTask :: "bool \<Rightarrow> task" where
  "gapTask streaming = newTask 7 True False (if streaming then 4 else 0)"

lemma second_gap_blocks:
  "di_DataSN d1 \<noteq> 0 \<Longrightarrow> di_DataSN d2 \<noteq> 0 \<Longrightarrow> handleAll es [d1, d2] (gapTask False, w) = Stuck"
  by (simp add: gapTask_def newTask_def Let_def handleDataIn_def deliver_def chan_send_def make_chan_def
      closeReaderWithError_def)

lemma streaming_data_after_gap_crashes:
  "di_DataSN d1 \<noteq> 0 \<Longrightarrow> di_DataSN d2 = 0 \<Longrightarrow> di_BufferOffset d2 = 0 \<Longrightarrow> di_Data d2 \<noteq> [] \<Longrightarrow>
   handleAll es [d1, d2] (gapTask True, w) = Crash"
  by (simp add: gapTask_def newTask_def Let_def handleDataIn_def handleInOrder_def deliver_def chan_send_def make_chan_def
      closeReaderWithError_def newChanReader_def chanReader_closeWithError_def storeData_def)

text \<open>A SNACK is sent without digests, whatever was negotiated.\<close>

lemma snack_has_no_digest:
  "sendSNACK t ty b r es w = (None, w') \<Longrightarrow> \<exists>bhs. wr_sent w' = wr_sent w @ [bareRaw bhs []]"
  by (auto simp: sendSNACK_def trySend_def Let_def split: sum.splits if_splits)

section \<open>Properties\<close>

text \<open>C9. Reassembly: the fragments of a read may arrive in any order and any number of times when the session
  has error recovery (SNACKs being accepted), or once and in order without it; as soon as all have arrived,
  the task has exactly one result, with all the data in order and the status of the last fragment.\<close>

theorem data_in_reassembly:
  assumes "wf_fragments fs" "set ks = {..<length fs}" "accepting w"
    "e \<ge> 1 \<or> ks = [0..<length fs]"
  shows "\<exists>t' w'. handleAll es (map ((!) fs) ks) ((newTask itt True wr 0)\<lparr>tk_erl := e, tk_snackTimeout := d\<rparr>, w) = Done (t', w')
    \<and> ch_buf (tk_resultCh t') = [result_of fs] \<and> unread (the (rs_Data (result_of fs))) = concat (map di_Data fs)"
proof -
  let ?t = "(newTask itt True wr 0)\<lparr>tk_erl := e, tk_snackTimeout := d\<rparr>"
  have "tk_erl ?t \<ge> 1 \<or> (\<exists>m. {} = {..<m} \<and> ks = [m..<length fs])" using assms(4) by auto
  from handleAll_refines [OF assms(1) fresh_refines [OF assms(1)] assms(3) _ this, of es] assms(2)
  obtain t' w' where r: "handleAll es (map ((!) fs) ks) (?t, w) = Done (t', w')" "refines fs {..<length fs} t'" by auto
  then obtain m where "assembled fs {..<length fs} m t'" "m \<notin> {..<length fs}"
    "tk_resultCh t' = (make_chan 1)\<lparr>ch_buf := if m = length fs then [result_of fs] else []\<rparr>"
    unfolding refines_def by blast
  moreover from this have "m = length fs" unfolding assembled_def by auto
  ultimately have "ch_buf (tk_resultCh t') = [result_of fs]" by simp
  then show ?thesis using r(1) by (auto simp: result_of_def statusResult_def)
qed

definition sampleFragment :: "u32 \<Rightarrow> u32 \<Rightarrow> bool \<Rightarrow> bytes \<Rightarrow> DataIn" where
  "sampleFragment sn off status data = \<lparr>di_Header = zeroHeader, di_Acknowledge = False, di_ResidualOverflow = False,
     di_ResidualUnderflow = False, di_HasStatus = status, di_Status = 0, di_TargetTransferTag = 0xFFFFFFFF,
     di_StatSN = 0, di_ExpCmdSN = 0, di_MaxCmdSN = 0, di_DataSN = sn, di_BufferOffset = off, di_ResidualCount = 0,
     di_Data = data\<rparr>"

definition sampleFragments :: "DataIn list" where
  "sampleFragments = [sampleFragment 0 0 False [1, 2], sampleFragment 1 2 False [3], sampleFragment 2 3 True [4]]"

lemma sampleFragments_wf: "wf_fragments sampleFragments"
  by (simp add: wf_fragments_def sampleFragments_def sampleFragment_def less_Suc_eq)

theorem data_in_reassembly_witness:
  "\<exists>t' w'. handleAll 5 (map ((!) sampleFragments) [2, 0, 0, 1])
      ((newTask 9 True False 0)\<lparr>tk_erl := 1, tk_snackTimeout := 100\<rparr>, \<lparr>wr_sent = [], wr_tries = 0, wr_accepts = (\<lambda>_. True)\<rparr>)
      = Done (t', w') \<and> ch_buf (tk_resultCh t') = [result_of sampleFragments]"
proof -
  have "set [2, 0, 0, 1] = {..<length sampleFragments}" by (auto simp: sampleFragments_def less_Suc_eq)
  from data_in_reassembly [where itt = 9 and wr = False and d = 100 and e = 1 and es = 5
      and w = "\<lparr>wr_sent = [], wr_tries = 0, wr_accepts = (\<lambda>_. True)\<rparr>", OF sampleFragments_wf this]
  show ?thesis unfolding accepting_def by fastforce
qed

end
