(* ===== verification/Data_Out.thy ===== *)
theory Data_Out
  imports Task
begin

text \<open>
  \<open>internal/session/dataout.go\<close>: the Data-Out bursts of a write.

  The loop of \<open>sendDataOutBurst\<close> is a partial function, so that returning is a theorem and not a
  premise. Its write channel blocks until the pump takes a PDU and never fails, so the PDUs sent are
  a list; \<open>expStatSN n\<close> is what the n-th call of the function of that name returns, and \<open>stamp\<close> is
  the digest stamping of the session.

  The lemmas: the loop returns for all arguments; a burst is the data cut into pieces of the
  maximal length, at consecutive offsets, numbered from zero, the last one marked as final.
\<close>

section \<open>Bursts\<close>

definition dataOutPDU :: "u32 \<Rightarrow> u32 \<Rightarrow> bool \<Rightarrow> u32 \<Rightarrow> u32 \<Rightarrow> u32 \<Rightarrow> bytes \<Rightarrow> DataOut" where
  "dataOutPDU itt ttt isFinal expStatSN dataSN bufferOffset data =
     \<lparr>do_Header = zeroHeader\<lparr>Final := isFinal, InitiatorTaskTag := itt, DataSegmentLen := of_nat (length data)\<rparr>,
      do_TargetTransferTag = ttt, do_ExpStatSN = expStatSN, do_DataSN = dataSN, do_BufferOffset = bufferOffset,
      do_Data = data\<rparr>"

record Burst =
  bu_dataSN :: u32
  bu_sent :: u32
  bu_reader :: Reader
  bu_calls :: nat
  bu_out :: "RawPDU list"

text \<open>One round of the loop: the next state, or the end of the loop with its error.\<close>

definition burstRound :: "u32 \<Rightarrow> u32 \<Rightarrow> u32 \<Rightarrow> u32 \<Rightarrow> u32 \<Rightarrow> (nat \<Rightarrow> u32) \<Rightarrow> (RawPDU \<Rightarrow> RawPDU) \<Rightarrow> Burst
    \<Rightarrow> (SessionError option \<times> Burst) + Burst" where
  "burstRound itt ttt offset burstLen maxRecvDSL expStatSN stamp b =
     (let sent = bu_sent b;
          chunkSize = min maxRecvDSL (burstLen - sent);
          ((buf, err), r) = io_ReadFull (unat chunkSize) (bu_reader b);
          b = b\<lparr>bu_reader := r\<rparr>;
          n = length buf
      in if err \<noteq> None \<and> err \<noteq> Some IO_UnexpectedEOF then Inl (Some (ErrReadData (the err)), b)
         else if n = 0 then Inl (None, b)
         else
           let isFinal = (sent + of_nat n \<ge> burstLen \<or> err = Some IO_UnexpectedEOF);
               dout = dataOutPDU itt ttt isFinal (expStatSN (bu_calls b)) (bu_dataSN b) (offset + sent) buf;
               b = b\<lparr>bu_calls := bu_calls b + 1\<rparr>
           in case DataOut_MarshalBHS dout of
                Inl e \<Rightarrow> Inl (Some (ErrEncode e), b)
              | Inr bhs \<Rightarrow>
                  (case ValidateOutgoingSegmentLength (of_nat n) maxRecvDSL of
                     Some e \<Rightarrow> Inl (Some ErrSegmentLength, b)
                   | None \<Rightarrow>
                       let b = b\<lparr>bu_out := bu_out b @ [stamp (bareRaw bhs buf)], bu_dataSN := bu_dataSN b + 1,
                                 bu_sent := sent + of_nat n\<rparr>
                       in if err = Some IO_UnexpectedEOF then Inl (None, b) else Inr b))"

partial_function (option) burstLoop :: "u32 \<Rightarrow> u32 \<Rightarrow> u32 \<Rightarrow> u32 \<Rightarrow> u32 \<Rightarrow> (nat \<Rightarrow> u32) \<Rightarrow> (RawPDU \<Rightarrow> RawPDU) \<Rightarrow> Burst
    \<Rightarrow> (SessionError option \<times> Burst) option" where
  "burstLoop itt ttt offset burstLen maxRecvDSL expStatSN stamp b =
     (if bu_sent b < burstLen
      then (case burstRound itt ttt offset burstLen maxRecvDSL expStatSN stamp b of
              Inl res \<Rightarrow> Some res
            | Inr b \<Rightarrow> burstLoop itt ttt offset burstLen maxRecvDSL expStatSN stamp b)
      else Some (None, b))"

text \<open>The bytes sent and the error, the PDUs and the task with its advanced reader; \<open>None\<close> is not returning.\<close>

definition sendDataOutBurst :: "u32 \<Rightarrow> u32 \<Rightarrow> u32 \<Rightarrow> u32 \<Rightarrow> (nat \<Rightarrow> u32) \<Rightarrow> (RawPDU \<Rightarrow> RawPDU) \<Rightarrow> Reader \<Rightarrow> u32
    \<Rightarrow> (SessionError option \<times> Burst) option" where
  "sendDataOutBurst itt ttt offset burstLen expStatSN stamp r maxRecvDSL =
     burstLoop itt ttt offset burstLen maxRecvDSL expStatSN stamp
       \<lparr>bu_dataSN = 0, bu_sent = 0, bu_reader = r, bu_calls = 0, bu_out = []\<rparr>"

text \<open>The callers; reading a nil reader is a nil dereference, which a burst of no bytes avoids.\<close>

definition handleR2T :: "R2T \<Rightarrow> (nat \<Rightarrow> u32) \<Rightarrow> NegotiatedParams \<Rightarrow> (RawPDU \<Rightarrow> RawPDU) \<Rightarrow> task
    \<Rightarrow> ((SessionError option \<times> task \<times> RawPDU list) option) Step" where
  "handleR2T r2t expStatSN params stamp t =
     (let desired = min (rt_DesiredDataTransferLength r2t) (np_MaxBurstLength params)
      in case tk_reader t of
           None \<Rightarrow> if min (np_MaxRecvDataSegmentLength params) desired = 0 then Done (Some (None, t, [])) else Crash
         | Some r \<Rightarrow>
             Done (map_option (\<lambda>(e, b). (e, t\<lparr>tk_reader := Some (bu_reader b)\<rparr>, bu_out b))
               (sendDataOutBurst (tk_itt t) (rt_TargetTransferTag r2t) (rt_BufferOffset r2t) desired expStatSN stamp r
                  (np_MaxRecvDataSegmentLength params))))"

definition sendUnsolicitedDataOut :: "(nat \<Rightarrow> u32) \<Rightarrow> NegotiatedParams \<Rightarrow> (RawPDU \<Rightarrow> RawPDU) \<Rightarrow> task
    \<Rightarrow> ((SessionError option \<times> task \<times> RawPDU list) option) Step" where
  "sendUnsolicitedDataOut expStatSN params stamp t =
     (let remaining = np_FirstBurstLength params - tk_bytesSent t
      in if remaining \<le> 0 then Done (Some (None, t, []))
         else (case tk_reader t of
                 None \<Rightarrow> if np_MaxRecvDataSegmentLength params = 0 then Done (Some (None, t, [])) else Crash
               | Some r \<Rightarrow>
                   Done (map_option (\<lambda>(e, b). (e, t\<lparr>tk_reader := Some (bu_reader b),
                                                     tk_bytesSent := tk_bytesSent t + bu_sent b\<rparr>, bu_out b))
                     (sendDataOutBurst (tk_itt t) 0xFFFFFFFF (tk_bytesSent t) remaining expStatSN stamp r
                        (np_MaxRecvDataSegmentLength params)))))"

text \<open>An R2T for a command that is not a write crashes the program.\<close>

lemma r2t_without_write_crashes:
  assumes "tk_reader t = None" "rt_DesiredDataTransferLength p \<noteq> 0" "np_MaxBurstLength ps \<noteq> 0"
    "np_MaxRecvDataSegmentLength ps \<noteq> 0"
  shows "handleR2T p es ps stamp t = Crash"
proof -
  have "min (np_MaxRecvDataSegmentLength ps) (min (rt_DesiredDataTransferLength p) (np_MaxBurstLength ps)) \<noteq> 0"
    using assms(2-4) by (simp add: min_def)
  then show ?thesis by (simp add: handleR2T_def Let_def assms(1))
qed

lemma io_ReadFull_full:
  assumes "n \<le> length (unread r)"
  shows "\<exists>r'. io_ReadFull n r = ((take n (unread r), None), r') \<and> unread r' = drop n (unread r) \<and> rd_fails r' = rd_fails r"
proof -
  obtain got e r' where rd: "io_ReadFull n r = ((got, e), r')" by (metis prod.collapse)
  then show ?thesis using io_ReadFull_next [OF rd] io_ReadFull_err [OF rd] assms by (auto simp: min_def)
qed

lemma io_ReadFull_short:
  assumes "length (unread r) < n" "\<not> rd_fails r" "unread r \<noteq> []"
  shows "\<exists>r'. io_ReadFull n r = ((unread r, Some IO_UnexpectedEOF), r') \<and> unread r' = [] \<and> \<not> rd_fails r'"
proof -
  obtain got e r' where rd: "io_ReadFull n r = ((got, e), r')" by (metis prod.collapse)
  then show ?thesis using io_ReadFull_next [OF rd] io_ReadFull_err [OF rd] assms by auto
qed

section \<open>The loop returns\<close>

lemma burstRound_progress:
  assumes "burstRound itt ttt offset burstLen mx es stamp b = Inr b'" "bu_sent b < burstLen"
  shows "unat (bu_sent b) < unat (bu_sent b') \<and> unat (bu_sent b') \<le> unat burstLen"
proof -
  let ?c = "min mx (burstLen - bu_sent b)"
  obtain buf err r where rd: "io_ReadFull (unat ?c) (bu_reader b) = ((buf, err), r)" by (metis prod.collapse)
  have s: "buf \<noteq> []" "bu_sent b' = bu_sent b + of_nat (length buf)"
    using assms(1) rd by (auto simp: burstRound_def Let_def split: if_splits sum.splits option.splits)
  have "length buf \<le> unat ?c" using io_ReadFull_next [OF rd] by simp
  also have "unat ?c \<le> unat (burstLen - bu_sent b)" by (simp add: min_def word_le_nat_alt)
  also have "\<dots> = unat burstLen - unat (bu_sent b)" using assms(2) by (simp add: unat_sub word_less_nat_alt word_le_nat_alt)
  finally have l: "length buf \<le> unat burstLen - unat (bu_sent b)" .
  moreover have b: "unat burstLen < 2 ^ 32" "unat (bu_sent b) < unat burstLen"
    using unsigned_less [of burstLen] assms(2) by (simp_all add: word_less_nat_alt)
  ultimately have "unat (of_nat (length buf) :: u32) = length buf" by (simp add: unat_of_nat_u32)
  then have "unat (bu_sent b') = unat (bu_sent b) + length buf"
    unfolding s(2) using l b by (subst unat_plus_u32) simp_all
  then show ?thesis using l b s(1) by simp
qed

lemma burstLoop_returns: "\<exists>res. burstLoop itt ttt offset burstLen mx es stamp b = Some res"
proof (induction "unat burstLen - unat (bu_sent b)" arbitrary: b rule: less_induct)
  case less
  show ?case
  proof (cases "bu_sent b < burstLen")
    case True
    show ?thesis
    proof (cases "burstRound itt ttt offset burstLen mx es stamp b")
      case (Inr b')
      have "unat burstLen - unat (bu_sent b') < unat burstLen - unat (bu_sent b)"
        using burstRound_progress [OF Inr True] by linarith
      from less [OF this] show ?thesis using True Inr by (subst burstLoop.simps) simp
    qed (use True in \<open>subst burstLoop.simps, simp\<close>)
  qed (subst burstLoop.simps, simp)
qed

section \<open>What a burst is\<close>

definition dataOutFrame :: "DataOut \<Rightarrow> RawPDU" where
  "dataOutFrame p = (case DataOut_MarshalBHS p of Inr bhs \<Rightarrow> bareRaw bhs (do_Data p) | Inl _ \<Rightarrow> bareRaw [] [])"

definition pieceCount :: "nat \<Rightarrow> bytes \<Rightarrow> nat" where
  "pieceCount m d = (length d + m - 1) div m"

definition burstPDU :: "u32 \<Rightarrow> u32 \<Rightarrow> u32 \<Rightarrow> (nat \<Rightarrow> u32) \<Rightarrow> nat \<Rightarrow> bytes \<Rightarrow> nat \<Rightarrow> DataOut" where
  "burstPDU itt ttt offset es m d k =
     dataOutPDU itt ttt (Suc k = pieceCount m d) (es k) (of_nat k) (offset + of_nat (k * m)) (take m (drop (k * m) d))"

lemma pieceCount_less: "0 < m \<Longrightarrow> k < pieceCount m d \<longleftrightarrow> k * m < length d"
proof -
  assume "0 < m"
  then have "k < pieceCount m d \<longleftrightarrow> Suc k * m \<le> length d + m - 1"
    by (simp add: pieceCount_def less_eq_div_iff_mult_less_eq Suc_le_eq [symmetric] del: mult_Suc)
  then show ?thesis using \<open>0 < m\<close> by auto
qed

lemma pieceCount_last: "0 < m \<Longrightarrow> k * m < length d \<Longrightarrow> Suc k = pieceCount m d \<longleftrightarrow> length d - k * m \<le> m"
  using pieceCount_less [of m k d] pieceCount_less [of m "Suc k" d] by (auto simp: not_less)

lemma dataOut_marshals:
  "length data < 2 ^ 24 \<Longrightarrow> \<exists>b. DataOut_MarshalBHS (dataOutPDU itt ttt f es sn off data) = Inr b \<and>
     dataOutFrame (dataOutPDU itt ttt f es sn off data) = bareRaw b data \<and> length b = 48 \<and>
     DecodeBHS b = Inr (norm_PDU (PDataOut (dataOutPDU itt ttt f es sn off data)))"
proof -
  assume l: "length data < 2 ^ 24"
  let ?p = "dataOutPDU itt ttt f es sn off data"
  have c: "consistent (PDataOut ?p)"
    using l by (simp add: consistent_def wf_DataOut_def dataOutPDU_def wf_Header_def zeroHeader_def unat_of_nat_u32
        word_le_nat_alt)
  obtain b where "MarshalBHS (PDataOut ?p) = Inr b" "DecodeBHS b = Inr (norm_PDU (PDataOut ?p))"
    "unstamped (bareRaw b (DataSegment (PDataOut ?p)))"
    using frame_roundtrip [OF c] by blast
  then show ?thesis
    by (simp add: dataOutFrame_def unstamped_def shaped_def) (simp add: dataOutPDU_def bareRaw_def)
qed

text \<open>One round from the j-th piece on.\<close>

lemma round_full:
  assumes "0 < unat mx" "unat mx < 2 ^ 24" "j * unat mx < length d" "d = take (unat burstLen) u" "\<not> rd_fails (bu_reader b)"
    "unread (bu_reader b) = drop (j * unat mx) u" "bu_sent b = of_nat (j * unat mx)" "bu_dataSN b = of_nat j" "bu_calls b = j"
    "min (unat mx) (unat burstLen - j * unat mx) \<le> length u - j * unat mx"
    "length u < unat burstLen \<Longrightarrow> length u mod unat mx \<noteq> 0"
  shows "\<exists>b'. burstRound itt ttt offset burstLen mx es stamp b = Inr b' \<and> \<not> rd_fails (bu_reader b') \<and>
    unread (bu_reader b') = drop (min (Suc j * unat mx) (unat burstLen)) u \<and> bu_sent b' = of_nat (min (Suc j * unat mx) (unat burstLen)) \<and>
    bu_dataSN b' = of_nat (Suc j) \<and> bu_calls b' = Suc j \<and>
    bu_out b' = bu_out b @ [stamp (dataOutFrame (burstPDU itt ttt offset es (unat mx) d j))]"
proof -
  let ?m = "unat mx"
  let ?s = "j * ?m"
  let ?c = "min ?m (unat burstLen - ?s)"
  have sl: "?s < unat burstLen" using assms(3,4) by simp
  have bl: "unat burstLen < 2 ^ 32" using unsigned_less [of burstLen] by simp
  have sb: "unat (bu_sent b) = ?s" using sl bl by (simp add: assms(7) unat_of_nat_u32 del: of_nat_mult)
  have "unat (burstLen - bu_sent b) = unat burstLen - ?s"
    using sl sb by (simp add: unat_sub word_le_nat_alt)
  then have c: "unat (min mx (burstLen - bu_sent b)) = ?c" by (simp add: min_def word_le_nat_alt)
  define buf where "buf = take ?c (drop ?s u)"
  have lb: "length buf = ?c" using assms(10) by (simp add: buf_def)
  have ne: "buf \<noteq> []" using assms(1) sl lb by (cases buf) simp_all
  obtain r where rd: "io_ReadFull ?c (bu_reader b) = ((buf, None), r)" "rd_fails r = rd_fails (bu_reader b)"
    "unread r = drop ?c (drop ?s u)"
    using io_ReadFull_full [of ?c "bu_reader b"] assms(6,10) by (auto simp: buf_def)
  have piece: "buf = take ?m (drop ?s d)" by (simp add: buf_def assms(4) drop_take min.commute)
  have m32: "?c < 2 ^ 24" using assms(2) by simp
  have n32: "unat (of_nat (length buf) :: u32) = ?c" using m32 lb by (simp add: unat_of_nat_u32)
  have next': "bu_sent b + of_nat (length buf) = of_nat (?s + ?c)" by (simp add: assms(7) lb)
  have un: "unat (bu_sent b + of_nat (length buf)) = ?s + ?c"
    using bl sl unfolding next' by (subst unat_of_nat_u32) simp_all
  have e: "?s + ?c = min (Suc j * ?m) (unat burstLen)" using sl by auto
  have fin: "(burstLen \<le> bu_sent b + of_nat (length buf)) = (Suc j = pieceCount ?m d)"
  proof -
    have "burstLen \<le> bu_sent b + of_nat (length buf) \<longleftrightarrow> unat burstLen - ?s \<le> ?m"
      using sl by (simp add: word_le_nat_alt un) arith
    moreover have "length d - ?s \<le> ?m \<longleftrightarrow> unat burstLen - ?s \<le> ?m"
    proof (cases "length u < unat burstLen")
      case True
      have "length u - ?s \<noteq> ?m"
      proof
        assume "length u - ?s = ?m"
        moreover have "?s < length u" using assms(3,4) by simp
        ultimately have "length u = Suc j * ?m" unfolding mult_Suc by linarith
        then show False using assms(11) [OF True] by simp
      qed
      then show ?thesis using True assms(3,4,10) by auto
    qed (simp add: assms(4))
    ultimately show ?thesis using pieceCount_last [OF assms(1,3)] by simp
  qed
  let ?p = "burstPDU itt ttt offset es ?m d j"
  have pdu: "dataOutPDU itt ttt (burstLen \<le> bu_sent b + of_nat (length buf)) (es (bu_calls b)) (bu_dataSN b) (offset + bu_sent b) buf = ?p"
    unfolding burstPDU_def piece [symmetric] assms(7,8,9) using fin unfolding assms(7) by (simp only:)
  obtain bhs where bhs: "DataOut_MarshalBHS ?p = Inr bhs" "dataOutFrame ?p = bareRaw bhs buf"
    using dataOut_marshals [of buf itt ttt "burstLen \<le> bu_sent b + of_nat (length buf)" "es (bu_calls b)" "bu_dataSN b" "offset + bu_sent b"] m32 lb
    unfolding pdu by auto
  have val: "ValidateOutgoingSegmentLength (of_nat (length buf)) mx = None"
    by (simp add: ValidateOutgoingSegmentLength_def word_less_nat_alt n32)
  let ?b = "b\<lparr>bu_reader := r, bu_calls := bu_calls b + 1, bu_out := bu_out b @ [stamp (bareRaw bhs buf)],
    bu_dataSN := bu_dataSN b + 1, bu_sent := bu_sent b + of_nat (length buf)\<rparr>"
  have "burstRound itt ttt offset burstLen mx es stamp b = Inr ?b"
    using ne by (simp add: burstRound_def Let_def c rd(1) pdu bhs(1) val)
  moreover have "unread r = drop (min (Suc j * ?m) (unat burstLen)) u" unfolding rd(3) e [symmetric] by (simp add: add.commute)
  ultimately show ?thesis
    using rd(2) assms(5,8,9) next' e bhs(2) by (intro exI [of _ ?b]) simp
qed

lemma round_short:
  assumes "0 < unat mx" "unat mx < 2 ^ 24" "j * unat mx < length d" "d = take (unat burstLen) u" "\<not> rd_fails (bu_reader b)"
    "unread (bu_reader b) = drop (j * unat mx) u" "bu_sent b = of_nat (j * unat mx)" "bu_dataSN b = of_nat j" "bu_calls b = j"
    "length u - j * unat mx < min (unat mx) (unat burstLen - j * unat mx)"
  shows "\<exists>b'. burstRound itt ttt offset burstLen mx es stamp b = Inl (None, b') \<and> Suc j = pieceCount (unat mx) d \<and>
    unread (bu_reader b') = [] \<and> \<not> rd_fails (bu_reader b') \<and> bu_sent b' = of_nat (length u) \<and> length u < unat burstLen \<and>
    bu_out b' = bu_out b @ [stamp (dataOutFrame (burstPDU itt ttt offset es (unat mx) d j))]"
proof -
  let ?m = "unat mx"
  let ?s = "j * ?m"
  let ?c = "min ?m (unat burstLen - ?s)"
  have sl: "?s < unat burstLen" "?s < length u" using assms(3,4) by simp_all
  have bl: "unat burstLen < 2 ^ 32" using unsigned_less [of burstLen] by simp
  have sb: "unat (bu_sent b) = ?s" using sl bl by (simp add: assms(7) unat_of_nat_u32 del: of_nat_mult)
  have "unat (burstLen - bu_sent b) = unat burstLen - ?s"
    using sl sb by (simp add: unat_sub word_le_nat_alt)
  then have c: "unat (min mx (burstLen - bu_sent b)) = ?c" by (simp add: min_def word_le_nat_alt)
  define buf where "buf = drop ?s u"
  have lb: "length buf < ?c" "buf \<noteq> []" using assms(10) sl by (simp_all add: buf_def)
  obtain r where rd: "io_ReadFull ?c (bu_reader b) = ((buf, Some IO_UnexpectedEOF), r)" "unread r = []" "\<not> rd_fails r"
    using io_ReadFull_short [of "bu_reader b" ?c] lb assms(5,6) by (auto simp: buf_def)
  have ul: "length u < unat burstLen" using assms(10) by linarith
  then have du: "d = u" by (simp add: assms(4))
  have fin: "Suc j = pieceCount ?m d" using pieceCount_last [OF assms(1,3)] lb by (simp add: du buf_def)
  have piece: "buf = take ?m (drop ?s d)" using lb by (simp add: buf_def du)
  let ?p = "burstPDU itt ttt offset es ?m d j"
  have pdu: "dataOutPDU itt ttt True (es (bu_calls b)) (bu_dataSN b) (offset + bu_sent b) buf = ?p"
    by (simp add: burstPDU_def fin piece assms(7,8,9))
  have m32: "length buf < 2 ^ 24" using assms(2) lb by linarith
  obtain bhs where bhs: "DataOut_MarshalBHS ?p = Inr bhs" "dataOutFrame ?p = bareRaw bhs buf"
    using dataOut_marshals [of buf itt ttt True "es (bu_calls b)" "bu_dataSN b" "offset + bu_sent b"] m32
    unfolding pdu by auto
  have val: "ValidateOutgoingSegmentLength (of_nat (length buf)) mx = None"
    using lb m32 by (simp add: ValidateOutgoingSegmentLength_def word_less_nat_alt unat_of_nat_u32)
  let ?b = "b\<lparr>bu_reader := r, bu_calls := bu_calls b + 1, bu_out := bu_out b @ [stamp (bareRaw bhs buf)],
    bu_dataSN := bu_dataSN b + 1, bu_sent := bu_sent b + of_nat (length buf)\<rparr>"
  have "burstRound itt ttt offset burstLen mx es stamp b = Inl (None, ?b)"
    using lb by (simp add: burstRound_def Let_def c rd(1) pdu bhs(1) val)
  moreover have "bu_sent b + of_nat (length buf) = of_nat (length u)"
    using sl by (simp add: assms(7) buf_def flip: of_nat_add of_nat_mult)
  ultimately show ?thesis
    using rd(2,3) ul fin bhs(2) by (intro exI [of _ ?b]) simp
qed

lemma burst_pieces:
  assumes "0 < unat mx" "unat mx < 2 ^ 24" "d = take (unat burstLen) u" "length u < unat burstLen \<Longrightarrow> length u mod unat mx \<noteq> 0"
    "j < pieceCount (unat mx) d" "\<not> rd_fails (bu_reader b)"
    "unread (bu_reader b) = drop (j * unat mx) u" "bu_sent b = of_nat (j * unat mx)" "bu_dataSN b = of_nat j" "bu_calls b = j"
  shows "\<exists>b'. burstLoop itt ttt offset burstLen mx es stamp b = Some (None, b') \<and> bu_sent b' = of_nat (length d) \<and>
    unread (bu_reader b') = drop (length d) u \<and> \<not> rd_fails (bu_reader b') \<and>
    bu_out b' = bu_out b @ map (\<lambda>k. stamp (dataOutFrame (burstPDU itt ttt offset es (unat mx) d k))) [j..<pieceCount (unat mx) d]"
  using assms(5-10)
proof (induction "pieceCount (unat mx) d - j" arbitrary: j b rule: less_induct)
  case less
  let ?m = "unat mx"
  let ?n = "pieceCount ?m d"
  let ?f = "\<lambda>k. stamp (dataOutFrame (burstPDU itt ttt offset es ?m d k))"
  have jd: "j * ?m < length d" using less.prems(1) pieceCount_less [OF assms(1)] by simp
  have bl: "unat burstLen < 2 ^ 32" using unsigned_less [of burstLen] by simp
  have sl: "j * ?m < unat burstLen" using jd assms(3) by simp
  have "unat (bu_sent b) = j * ?m" using sl bl by (simp add: less.prems(4) unat_of_nat_u32 del: of_nat_mult)
  then have go: "bu_sent b < burstLen" using sl by (simp add: word_less_nat_alt)
  have u: "[j..<?n] = j # [Suc j..<?n]" using less.prems(1) by (rule upt_conv_Cons)
  show ?case
  proof (cases "min ?m (unat burstLen - j * ?m) \<le> length u - j * ?m")
    case True
    obtain b' where b': "burstRound itt ttt offset burstLen mx es stamp b = Inr b'" "\<not> rd_fails (bu_reader b')"
      "unread (bu_reader b') = drop (min (Suc j * ?m) (unat burstLen)) u" "bu_sent b' = of_nat (min (Suc j * ?m) (unat burstLen))"
      "bu_dataSN b' = of_nat (Suc j)" "bu_calls b' = Suc j" "bu_out b' = bu_out b @ [?f j]"
      using round_full [OF assms(1,2) jd assms(3) less.prems(2-6) True assms(4), of itt ttt offset es stamp] by blast
    have step: "burstLoop itt ttt offset burstLen mx es stamp b = burstLoop itt ttt offset burstLen mx es stamp b'"
      using go b'(1) by (subst burstLoop.simps) simp
    show ?thesis
    proof (cases "Suc j < ?n")
      case True
      then have "Suc j * ?m < length d" using pieceCount_less [OF assms(1)] by simp
      then have "min (Suc j * ?m) (unat burstLen) = Suc j * ?m" using assms(3) by simp
      then have "\<exists>b''. burstLoop itt ttt offset burstLen mx es stamp b' = Some (None, b'') \<and> bu_sent b'' = of_nat (length d) \<and>
        unread (bu_reader b'') = drop (length d) u \<and> \<not> rd_fails (bu_reader b'') \<and> bu_out b'' = bu_out b' @ map ?f [Suc j..<?n]"
        using b' True less.prems(1) by (intro less.hyps) simp_all
      then show ?thesis using b'(7) u step by auto
    next
      case False
      then have last: "Suc j = ?n" using less.prems(1) by simp
      then have "length d - j * ?m \<le> ?m" using pieceCount_last [OF assms(1) jd] by simp
      moreover have "unat burstLen \<le> length u"
      proof (rule ccontr)
        assume s: "\<not> unat burstLen \<le> length u"
        then have "length u = Suc j * ?m"
          using True calculation jd assms(3) unfolding mult_Suc by (auto simp: min_def split: if_splits)
        then show False using assms(4) s by simp
      qed
      ultimately have e: "min (Suc j * ?m) (unat burstLen) = unat burstLen" "length d = unat burstLen"
        using assms(3) by auto
      have "bu_sent b' = burstLen" using b'(4) unfolding e by simp
      then have "burstLoop itt ttt offset burstLen mx es stamp b' = Some (None, b')" by (subst burstLoop.simps) simp
      then show ?thesis using b' u step e last by simp
    qed
  next
    case False
    then have "length u - j * ?m < min ?m (unat burstLen - j * ?m)" unfolding not_le .
    from round_short [OF assms(1,2) jd assms(3) less.prems(2-6) this, of itt ttt offset es stamp]
    obtain b' where b': "burstRound itt ttt offset burstLen mx es stamp b = Inl (None, b')" "Suc j = ?n"
      "unread (bu_reader b') = []" "\<not> rd_fails (bu_reader b')" "bu_sent b' = of_nat (length u)" "length u < unat burstLen"
      "bu_out b' = bu_out b @ [?f j]"
      by blast
    have "burstLoop itt ttt offset burstLen mx es stamp b = Some (None, b')"
      using go b'(1) by (subst burstLoop.simps) simp
    then show ?thesis using b' u assms(3) by simp
  qed
qed

lemma stampDigests_keeps:
  "raw_BHS (stampDigests dh dd p) = raw_BHS p" "raw_DataSegment (stampDigests dh dd p) = raw_DataSegment p"
  by (simp_all add: stampDigests_def Let_def)

lemma pieces_prefix: "concat (map (\<lambda>k. take m (drop (k * m) d)) [0..<n]) = take (n * m) d"
proof (induction n)
  case (Suc n)
  then show ?case by (simp add: take_add [symmetric] add.commute)
qed simp

lemma pieces_concat:
  assumes "0 < m"
  shows "concat (map (\<lambda>k. take m (drop (k * m) d)) [0..<pieceCount m d]) = d"
proof -
  have "length d \<le> pieceCount m d * m"
    using pieceCount_less [OF assms, of "pieceCount m d" d] by simp
  then show ?thesis by (simp add: pieces_prefix)
qed

text \<open>
  A reader that ends exactly at a boundary of pieces before the burst is complete is an error, after
  all its data was sent without a final PDU; one byte more or less is not.
\<close>

lemma short_reader_at_boundary:
  "\<exists>b. sendDataOutBurst itt ttt 0 10 es id (bytes_NewReader [1, 2, 3, 4]) 4 = Some (Some (ErrReadData IO_EOF), b) \<and> bu_sent b = 4"
  "\<exists>b. sendDataOutBurst itt ttt 0 10 es id (bytes_NewReader [1, 2, 3, 4, 5]) 4 = Some (None, b) \<and> bu_sent b = 5"
proof -
  obtain bhs where m: "DataOut_MarshalBHS (dataOutPDU itt ttt False (es 0) 0 0 [1, 2, 3, 4]) = Inr bhs"
    using dataOut_marshals [of "[1, 2, 3, 4]" itt ttt False "es 0" 0 0] by auto
  show "\<exists>b. sendDataOutBurst itt ttt 0 10 es id (bytes_NewReader [1, 2, 3, 4]) 4 = Some (Some (ErrReadData IO_EOF), b) \<and> bu_sent b = 4"
    unfolding sendDataOutBurst_def
    by (subst burstLoop.simps, simp add: burstRound_def io_ReadFull_def unread_def bytes_NewReader_def Let_def m
        ValidateOutgoingSegmentLength_def, subst burstLoop.simps,
        simp add: burstRound_def io_ReadFull_def unread_def Let_def)
  show "\<exists>b. sendDataOutBurst itt ttt 0 10 es id (bytes_NewReader [1, 2, 3, 4, 5]) 4 = Some (None, b) \<and> bu_sent b = 5"
    using burst_pieces [of 4 "[1, 2, 3, 4, 5]" 10 "[1, 2, 3, 4, 5]" 0
        "\<lparr>bu_dataSN = 0, bu_sent = 0, bu_reader = bytes_NewReader [1, 2, 3, 4, 5], bu_calls = 0, bu_out = []\<rparr>" itt ttt 0 es id]
    by (auto simp: sendDataOutBurst_def pieceCount_def)
qed

text \<open>A target that declares a maximal segment length of 0 makes every burst empty.\<close>

lemma zero_mrdsl_sends_nothing:
  "sendDataOutBurst itt ttt off n es stamp r 0 = Some (None, b) \<Longrightarrow> bu_out b = []"
  by (auto simp: sendDataOutBurst_def burstLoop.simps [of _ _ _ _ 0] burstRound_def io_ReadFull_def Let_def split: if_splits)

section \<open>A whole burst\<close>

lemma burst_run:
  assumes "0 < unat mx" "unat mx < 2 ^ 24" "d = take (unat burstLen) (unread r)" "\<not> rd_fails r" "d \<noteq> []"
    "length (unread r) < unat burstLen \<Longrightarrow> length (unread r) mod unat mx \<noteq> 0"
  shows "\<exists>b. sendDataOutBurst itt ttt offset burstLen es (stampDigests dh dd) r mx = Some (None, b) \<and>
    unread (bu_reader b) = drop (length d) (unread r) \<and> \<not> rd_fails (bu_reader b) \<and>
    map raw_DataSegment (bu_out b) = map (\<lambda>k. take (unat mx) (drop (k * unat mx) d)) [0..<pieceCount (unat mx) d] \<and>
    bu_sent b = of_nat (length d) \<and> concat (map raw_DataSegment (bu_out b)) = d \<and>
    (\<forall>k<length (bu_out b). length (raw_DataSegment (bu_out b ! k)) \<le> unat mx \<and>
      DecodeBHS (raw_BHS (bu_out b ! k)) = Inr (norm_PDU (PDataOut (dataOutPDU itt ttt (Suc k = length (bu_out b)) (es k) (of_nat k)
          (offset + of_nat (k * unat mx)) (raw_DataSegment (bu_out b ! k))))))"
proof -
  let ?b = "\<lparr>bu_dataSN = 0, bu_sent = 0, bu_reader = r, bu_calls = 0, bu_out = []\<rparr>"
  let ?n = "pieceCount (unat mx) d"
  let ?p = "\<lambda>k. take (unat mx) (drop (k * unat mx) d)"
  have n: "0 < ?n" using pieceCount_less [OF assms(1), of 0 d] assms(5) by simp
  have "\<exists>b. burstLoop itt ttt offset burstLen mx es (stampDigests dh dd) ?b = Some (None, b) \<and> bu_sent b = of_nat (length d) \<and>
    unread (bu_reader b) = drop (length d) (unread r) \<and> \<not> rd_fails (bu_reader b) \<and>
    bu_out b = bu_out ?b @ map (\<lambda>k. stampDigests dh dd (dataOutFrame (burstPDU itt ttt offset es (unat mx) d k))) [0..<?n]"
    by (rule burst_pieces [OF assms(1,2,3,6) n]) (simp_all add: assms(4))
  then obtain b where b: "sendDataOutBurst itt ttt offset burstLen es (stampDigests dh dd) r mx = Some (None, b)"
    "bu_sent b = of_nat (length d)" "unread (bu_reader b) = drop (length d) (unread r)" "\<not> rd_fails (bu_reader b)"
    "bu_out b = map (\<lambda>k. stampDigests dh dd (dataOutFrame (burstPDU itt ttt offset es (unat mx) d k))) [0..<?n]"
    by (auto simp: sendDataOutBurst_def)
  have f: "raw_DataSegment (dataOutFrame (burstPDU itt ttt offset es (unat mx) d k)) = ?p k \<and>
      DecodeBHS (raw_BHS (dataOutFrame (burstPDU itt ttt offset es (unat mx) d k))) = Inr (norm_PDU (PDataOut (burstPDU itt ttt offset es (unat mx) d k)))" for k
  proof -
    have "length (?p k) < 2 ^ 24" using assms(2) by (simp add: min_less_iff_disj)
    from dataOut_marshals [OF this, of itt ttt "Suc k = ?n" "es k" "of_nat k" "offset + of_nat (k * unat mx)"]
    show ?thesis unfolding burstPDU_def [symmetric] by (auto simp: bareRaw_def)
  qed
  have "concat (map raw_DataSegment (bu_out b)) = d"
    using pieces_concat [OF assms(1), of d] by (simp add: b(5) comp_def stampDigests_keeps f)
  then show ?thesis
    using b(1-4) f by (intro exI [of _ b]) (simp add: b(5) stampDigests_keeps burstPDU_def)
qed

section \<open>Properties\<close>


text \<open>C14. A burst sends exactly the next \<open>burstLen\<close> bytes of the reader (or all of them, when it ends inside a
  piece): the data segments concatenate to them; the k-th PDU decodes to a Data-Out with DataSN \<open>k\<close>, the
  offset of its piece, the tags of the task, at most \<open>mx\<close> bytes, and the final bit only on the last one.\<close>

theorem burst_covers_data:
  assumes "0 < unat mx" "unat mx < 2 ^ 24" "d = take (unat burstLen) (unread r)" "\<not> rd_fails r" "d \<noteq> []"
    "length (unread r) < unat burstLen \<Longrightarrow> length (unread r) mod unat mx \<noteq> 0"
  shows "\<exists>b. sendDataOutBurst itt ttt offset burstLen es (stampDigests dh dd) r mx = Some (None, b) \<and>
    bu_sent b = of_nat (length d) \<and> concat (map raw_DataSegment (bu_out b)) = d \<and>
    (\<forall>k<length (bu_out b). length (raw_DataSegment (bu_out b ! k)) \<le> unat mx \<and>
      DecodeBHS (raw_BHS (bu_out b ! k)) = Inr (norm_PDU (PDataOut (dataOutPDU itt ttt (Suc k = length (bu_out b)) (es k) (of_nat k)
          (offset + of_nat (k * unat mx)) (raw_DataSegment (bu_out b ! k))))))"
  using burst_run [OF assms, of itt ttt offset es dh dd] by blast

theorem burst_covers_data_witness:
  "\<exists>b. sendDataOutBurst 3 7 100 5 (\<lambda>_. 9) (stampDigests True True) (bytes_NewReader [1, 2, 3, 4, 5, 6, 7, 8]) 2 = Some (None, b) \<and>
    concat (map raw_DataSegment (bu_out b)) = [1, 2, 3, 4, 5]"
  using burst_covers_data [of 2 "[1, 2, 3, 4, 5]" 5 "bytes_NewReader [1, 2, 3, 4, 5, 6, 7, 8]" 3 7 100 "\<lambda>_. 9" True True] by auto

end
