(* ===== verification/Session.thy ===== *)
theory Session
  imports Cmd_Window Data_Out Router Login
begin

text \<open>
  \<open>internal/session/session.go\<close>: the session, the submission of commands and the task loops.

  A \<open>*task\<close> is an address: an index into \<open>ss_objs\<close>, the list of all tasks ever made. The map
  \<open>s.tasks\<close> is \<open>ss_tasks\<close>, from tags to addresses; the order of the list is the order in which a
  \<open>range\<close> over the map visits it, which may be any. \<open>ss_loops\<close> are the running \<open>taskLoop\<close>
  goroutines, each a task and the channel it receives from. The write channel is the \<open>WriteSide\<close> of
  theory Task: what was sent, and which attempts succeed before their context ends or without
  waiting. \<open>ss_events\<close> and \<open>ss_states\<close> are what the asynchronous handler and the state hook were told.

  A function is one goroutine's work between two waits; its result may be \<open>Stuck\<close> (it waits) or
  \<open>Crash\<close> (a run-time panic). How these pieces interleave is the step relation of theory Session_Steps.
\<close>

section \<open>The state\<close>

record Session =
  ss_params :: NegotiatedParams
  ss_conn :: Conn
  ss_router :: Router
  ss_window :: cmdWindow
  ss_write :: WriteSide
  ss_expStatSN :: u32
  ss_objs :: "task list"
  ss_tasks :: "(u32 \<times> nat) list"
  ss_loops :: "(nat \<times> nat) list"
  ss_loggedIn :: bool
  ss_recovering :: bool
  ss_draining :: bool
  ss_drainDone :: bool
  ss_drainsEnded :: nat
  ss_closed :: bool
  ss_cancelled :: bool
  ss_err :: "SessionError option"
  ss_cfg :: sessionConfig
  ss_isid :: bytes
  ss_tsih :: u16
  ss_events :: "AsyncEvent list"
  ss_states :: "SessionState list"

definition fireStateChange :: "SessionState \<Rightarrow> Session \<Rightarrow> Session" where
  "fireStateChange st s = s\<lparr>ss_states := ss_states s @ [st]\<rparr>"

definition NewSession :: "Conn \<Rightarrow> NegotiatedParams \<Rightarrow> SessionOption list \<Rightarrow> (nat \<Rightarrow> bool) \<Rightarrow> Session" where
  "NewSession conn params opts accepts =
     (let cfg = foldl (\<lambda>c o'. o' c) defaultConfig opts;
          s = \<lparr>ss_params = params, ss_conn = conn, ss_router = NewRouter (sg_routerBufDepth cfg),
               ss_window = newCmdWindow (np_CmdSN params) (np_CmdSN params) (np_CmdSN params),
               ss_write = \<lparr>wr_sent = [], wr_tries = 0, wr_accepts = accepts\<rparr>,
               ss_expStatSN = np_ExpStatSN params, ss_objs = [], ss_tasks = [], ss_loops = [],
               ss_loggedIn = True, ss_recovering = False, ss_draining = False, ss_drainDone = False,
               ss_drainsEnded = 0, ss_closed = False, ss_cancelled = False, ss_err = None, ss_cfg = cfg,
               ss_isid = np_ISID params, ss_tsih = np_TSIH params, ss_events = [], ss_states = []\<rparr>
      in fireStateChange SessionFullFeature s)"

definition setTask :: "nat \<Rightarrow> task \<Rightarrow> Session \<Rightarrow> Session" where
  "setTask a t s = s\<lparr>ss_objs := (ss_objs s)[a := t]\<rparr>"

definition updateStatSN :: "u32 \<Rightarrow> Session \<Rightarrow> Session" where
  "updateStatSN statSN s =
     (let next = Incr statSN
      in if GreaterThan next (ss_expStatSN s) \<or> next = ss_expStatSN s then s\<lparr>ss_expStatSN := next\<rparr> else s)"

definition noteWindow :: "u32 \<Rightarrow> u32 \<Rightarrow> Session \<Rightarrow> Session" where
  "noteWindow expCmdSN maxCmdSN s = s\<lparr>ss_window := fst (updateWindow expCmdSN maxCmdSN (ss_window s))\<rparr>"

definition sessionStamp :: "Session \<Rightarrow> RawPDU \<Rightarrow> RawPDU" where
  "sessionStamp s = stampDigests (cn_digestHeader (ss_conn s)) (cn_digestData (ss_conn s))"

text \<open>Stamping and sending, when the send may fail (its context ends, or the channel is full).\<close>

definition sendPDU :: "RawPDU \<Rightarrow> Session \<Rightarrow> bool \<times> Session" where
  "sendPDU raw s = (case trySend (sessionStamp s raw) (ss_write s) of (ok, w) \<Rightarrow> (ok, s\<lparr>ss_write := w\<rparr>))"

definition sentPDUs :: "RawPDU list \<Rightarrow> Session \<Rightarrow> Session" where
  "sentPDUs ps s = s\<lparr>ss_write := (ss_write s)\<lparr>wr_sent := wr_sent (ss_write s) @ ps\<rparr>\<rparr>"

section \<open>The command PDU\<close>

definition scsiCommand :: "Command \<Rightarrow> bytes \<Rightarrow> u32 \<Rightarrow> u32 \<Rightarrow> u32 \<Rightarrow> bytes \<Rightarrow> SCSICommand" where
  "scsiCommand cmd lun itt cmdSN expStatSN immediateData =
     \<lparr>sc_Header = zeroHeader\<lparr>Final := True, InitiatorTaskTag := itt, DataSegmentLen := of_nat (length immediateData), LUN := lun\<rparr>,
      sc_Read = cm_Read cmd, sc_Write = cm_Write cmd, sc_Attr = cm_TaskAttributes cmd,
      sc_ExpectedDataTransferLength = cm_ExpectedDataTransferLen cmd, sc_CmdSN = cmdSN, sc_ExpStatSN = expStatSN,
      sc_CDB = cm_CDB cmd, sc_ImmediateData = immediateData\<rparr>"

definition buildSCSICommandPDU :: "Command \<Rightarrow> u32 \<Rightarrow> u32 \<Rightarrow> u32 \<Rightarrow> bytes \<Rightarrow> (ProtocolError + RawPDU) Step" where
  "buildSCSICommandPDU cmd itt cmdSN expStatSN immediateData =
     (case EncodeSAMLUN (cm_LUN cmd) of
        None \<Rightarrow> Crash
      | Some lun \<Rightarrow>
          Done (case SCSICommand_MarshalBHS (scsiCommand cmd lun itt cmdSN expStatSN immediateData) of
                  Inl e \<Rightarrow> Inl e
                | Inr bhs \<Rightarrow> Inr (bareRaw bhs immediateData)))"

section \<open>Ending a task\<close>

definition cleanupTask :: "u32 \<Rightarrow> Session \<Rightarrow> Session" where
  "cleanupTask itt s =
     (let s = s\<lparr>ss_router := Unregister itt (ss_router s)\<rparr>;
          s = s\<lparr>ss_tasks := AList.delete itt (ss_tasks s)\<rparr>
      in if ss_draining s \<and> ss_tasks s = [] \<and> ss_drainDone s
         then s\<lparr>ss_drainDone := False, ss_drainsEnded := ss_drainsEnded s + 1\<rparr>
         else s)"

text \<open>The clean-up of the error paths of a submission, which does not look at a drain.\<close>

definition forgetTask :: "u32 \<Rightarrow> Session \<Rightarrow> Session" where
  "forgetTask itt s =
     s\<lparr>ss_router := Unregister itt (ss_router s), ss_tasks := AList.delete itt (ss_tasks s)\<rparr>"

definition endTask :: "SessionError \<Rightarrow> nat \<Rightarrow> Session \<Rightarrow> Session" where
  "endTask e a s =
     (let t = cancel e (ss_objs s ! a)
      in cleanupTask (tk_itt t) (setTask a t s))"

section \<open>Submission\<close>

text \<open>The immediate data of a write, from the task's reader.\<close>

definition readImmediate :: "NegotiatedParams \<Rightarrow> Reader \<Rightarrow> task \<Rightarrow> (SessionError + bytes) \<times> task" where
  "readImmediate params r t =
     (let immLen = min (np_FirstBurstLength params) (np_MaxRecvDataSegmentLength params);
          ((buf, err), r) = io_ReadFull (unat immLen) r;
          t = t\<lparr>tk_reader := Some r\<rparr>
      in if err \<noteq> None \<and> err \<noteq> Some IO_UnexpectedEOF then (Inl (ErrReadData (the err)), t)
         else (Inr buf, t\<lparr>tk_bytesSent := of_nat (length buf)\<rparr>))"

definition makeTask :: "int \<Rightarrow> Command \<Rightarrow> u32 \<Rightarrow> u32 \<Rightarrow> Session \<Rightarrow> task" where
  "makeTask depth cmd itt cmdSN s =
     (let isWrite = (cm_Data cmd \<noteq> None);
          cmd = (if isWrite then cmd\<lparr>cm_Write := True\<rparr> else cmd)
      in (newTask itt (cm_Read cmd) isWrite depth)
           \<lparr>tk_lun := cm_LUN cmd, tk_cmd := cmd, tk_cmdSN := cmdSN, tk_reader := cm_Data cmd,
            tk_erl := np_ErrorRecoveryLevel (ss_params s), tk_snackTimeout := sg_snackTimeout (ss_cfg s)\<rparr>)"

text \<open>The end of a submission, once the command is on the write channel.\<close>

definition submitUnsolicited :: "nat \<Rightarrow> nat \<Rightarrow> Session \<Rightarrow> ((SessionError + nat) \<times> Session) Step" where
  "submitUnsolicited a ch s =
     (let t = ss_objs s ! a
      in if tk_isWrite t \<and> \<not> np_InitialR2T (ss_params s)
         then bindStep (sendUnsolicitedDataOut (\<lambda>_. ss_expStatSN s) (ss_params s) (sessionStamp s) t) (\<lambda>burst.
                case burst of
                  None \<Rightarrow> Stuck
                | Some (err, t, ps) \<Rightarrow>
                    let s = sentPDUs ps (setTask a t s)
                    in (case err of
                          Some e \<Rightarrow> Done (Inl e, forgetTask (tk_itt t) s)
                        | None \<Rightarrow> Done (Inr a, s\<lparr>ss_loops := (a, ch) # ss_loops s\<rparr>)))
         else Done (Inr a, s\<lparr>ss_loops := (a, ch) # ss_loops s\<rparr>))"

text \<open>The middle: immediate data, the PDU and its send.\<close>

definition submitCommand :: "nat \<Rightarrow> nat \<Rightarrow> Session \<Rightarrow> ((SessionError + nat) \<times> Session) Step" where
  "submitCommand a ch s =
     (let t = ss_objs s ! a;
          (imm, t) = (case tk_reader t of
                        Some r \<Rightarrow> if tk_isWrite t \<and> np_ImmediateData (ss_params s) then readImmediate (ss_params s) r t
                                  else (Inr [], t)
                      | None \<Rightarrow> (Inr [], t));
          s = setTask a t s
      in case imm of
           Inl e \<Rightarrow> Done (Inl e, forgetTask (tk_itt t) s)
         | Inr immediateData \<Rightarrow>
             bindStep (buildSCSICommandPDU (tk_cmd t) (tk_itt t) (tk_cmdSN t) (ss_expStatSN s) immediateData) (\<lambda>built.
               case built of
                 Inl e \<Rightarrow> Done (Inl (ErrEncode e), forgetTask (tk_itt t) s)
               | Inr raw \<Rightarrow>
                   (case sendPDU raw s of
                      (False, s) \<Rightarrow> Done (Inl ErrContext, forgetTask (tk_itt t) s)
                    | (True, s) \<Rightarrow> submitUnsolicited a ch s)))"

text \<open>The whole, from the acquired CmdSN on. A depth of 0 is \<open>Submit\<close>.\<close>

definition submitGranted :: "int \<Rightarrow> Command \<Rightarrow> u32 \<Rightarrow> Session \<Rightarrow> ((SessionError + nat) \<times> Session) Step" where
  "submitGranted depth cmd cmdSN s =
     (let (itt, r) = AllocateITT (ss_router s);
          (ch, r) = RegisterPersistent itt r;
          s = s\<lparr>ss_router := r\<rparr>;
          a = length (ss_objs s);
          s = s\<lparr>ss_objs := ss_objs s @ [makeTask depth cmd itt cmdSN s], ss_tasks := AList.update itt a (ss_tasks s)\<rparr>
      in submitCommand a ch s)"

definition submitCheck :: "Session \<Rightarrow> SessionError option" where
  "submitCheck s =
     (if ss_recovering s then Some ErrSessionRecovering
      else if ss_draining s then Some ErrSessionDraining
      else None)"

definition streamDepth :: "Session \<Rightarrow> int" where
  "streamDepth s =
     (let depth = sg_streamBufDepth (ss_cfg s)
      in if depth \<le> 0 then defaultChanBufSize else depth)"

text \<open>\<open>acquire\<close> of the command window as one caller sees it: \<open>ctxEnds\<close> says that the context ends while it waits.\<close>

definition acquire :: "bool \<Rightarrow> cmdWindow \<Rightarrow> AcquireStep" where
  "acquire ctxEnds w =
     (case acquireFast w of MustWait \<Rightarrow> if ctxEnds then Canceled else MustWait | x \<Rightarrow> x)"

definition submitWith :: "int \<Rightarrow> bool \<Rightarrow> Command \<Rightarrow> Session \<Rightarrow> ((SessionError + nat) \<times> Session) Step" where
  "submitWith depth ctxEnds cmd s =
     (case submitCheck s of
        Some e \<Rightarrow> Done (Inl e, s)
      | None \<Rightarrow>
          (case acquire ctxEnds (ss_window s) of
             WindowClosed \<Rightarrow> Done (Inl ErrAcquire, s)
           | Canceled \<Rightarrow> Done (Inl ErrAcquire, s)
           | MustWait \<Rightarrow> Stuck
           | Granted cmdSN w \<Rightarrow> submitGranted depth cmd cmdSN (s\<lparr>ss_window := w\<rparr>)))"

text \<open>The task whose result channel is returned, and for the streaming variant its reader.\<close>

definition Submit :: "bool \<Rightarrow> Command \<Rightarrow> Session \<Rightarrow> ((SessionError + nat) \<times> Session) Step" where
  "Submit ctxEnds cmd s = submitWith 0 ctxEnds cmd s"

definition SubmitStreaming :: "bool \<Rightarrow> Command \<Rightarrow> Session
    \<Rightarrow> ((SessionError + nat \<times> chanReader option) \<times> Session) Step" where
  "SubmitStreaming ctxEnds cmd s =
     bindStep (submitWith (streamDepth s) ctxEnds cmd s) (\<lambda>(res, s).
       Done (case res of
               Inl e \<Rightarrow> Inl e
             | Inr a \<Rightarrow> Inr (a, tk_dataReader (ss_objs s ! a)), s))"

section \<open>Retrying on the same connection\<close>

definition seekStart :: "Reader \<Rightarrow> SessionError option \<times> Reader" where
  "seekStart r =
     (case rd_seek r of
        NotSeeker \<Rightarrow> (Some ErrRetryNotPossible, r)
      | SeekFails \<Rightarrow> (Some ErrSeek, r)
      | Seeks \<Rightarrow> (None, r\<lparr>rd_pos := 0\<rparr>))"

definition restartRead :: "task \<Rightarrow> task" where
  "restartRead t =
     (let t = t\<lparr>tk_nextDataSN := 0, tk_nextOffset := 0\<rparr>
      in if tk_isRead t \<and> tk_buf t \<noteq> None then t\<lparr>tk_buf := Some []\<rparr> else t)"

text \<open>The immediate data of a retry: the reader is rewound first.\<close>

definition rereadImmediate :: "NegotiatedParams \<Rightarrow> task \<Rightarrow> (SessionError + bytes) \<times> task" where
  "rereadImmediate params t =
     (case tk_reader t of
        Some r \<Rightarrow>
          if tk_isWrite t \<and> np_ImmediateData params
          then (case seekStart r of
                  (Some e, r) \<Rightarrow> (Inl e, t)
                | (None, r) \<Rightarrow> readImmediate params r (t\<lparr>tk_bytesSent := 0\<rparr>))
          else (Inr [], t)
      | None \<Rightarrow> (Inr [], t))"

definition retrySameConnection :: "nat \<Rightarrow> Session \<Rightarrow> Session Step" where
  "retrySameConnection a s =
     (let t = ss_objs s ! a
      in if tk_streaming t then Done (endTask ErrStreamingNotRetriable a s)
         else
           let (imm, t) = rereadImmediate (ss_params s) (restartRead t);
               s = setTask a t s
           in case imm of
                Inl e \<Rightarrow> Done (endTask e a s)
              | Inr immediateData \<Rightarrow>
                  bindStep (buildSCSICommandPDU (tk_cmd t) (tk_itt t) (tk_cmdSN t) (ss_expStatSN s) immediateData) (\<lambda>built.
                    case built of
                      Inl e \<Rightarrow> Done (endTask (ErrEncode e) a s)
                    | Inr raw \<Rightarrow>
                        (case sendPDU raw s of
                           (True, s) \<Rightarrow> Done s
                         | (False, s) \<Rightarrow> Done (endTask ErrWriteChannelFull a s))))"

section \<open>The task loop\<close>

text \<open>
  One PDU in the loop of the task at address \<open>a\<close>; \<open>True\<close> when the loop goes on. Each case of the
  type switch is a definition.
\<close>

definition receiveDataIn :: "DataIn \<Rightarrow> nat \<Rightarrow> Session \<Rightarrow> (bool \<times> Session) Step" where
  "receiveDataIn p a s =
     (let s = noteWindow (di_ExpCmdSN p) (di_MaxCmdSN p) s;
          s = (if di_HasStatus p then updateStatSN (di_StatSN p) s else s)
      in bindStep (handleDataIn (ss_expStatSN s) p (ss_objs s ! a) (ss_write s)) (\<lambda>(t, w).
           let s = setTask a t (s\<lparr>ss_write := w\<rparr>)
           in if di_HasStatus p then Done (False, cleanupTask (tk_itt t) s) else Done (True, s)))"

definition receiveR2T :: "R2T \<Rightarrow> nat \<Rightarrow> Session \<Rightarrow> (bool \<times> Session) Step" where
  "receiveR2T p a s =
     (let s = noteWindow (rt_ExpCmdSN p) (rt_MaxCmdSN p) s;
          s = updateStatSN (rt_StatSN p) s
      in bindStep (handleR2T p (\<lambda>_. ss_expStatSN s) (ss_params s) (sessionStamp s) (ss_objs s ! a)) (\<lambda>burst.
           case burst of
             None \<Rightarrow> Stuck
           | Some (err, t, ps) \<Rightarrow>
               let s = sentPDUs ps (setTask a t s)
               in (case err of
                     Some e \<Rightarrow> Done (False, endTask e a s)
                   | None \<Rightarrow> Done (True, s))))"

definition receiveSCSIResponse :: "SCSIResponse \<Rightarrow> nat \<Rightarrow> Session \<Rightarrow> (bool \<times> Session) Step" where
  "receiveSCSIResponse p a s =
     (let s = noteWindow (sr_ExpCmdSN p) (sr_MaxCmdSN p) s;
          s = updateStatSN (sr_StatSN p) s
      in bindStep (handleSCSIResponse p (ss_objs s ! a)) (\<lambda>t.
           Done (False, cleanupTask (tk_itt t) (setTask a t s))))"

definition receiveReject :: "Reject \<Rightarrow> nat \<Rightarrow> Session \<Rightarrow> (bool \<times> Session) Step" where
  "receiveReject p a s =
     (let s = noteWindow (rj_ExpCmdSN p) (rj_MaxCmdSN p) s;
          s = updateStatSN (rj_StatSN p) s;
          t = ss_objs s ! a
      in if tk_erl t \<ge> 1 then bindStep (retrySameConnection a s) (\<lambda>s. Done (True, s))
         else Done (False, endTask (ErrRejected (rj_Reason p) (tk_itt t)) a s))"

definition taskReceive :: "RawPDU \<Rightarrow> nat \<Rightarrow> Session \<Rightarrow> (bool \<times> Session) Step" where
  "taskReceive raw a s =
     (case DecodeBHS (raw_BHS raw) of
        Inl e \<Rightarrow> Done (False, endTask (ErrDecode e) a s)
      | Inr (PDataIn p) \<Rightarrow> receiveDataIn (p\<lparr>di_Data := raw_DataSegment raw\<rparr>) a s
      | Inr (PR2T p) \<Rightarrow> receiveR2T p a s
      | Inr (PSCSIResponse p) \<Rightarrow> receiveSCSIResponse (p\<lparr>sr_Data := raw_DataSegment raw\<rparr>) a s
      | Inr (PReject p) \<Rightarrow> receiveReject (p\<lparr>rj_Data := raw_DataSegment raw\<rparr>) a s
      | Inr _ \<Rightarrow> Done (True, s))"

text \<open>One round of \<open>taskLoop\<close>: the case its \<open>select\<close> takes, and what the loop does there.\<close>

datatype LoopEvent = TaskDone | CtxExpired | ChannelClosed | Receives RawPDU

definition taskLoop :: "LoopEvent \<Rightarrow> nat \<Rightarrow> Session \<Rightarrow> (bool \<times> Session) Step" where
  "taskLoop ev a s =
     (case ev of
        TaskDone \<Rightarrow> Done (False, s)
      | CtxExpired \<Rightarrow> Done (False, endTask ErrContext a s)
      | ChannelClosed \<Rightarrow> Done (False, s)
      | Receives raw \<Rightarrow> taskReceive raw a s)"

end
