(* ===== verification/Session_Control.thy ===== *)
theory Session_Control
  imports Session Pump
begin

text \<open>
  \<open>internal/session/keepalive.go\<close>, \<open>tmf.go\<close>, \<open>logout.go\<close>, \<open>async.go\<close> and the rest of
  \<open>session.go\<close>: the requests a session makes on its own, what it does on unsolicited PDUs, and its
  drain and end.

  A request sends a PDU and waits. What the other goroutines do to the session in the meantime is
  the argument \<open>env\<close>, and \<open>Reply\<close> is the case that the waiting \<open>select\<close> takes in the end.
\<close>

datatype Reply = Response RawPDU | TimedOut | CtxEnds

section \<open>One request\<close>

text \<open>Registering a tag for one response.\<close>

definition registerOne :: "Session \<Rightarrow> u32 \<times> Session" where
  "registerOne s = (let ((itt, ch), r) = Register (ss_router s) in (itt, s\<lparr>ss_router := r\<rparr>))"

definition unregisterTag :: "u32 \<Rightarrow> Session \<Rightarrow> Session" where
  "unregisterTag itt s = s\<lparr>ss_router := Unregister itt (ss_router s)\<rparr>"

text \<open>Encoding, stamping and sending; on failure the tag is given back.\<close>

definition sendRequest :: "ProtocolError + bytes \<Rightarrow> bytes \<Rightarrow> u32 \<Rightarrow> Session \<Rightarrow> SessionError option \<times> Session" where
  "sendRequest encoded data itt s =
     (case encoded of
        Inl e \<Rightarrow> (Some (ErrEncode e), unregisterTag itt s)
      | Inr bhs \<Rightarrow>
          (case sendPDU (bareRaw bhs data) s of
             (True, s) \<Rightarrow> (None, s)
           | (False, s) \<Rightarrow> (Some ErrContext, unregisterTag itt s)))"

text \<open>The waiting \<open>select\<close>.\<close>

definition awaitReply :: "(Session \<Rightarrow> Session) \<Rightarrow> Reply \<Rightarrow> u32 \<Rightarrow> Session \<Rightarrow> (SessionError + RawPDU) \<times> Session" where
  "awaitReply env reply itt s =
     (let s = env s
      in case reply of
           Response raw \<Rightarrow> (Inr raw, s)
         | TimedOut \<Rightarrow> (Inl (ErrOther ''response timeout''), unregisterTag itt s)
         | CtxEnds \<Rightarrow> (Inl ErrContext, unregisterTag itt s))"

section \<open>Keepalive\<close>

definition immediateHeader :: "u32 \<Rightarrow> Header" where
  "immediateHeader itt = zeroHeader\<lparr>Immediate := True, Final := True, InitiatorTaskTag := itt\<rparr>"

definition pingPDU :: "u32 \<Rightarrow> Session \<Rightarrow> NOPOut" where
  "pingPDU itt s =
     \<lparr>no_Header = immediateHeader itt, no_TargetTransferTag = 0xFFFFFFFF, no_CmdSN = currentCmdSN (ss_window s),
      no_ExpStatSN = ss_expStatSN s, no_Data = []\<rparr>"

definition sendKeepalivePing :: "(Session \<Rightarrow> Session) \<Rightarrow> Reply \<Rightarrow> Session \<Rightarrow> SessionError option \<times> Session" where
  "sendKeepalivePing env reply s =
     (let (itt, s) = registerOne s
      in case sendRequest (NOPOut_MarshalBHS (pingPDU itt s)) [] itt s of
           (Some e, s) \<Rightarrow> (Some e, s)
         | (None, s) \<Rightarrow>
             (case awaitReply env reply itt s of
                (Inl e, s) \<Rightarrow> (Some e, s)
              | (Inr raw, s) \<Rightarrow>
                  let nopin = NOPIn_UnmarshalBHS (raw_BHS raw);
                      s = noteWindow (ni_ExpCmdSN nopin) (ni_MaxCmdSN nopin) s
                  in (None, updateStatSN (ni_StatSN nopin) s)))"

text \<open>One tick of \<open>keepaliveLoop\<close>; \<open>True\<close> when the loop goes on.\<close>

definition setErr :: "SessionError \<Rightarrow> Session \<Rightarrow> Session" where
  "setErr e s = (if ss_err s = None then s\<lparr>ss_err := Some e\<rparr> else s)"

definition keepaliveTick :: "(Session \<Rightarrow> Session) \<Rightarrow> Reply \<Rightarrow> Session \<Rightarrow> bool \<times> Session" where
  "keepaliveTick env reply s =
     (case sendKeepalivePing env reply s of
        (None, s) \<Rightarrow> (True, s)
      | (Some e, s) \<Rightarrow>
          if ss_cancelled s then (False, s)
          else (False, (setErr e s)\<lparr>ss_cancelled := True\<rparr>))"

definition nopResponse :: "NOPIn \<Rightarrow> bytes \<Rightarrow> Session \<Rightarrow> NOPOut" where
  "nopResponse nopin data s =
     \<lparr>no_Header = (immediateHeader 0xFFFFFFFF)\<lparr>LUN := LUN (ni_Header nopin), DataSegmentLen := of_nat (length data)\<rparr>,
      no_TargetTransferTag = ni_TargetTransferTag nopin, no_CmdSN = currentCmdSN (ss_window s),
      no_ExpStatSN = ss_expStatSN s, no_Data = data\<rparr>"

definition handleUnsolicitedNOPIn :: "RawPDU \<Rightarrow> Session \<Rightarrow> Session" where
  "handleUnsolicitedNOPIn raw s =
     (let nopin = NOPIn_UnmarshalBHS (raw_BHS raw);
          s = noteWindow (ni_ExpCmdSN nopin) (ni_MaxCmdSN nopin) s;
          s = updateStatSN (ni_StatSN nopin) s
      in if ni_TargetTransferTag nopin \<noteq> 0xFFFFFFFF
         then (case NOPOut_MarshalBHS (nopResponse nopin (raw_DataSegment raw) s) of
                 Inl e \<Rightarrow> s
               | Inr bhs \<Rightarrow> snd (sendPDU (bareRaw bhs (raw_DataSegment raw)) s))
         else s)"

definition SendExpStatSNConfirmation :: "Session \<Rightarrow> SessionError option \<times> Session" where
  "SendExpStatSNConfirmation s =
     (case NOPOut_MarshalBHS (pingPDU 0xFFFFFFFF s) of
        Inl e \<Rightarrow> (Some (ErrEncode e), s)
      | Inr bhs \<Rightarrow>
          (case sendPDU (bareRaw bhs []) s of
             (True, s) \<Rightarrow> (None, s)
           | (False, s) \<Rightarrow> (Some ErrWriteChannelFull, s)))"

section \<open>Task management\<close>

definition tmfPDU :: "u8 \<Rightarrow> u32 \<Rightarrow> bytes \<Rightarrow> u32 \<Rightarrow> Session \<Rightarrow> TaskMgmtReq" where
  "tmfPDU fn refTaskTag lun itt s =
     \<lparr>tm_Header = (immediateHeader itt)\<lparr>LUN := lun\<rparr>, tm_Function = fn, tm_ReferencedTaskTag = refTaskTag,
      tm_CmdSN = currentCmdSN (ss_window s), tm_ExpStatSN = ss_expStatSN s, tm_RefCmdSN = 0\<rparr>"

definition sendTMF :: "(Session \<Rightarrow> Session) \<Rightarrow> Reply \<Rightarrow> u8 \<Rightarrow> u32 \<Rightarrow> u64 \<Rightarrow> Session
    \<Rightarrow> ((SessionError + TMFResult) \<times> Session) Step" where
  "sendTMF env reply fn refTaskTag lun s =
     (let (itt, s) = registerOne s
      in case EncodeSAMLUN lun of
           None \<Rightarrow> Crash
         | Some l \<Rightarrow>
             Done (case sendRequest (TaskMgmtReq_MarshalBHS (tmfPDU fn refTaskTag l itt s)) [] itt s of
                     (Some e, s) \<Rightarrow> (Inl e, s)
                   | (None, s) \<Rightarrow>
                       (case awaitReply env reply itt s of
                          (Inl e, s) \<Rightarrow> (Inl e, s)
                        | (Inr raw, s) \<Rightarrow>
                            let resp = TaskMgmtResp_UnmarshalBHS (raw_BHS raw);
                                s = noteWindow (tr_ExpCmdSN resp) (tr_MaxCmdSN resp) s;
                                s = updateStatSN (tr_StatSN resp) s
                            in (Inr \<lparr>tf_Response = tr_Response resp, tf_Err = None\<rparr>, s))))"

definition cleanupAbortedTask :: "u32 \<Rightarrow> Session \<Rightarrow> Session" where
  "cleanupAbortedTask itt s =
     (let s = unregisterTag itt s
      in case map_of (ss_tasks s) itt of
           None \<Rightarrow> s
         | Some a \<Rightarrow> setTask a (cancel ErrTaskAborted (ss_objs s ! a)) (s\<lparr>ss_tasks := AList.delete itt (ss_tasks s)\<rparr>))"

definition cleanupTasksByLUN :: "u64 \<Rightarrow> Session \<Rightarrow> Session" where
  "cleanupTasksByLUN lun s =
     fold cleanupAbortedTask (map fst (filter (\<lambda>(itt, a). tk_lun (ss_objs s ! a) = lun) (ss_tasks s))) s"

text \<open>A task management function, and what it does when the target reports it complete.\<close>

definition whenComplete :: "(Session \<Rightarrow> Session) \<Rightarrow> ((SessionError + TMFResult) \<times> Session) Step
    \<Rightarrow> ((SessionError + TMFResult) \<times> Session) Step" where
  "whenComplete clean r =
     bindStep r (\<lambda>(res, s).
       case res of
         Inl e \<Rightarrow> Done (Inl e, s)
       | Inr result \<Rightarrow> if tf_Response result = 0 then Done (Inr result, clean s) else Done (Inr result, s))"

definition AbortTask :: "(Session \<Rightarrow> Session) \<Rightarrow> Reply \<Rightarrow> u32 \<Rightarrow> Session \<Rightarrow> ((SessionError + TMFResult) \<times> Session) Step" where
  "AbortTask env reply targetITT s =
     whenComplete (cleanupAbortedTask targetITT) (sendTMF env reply TMFAbortTask targetITT 0 s)"

definition AbortTaskSet :: "(Session \<Rightarrow> Session) \<Rightarrow> Reply \<Rightarrow> u64 \<Rightarrow> Session \<Rightarrow> ((SessionError + TMFResult) \<times> Session) Step" where
  "AbortTaskSet env reply lun s =
     whenComplete (cleanupTasksByLUN lun) (sendTMF env reply TMFAbortTaskSet 0 lun s)"

definition ClearTaskSet :: "(Session \<Rightarrow> Session) \<Rightarrow> Reply \<Rightarrow> u64 \<Rightarrow> Session \<Rightarrow> ((SessionError + TMFResult) \<times> Session) Step" where
  "ClearTaskSet env reply lun s =
     whenComplete (cleanupTasksByLUN lun) (sendTMF env reply TMFClearTaskSet 0 lun s)"

definition LUNReset :: "(Session \<Rightarrow> Session) \<Rightarrow> Reply \<Rightarrow> u64 \<Rightarrow> Session \<Rightarrow> ((SessionError + TMFResult) \<times> Session) Step" where
  "LUNReset env reply lun s =
     whenComplete (cleanupTasksByLUN lun) (sendTMF env reply TMFLogicalUnitReset 0 lun s)"

definition TargetWarmReset :: "(Session \<Rightarrow> Session) \<Rightarrow> Reply \<Rightarrow> Session \<Rightarrow> ((SessionError + TMFResult) \<times> Session) Step" where
  "TargetWarmReset env reply s = sendTMF env reply TMFTargetWarmReset 0 0 s"

definition TargetColdReset :: "(Session \<Rightarrow> Session) \<Rightarrow> Reply \<Rightarrow> Session \<Rightarrow> ((SessionError + TMFResult) \<times> Session) Step" where
  "TargetColdReset env reply s = sendTMF env reply TMFTargetColdReset 0 0 s"

section \<open>Logout\<close>

definition logoutPDU :: "u8 \<Rightarrow> u32 \<Rightarrow> u32 \<Rightarrow> Session \<Rightarrow> LogoutReq" where
  "logoutPDU reasonCode cmdSN itt s =
     \<lparr>lo_Header = zeroHeader\<lparr>Final := True, InitiatorTaskTag := itt\<rparr>, lo_ReasonCode = reasonCode, lo_CID = 0,
      lo_CmdSN = cmdSN, lo_ExpStatSN = ss_expStatSN s\<rparr>"

text \<open>Nanoseconds to wait for the response; the sum of the two words wraps.\<close>

definition logoutTimeout :: "NegotiatedParams \<Rightarrow> int" where
  "logoutTimeout params =
     (let timeout = uint (np_DefaultTime2Wait params + np_DefaultTime2Retain params) * second
      in if timeout \<le> 0 \<or> timeout > 30 * second then 30 * second else timeout)"

definition logout :: "bool \<Rightarrow> (Session \<Rightarrow> Session) \<Rightarrow> Reply \<Rightarrow> u8 \<Rightarrow> Session \<Rightarrow> (SessionError option \<times> Session) Step" where
  "logout ctxEnds env reply reasonCode s =
     (case acquire ctxEnds (ss_window s) of
        WindowClosed \<Rightarrow> Done (Some ErrAcquire, s)
      | Canceled \<Rightarrow> Done (Some ErrAcquire, s)
      | MustWait \<Rightarrow> Stuck
      | Granted cmdSN w \<Rightarrow>
          let (itt, s) = registerOne (s\<lparr>ss_window := w\<rparr>)
          in Done (case sendRequest (LogoutReq_MarshalBHS (logoutPDU reasonCode cmdSN itt s)) [] itt s of
                     (Some e, s) \<Rightarrow> (Some e, s)
                   | (None, s) \<Rightarrow>
                       (case awaitReply env reply itt s of
                          (Inl e, s) \<Rightarrow> (Some e, s)
                        | (Inr raw, s) \<Rightarrow>
                            let resp = LogoutResp_UnmarshalBHS (raw_BHS raw);
                                s = noteWindow (lp_ExpCmdSN resp) (lp_MaxCmdSN resp) s;
                                s = updateStatSN (lp_StatSN resp) s
                            in (if lp_Response resp \<noteq> 0 then Some (ErrOther ''logout rejected'') else None, s))))"

text \<open>Waiting until no task is left: one element for each tick of the timer, the end of the list is the timeout.\<close>

fun waitIdle :: "(Session \<Rightarrow> Session) list \<Rightarrow> Session \<Rightarrow> bool \<times> Session" where
  "waitIdle ticks s =
     (if ss_tasks s = [] then (True, s)
      else (case ticks of [] \<Rightarrow> (False, s) | env # rest \<Rightarrow> waitIdle rest (env s)))"

definition Logout :: "(Session \<Rightarrow> Session) list \<Rightarrow> bool \<Rightarrow> (Session \<Rightarrow> Session) \<Rightarrow> Reply \<Rightarrow> Session
    \<Rightarrow> (SessionError option \<times> Session) Step" where
  "Logout ticks ctxEnds env reply s =
     (case waitIdle ticks s of
        (False, s) \<Rightarrow> Done (Some (ErrOther ''tasks in flight''), s)
      | (True, s) \<Rightarrow>
          bindStep (logout ctxEnds env reply 0 s) (\<lambda>(err, s).
            case err of
              Some e \<Rightarrow> Done (Some e, s)
            | None \<Rightarrow>
                let s = s\<lparr>ss_loggedIn := False\<rparr>;
                    s = s\<lparr>ss_window := closeWindow (ss_window s)\<rparr>
                in Done (None, s\<lparr>ss_cancelled := True\<rparr>)))"

definition LogoutConnection :: "bool \<Rightarrow> (Session \<Rightarrow> Session) \<Rightarrow> Reply \<Rightarrow> u8 \<Rightarrow> Session \<Rightarrow> (SessionError option \<times> Session) Step" where
  "LogoutConnection ctxEnds env reply reasonCode s = logout ctxEnds env reply reasonCode s"

section \<open>Drain and close\<close>

datatype DrainOutcome = DrainRefused | DrainedAtOnce | DrainWaits Session

definition Drain :: "Session \<Rightarrow> DrainOutcome" where
  "Drain s =
     (if ss_draining s then DrainRefused
      else if ss_tasks s = [] then DrainedAtOnce
      else DrainWaits (s\<lparr>ss_draining := True, ss_drainDone := True\<rparr>))"

definition drainExpires :: "Session \<Rightarrow> Session" where
  "drainExpires s = s\<lparr>ss_draining := False, ss_drainDone := False\<rparr>"

text \<open>The loop of \<open>Close\<close> over the tasks.\<close>

definition closeTask :: "u32 \<times> nat \<Rightarrow> Session \<Rightarrow> Session" where
  "closeTask = (\<lambda>(itt, a) s.
     let s = setTask a (cancel ErrSessionClosed (ss_objs s ! a)) s;
         s = unregisterTag itt s
     in s\<lparr>ss_tasks := AList.delete itt (ss_tasks s)\<rparr>)"

definition teardown :: "Session \<Rightarrow> Session" where
  "teardown s =
     (let s = s\<lparr>ss_window := closeWindow (ss_window s)\<rparr>;
          s = s\<lparr>ss_cancelled := True\<rparr>;
          s = fold closeTask (ss_tasks s) s
      in fireStateChange SessionClosed s)"

text \<open>The context of the logout here has a deadline, so that the window cannot hold it for ever.\<close>

definition Close :: "(Session \<Rightarrow> Session) \<Rightarrow> Reply \<Rightarrow> Session \<Rightarrow> Session Step" where
  "Close env reply s =
     (if ss_closed s then Done s
      else
        let wasLoggedIn = ss_loggedIn s;
            hasErr = (ss_err s \<noteq> None);
            s = s\<lparr>ss_loggedIn := False, ss_closed := True\<rparr>
        in if wasLoggedIn \<and> \<not> hasErr \<and> ss_tasks s = [] \<and> \<not> ss_recovering s
           then bindStep (logout True env reply 0 s) (\<lambda>(err, s). Done (teardown s))
           else Done (teardown s))"

section \<open>Asynchronous messages\<close>

text \<open>The goroutines that a handler starts.\<close>

datatype Spawn = SpawnLogout AsyncEvent | SpawnRenegotiate u16 | SpawnReconnect | SpawnReplace

definition dispatchAsyncEvent :: "AsyncEvent \<Rightarrow> Session \<Rightarrow> Session" where
  "dispatchAsyncEvent evt s = s\<lparr>ss_events := ss_events s @ [evt]\<rparr>"

definition triggerReconnect :: "Session \<Rightarrow> Session \<times> Spawn list" where
  "triggerReconnect s =
     (if ss_closed s then (s, [])
      else if ss_recovering s then (s, [])
      else
        let erl = np_ErrorRecoveryLevel (ss_params s);
            s = fireStateChange SessionReconnecting (s\<lparr>ss_recovering := True\<rparr>)
        in (s, [if erl \<ge> 2 then SpawnReplace else SpawnReconnect]))"

definition asyncEventOf :: "AsyncMsg \<Rightarrow> bytes \<Rightarrow> AsyncEvent" where
  "asyncEventOf m data =
     \<lparr>ae_EventCode = am_AsyncEvent m, ae_VendorCode = am_AsyncVCode m, ae_Parameter1 = am_Parameter1 m,
      ae_Parameter2 = am_Parameter2 m, ae_Parameter3 = am_Parameter3 m, ae_Data = data\<rparr>"

text \<open>Losing the connection: recovery when a target address is known, otherwise a fatal error.\<close>

definition connectionLost :: "SessionError \<Rightarrow> Session \<Rightarrow> Session \<times> Spawn list" where
  "connectionLost e s =
     (if sg_targetAddr (ss_cfg s) \<noteq> '''' then triggerReconnect s else (setErr e s, []))"

definition handleAsyncMsg :: "RawPDU \<Rightarrow> Session \<Rightarrow> Session \<times> Spawn list" where
  "handleAsyncMsg raw s =
     (let async = AsyncMsg_UnmarshalBHS (raw_BHS raw);
          s = noteWindow (am_ExpCmdSN async) (am_MaxCmdSN async) s;
          s = updateStatSN (am_StatSN async) s;
          evt = asyncEventOf async (raw_DataSegment raw);
          s = dispatchAsyncEvent evt s
      in if am_AsyncEvent async = 0 then (s, [])
         else if am_AsyncEvent async = 1 then (s, [SpawnLogout evt])
         else if am_AsyncEvent async = 2 then connectionLost (ErrOther ''connection dropped'') s
         else if am_AsyncEvent async = 3 then ((setErr (ErrOther ''session dropped'') s)\<lparr>ss_cancelled := True\<rparr>, [])
         else if am_AsyncEvent async = 4 then (s, [SpawnRenegotiate (am_Parameter3 async)])
         else (s, []))"

text \<open>
  The goroutine of a requested logout: \<open>closedMeanwhile\<close> says that the session is closed while it
  waits. The deadline and the wait are nanoseconds.
\<close>

definition logoutDeadline :: "u16 \<Rightarrow> int" where
  "logoutDeadline parameter3 =
     (let deadline = uint parameter3 * second in if deadline \<le> 0 then 30 * second else deadline)"

definition logoutWait :: "u16 \<Rightarrow> NegotiatedParams \<Rightarrow> int" where
  "logoutWait parameter3 params =
     (let waitDuration = uint (np_DefaultTime2Wait params) * second
      in if waitDuration > 0 \<and> waitDuration < logoutDeadline parameter3 then waitDuration else 0)"

definition handleTargetRequestedLogout :: "AsyncEvent \<Rightarrow> bool \<Rightarrow> (Session \<Rightarrow> Session) \<Rightarrow> Reply \<Rightarrow> (Session \<Rightarrow> Session) \<Rightarrow> Reply
    \<Rightarrow> Session \<Rightarrow> Session Step" where
  "handleTargetRequestedLogout evt closedMeanwhile env reply env' reply' s =
     (if logoutWait (ae_Parameter3 evt) (ss_params s) > 0 \<and> closedMeanwhile then Done s
      else bindStep (logout True env reply 0 s) (\<lambda>(err, s). Close env' reply' s))"

section \<open>Renegotiation\<close>

definition applyRenegotiatedKey :: "KeyValue \<Rightarrow> NegotiatedParams \<Rightarrow> NegotiatedParams" where
  "applyRenegotiatedKey kv p =
     (case ParseUint (kv_Value kv) 32 of
        Inl _ \<Rightarrow> p
      | Inr v \<Rightarrow>
          if kv_Key kv = ''MaxRecvDataSegmentLength'' then p\<lparr>np_MaxRecvDataSegmentLength := of_nat v\<rparr>
          else if kv_Key kv = ''MaxBurstLength'' then p\<lparr>np_MaxBurstLength := of_nat v\<rparr>
          else if kv_Key kv = ''FirstBurstLength'' then p\<lparr>np_FirstBurstLength := of_nat v\<rparr>
          else p)"

definition applyRenegotiatedParams :: "KeyValue list \<Rightarrow> Session \<Rightarrow> Session" where
  "applyRenegotiatedParams kvs s = s\<lparr>ss_params := fold applyRenegotiatedKey kvs (ss_params s)\<rparr>"

definition renegotiationKeys :: "NegotiatedParams \<Rightarrow> KeyValue list" where
  "renegotiationKeys p =
     [KV ''MaxRecvDataSegmentLength'' (FormatUint (unat (np_MaxRecvDataSegmentLength p))),
      KV ''MaxBurstLength'' (FormatUint (unat (np_MaxBurstLength p))),
      KV ''FirstBurstLength'' (FormatUint (unat (np_FirstBurstLength p)))]"

definition textPDU :: "u32 \<Rightarrow> u32 \<Rightarrow> u32 \<Rightarrow> bytes \<Rightarrow> Session \<Rightarrow> TextReq" where
  "textPDU ttt cmdSN itt data s =
     \<lparr>tq_Header = zeroHeader\<lparr>Final := True, InitiatorTaskTag := itt, DataSegmentLen := of_nat (length data)\<rparr>,
      tq_Continue = False, tq_TargetTransferTag = ttt, tq_CmdSN = cmdSN, tq_ExpStatSN = ss_expStatSN s, tq_Data = data\<rparr>"

definition receiveTextResp :: "RawPDU \<Rightarrow> Session \<Rightarrow> (SessionError + TextResp) \<times> Session" where
  "receiveTextResp raw s =
     (case DecodeBHS (raw_BHS raw) of
        Inl e \<Rightarrow> (Inl (ErrDecode e), s)
      | Inr (PTextResp p) \<Rightarrow>
          (Inr (p\<lparr>te_Data := raw_DataSegment raw\<rparr>), updateStatSN (te_StatSN p) (noteWindow (te_ExpCmdSN p) (te_MaxCmdSN p) s))
      | Inr _ \<Rightarrow> (Inl (ErrOther ''unexpected PDU type''), s))"

definition renegotiate :: "bool \<Rightarrow> (Session \<Rightarrow> Session) \<Rightarrow> Reply \<Rightarrow> Session \<Rightarrow> (SessionError option \<times> Session) Step" where
  "renegotiate ctxEnds env reply s =
     (let data = EncodeTextKV (renegotiationKeys (ss_params s))
      in case acquire ctxEnds (ss_window s) of
           WindowClosed \<Rightarrow> Done (Some ErrAcquire, s)
         | Canceled \<Rightarrow> Done (Some ErrAcquire, s)
         | MustWait \<Rightarrow> Stuck
         | Granted cmdSN w \<Rightarrow>
             let (itt, s) = registerOne (s\<lparr>ss_window := w\<rparr>)
             in Done (case sendRequest (TextReq_MarshalBHS (textPDU 0xFFFFFFFF cmdSN itt data s)) data itt s of
                        (Some e, s) \<Rightarrow> (Some e, s)
                      | (None, s) \<Rightarrow>
                          (case awaitReply env reply itt s of
                             (Inl e, s) \<Rightarrow> (Some e, s)
                           | (Inr raw, s) \<Rightarrow>
                               (case receiveTextResp raw s of
                                  (Inl e, s) \<Rightarrow> (Some e, s)
                                | (Inr resp, s) \<Rightarrow>
                                    (None, if length (te_Data resp) > 0
                                           then applyRenegotiatedParams (DecodeTextKV (te_Data resp)) s else s)))))"

section \<open>Unsolicited PDUs\<close>

definition handleUnsolicitedReject :: "Reject \<Rightarrow> Session \<Rightarrow> Session Step" where
  "handleUnsolicitedReject reject s =
     (let s = updateStatSN (rj_StatSN reject) s;
          s = noteWindow (rj_ExpCmdSN reject) (rj_MaxCmdSN reject) s
      in if length (rj_Data reject) \<ge> 20
         then let rejectedITT = Uint32 (slice (rj_Data reject) 16 20)
              in if rejectedITT \<noteq> 0xFFFFFFFF
                 then (case map_of (ss_tasks s) rejectedITT of
                         None \<Rightarrow> Done s
                       | Some a \<Rightarrow>
                           if tk_erl (ss_objs s ! a) \<ge> 1 then retrySameConnection a s
                           else Done (cleanupTask rejectedITT
                                  (setTask a (cancel (ErrRejected (rj_Reason reject) rejectedITT) (ss_objs s ! a)) s)))
                 else Done s
         else Done s)"

definition handleUnsolicited :: "RawPDU \<Rightarrow> Session \<Rightarrow> (Session \<times> Spawn list) Step" where
  "handleUnsolicited raw s =
     (let opcode = raw_BHS raw ! 0 AND 0x3f
      in if opcode = OpNOPIn then Done (handleUnsolicitedNOPIn raw s, [])
         else if opcode = OpAsyncMsg then Done (handleAsyncMsg raw s)
         else if opcode = OpReject
         then (case DecodeBHS (raw_BHS raw) of
                 Inr (PReject p) \<Rightarrow>
                   bindStep (handleUnsolicitedReject (p\<lparr>rj_Data := raw_DataSegment raw\<rparr>) s) (\<lambda>s. Done (s, []))
               | _ \<Rightarrow> Done (s, []))
         else Done (s, []))"

text \<open>How the read and write pump loops end the session's connection.\<close>

definition readPumpLoop :: "PumpExit \<Rightarrow> Session \<Rightarrow> Session \<times> Spawn list" where
  "readPumpLoop ex s =
     (if ss_cancelled s then (s, [])
      else case ex of
             ExitNil \<Rightarrow> (s, [])
           | ReadErr (DigestErr e) \<Rightarrow> (setErr (ErrOther ''digest mismatch'') s, [])
           | _ \<Rightarrow> connectionLost (ErrOther ''read pump'') s)"

definition writePumpLoop :: "PumpExit \<Rightarrow> Session \<Rightarrow> Session" where
  "writePumpLoop ex s =
     (if ss_cancelled s then s
      else case ex of ExitNil \<Rightarrow> s | _ \<Rightarrow> setErr (ErrOther ''write pump'') s)"

end
