(* ===== verification/Session_Steps.thy ===== *)
theory Session_Steps
  imports Session_Control
begin

text \<open>
  The session as a transition system: submissions that wait for the command window, the read pump's
  dispatching, the task loops with the cases of their \<open>select\<close>, unsolicited PDUs, task management,
  drains and the end, in any order.

  The invariant ties three structures together: the map of tasks, the router's pending map and the
  running loops. Every task that can still receive something has exactly one loop, and that loop
  listens on the channel under which the router knows its tag.
\<close>

section \<open>What the handlers keep of a task\<close>

definition keeps :: "task \<Rightarrow> task \<Rightarrow> bool" where
  "keeps t t' \<longleftrightarrow> tk_itt t' = tk_itt t \<and> ch_cap (tk_resultCh t') = ch_cap (tk_resultCh t) \<and>
     ch_closed (tk_resultCh t') = ch_closed (tk_resultCh t) \<and> (tk_done t \<longrightarrow> tk_done t')"

named_theorems kept

lemma keeps_refl [kept]: "keeps t t"
  by (simp add: keeps_def)

lemma keeps_trans: "keeps t u \<Longrightarrow> keeps u v \<Longrightarrow> keeps t v"
  by (simp add: keeps_def)

lemma keeps_update [kept]:
  "keeps t (t\<lparr>tk_buf := b\<rparr>)" "keeps t (t\<lparr>tk_dataReader := d\<rparr>)" "keeps t (t\<lparr>tk_nextDataSN := sn\<rparr>)"
  "keeps t (t\<lparr>tk_nextOffset := off\<rparr>)" "keeps t (t\<lparr>tk_snack := sk\<rparr>)" "keeps t (t\<lparr>tk_reader := rd\<rparr>)"
  "keeps t (t\<lparr>tk_bytesSent := n\<rparr>)" "keeps t (t\<lparr>tk_done := True\<rparr>)"
  by (simp_all add: keeps_def)

lemma keeps_deliver: "deliver r t = Done t' \<Longrightarrow> keeps t t'"
  by (auto simp: deliver_def keeps_def chan_send_def split: SendResult.splits if_splits)

lemma keeps_closeReader [kept]: "keeps t (closeReaderWithError e t)"
  by (simp add: closeReaderWithError_def keeps_def)

lemma keeps_storeData: "storeData d t = Done t' \<Longrightarrow> keeps t t'"
  by (auto simp: storeData_def keeps_def split: if_splits option.splits SendResult.splits)

lemma keeps_advance [kept]: "keeps t (advance d t)"
  by (simp add: advance_def keeps_def)

lemma keeps_timers [kept]: "keeps t (stopSnackTimer t)" "keeps t (startSnackTimer t)" "keeps t (resetSnackTimer t)"
  by (simp_all add: stopSnackTimer_def startSnackTimer_def resetSnackTimer_def keeps_def Let_def)

lemma keeps_setPending [kept]: "keeps t (setPending ps t)"
  by (simp add: setPending_def keeps_def)

lemma keeps_finish: "finishDataIn d t = Done t' \<Longrightarrow> keeps t t'"
  using keeps_timers(1) [of t]
  by (auto simp: finishDataIn_def Let_def split: if_splits option.splits dest!: keeps_deliver) (auto simp: keeps_def)

lemma keeps_drain: "drainPendingDataIn t = Done t' \<Longrightarrow> keeps t t'"
proof (induction t rule: drainPendingDataIn.induct)
  case (1 t)
  show ?case
  proof (cases "find (\<lambda>d. di_DataSN d = tk_nextDataSN t) (pendingOf t)")
    case None
    then show ?thesis using 1(2) by (subst (asm) drainPendingDataIn.simps) (simp add: keeps_refl)
  next
    case (Some d)
    let ?t1 = "setPending (filter (\<lambda>x. di_DataSN x \<noteq> di_DataSN d) (pendingOf t)) t"
    obtain t2 where t2: "storeData (di_Data d) ?t1 = Done t2"
      using 1(2) Some by (subst (asm) drainPendingDataIn.simps) (auto split: Step.splits)
    have k: "keeps t (advance d t2)"
      using keeps_trans [OF keeps_trans [OF keeps_setPending keeps_storeData [OF t2]] keeps_advance] .
    show ?thesis
    proof (cases "di_HasStatus d")
      case True
      then have "finishDataIn d (advance d t2) = Done t'"
        using 1(2) Some t2 by (subst (asm) drainPendingDataIn.simps) (simp add: Let_def)
      then show ?thesis using k keeps_finish keeps_trans by blast
    next
      case False
      then have "drainPendingDataIn (advance d t2) = Done t'"
        using 1(2) Some t2 by (subst (asm) drainPendingDataIn.simps) (simp add: Let_def)
      then show ?thesis using 1(1) [OF Some t2 refl False] k keeps_trans by blast
    qed
  qed
qed

lemma keeps_in_order: 
  assumes "handleInOrder es d t w = Done (t', w')"
  shows "keeps t t'"
proof -
  obtain t1 where t1: "storeData (di_Data d) t = Done t1"
    using assms by (auto simp: handleInOrder_def bindStep_Done)
  let ?t2 = "advance d t1"
  obtain t3 where t3: "(if pendingOf ?t2 \<noteq> [] then drainPendingDataIn ?t2 else Done ?t2) = Done t3"
    "t' = t3 \<or> finishDataIn d t3 = Done t'"
    using assms t1 by (auto simp: handleInOrder_def Let_def bindStep_Done split: if_splits)
  have "keeps ?t2 t3" using t3(1) keeps_drain keeps_refl by (auto split: if_splits)
  then have "keeps t t3" using keeps_storeData [OF t1] keeps_advance [of t1 d] keeps_trans by blast
  then show ?thesis using t3(2) keeps_finish keeps_trans by blast
qed

lemma keeps_bufferOutOfOrder [kept]: "keeps t (bufferOutOfOrder d t)"
  by (simp add: bufferOutOfOrder_def keeps_def Let_def)

lemma keeps_handleDataIn:
  assumes "handleDataIn es d t w = Done (t', w')"
  shows "keeps t t'"
proof -
  have o: "keeps t (onReceive t)" by (simp add: keeps_refl keeps_timers)
  have fail: "keeps u v" if "bindStep (deliver r (closeReaderWithError e u)) (\<lambda>t. Done (t\<lparr>tk_done := True\<rparr>, x)) = Done (v, w')" for r e u v x
    using that keeps_trans [OF keeps_trans [OF keeps_closeReader keeps_deliver] keeps_update(8)] by (auto simp: bindStep_Done)
  have fail': "keeps u v" if "bindStep (deliver r (closeReaderWithError e u)) (\<lambda>t. Done (t, x)) = Done (v, w')" for r e u v x
    using that keeps_trans [OF keeps_closeReader keeps_deliver] by (auto simp: bindStep_Done)
  have "keeps (onReceive t) t'"
    using assms keeps_in_order [of es d "onReceive t" w t' w']
    by (auto simp: handleDataIn_def Let_def split: if_splits prod.splits option.splits
        dest!: fail fail' intro: keeps_refl keeps_bufferOutOfOrder keeps_trans [OF keeps_bufferOutOfOrder])
  then show ?thesis using o keeps_trans by blast
qed

lemma keeps_handleSCSIResponse: "handleSCSIResponse p t = Done t' \<Longrightarrow> keeps t t'"
  using keeps_trans [OF keeps_update(2) keeps_deliver]
  by (auto simp: handleSCSIResponse_def Let_def split: if_splits option.splits dest: keeps_deliver)

lemma keeps_cancel [kept]: "keeps t (cancel e t)" "tk_done (cancel e t)"
  by (auto simp: cancel_def keeps_def closeReaderWithError_def Let_def chan_send_def split: SendResult.splits)

lemma keeps_handleR2T: "handleR2T p es ps st t = Done (Some (e, t', out)) \<Longrightarrow> keeps t t'"
  by (auto simp: handleR2T_def keeps_def Let_def split: option.splits if_splits prod.splits)

lemma keeps_sendUnsolicited: "sendUnsolicitedDataOut es ps st t = Done (Some (e, t', out)) \<Longrightarrow> keeps t t'"
  by (auto simp: sendUnsolicitedDataOut_def keeps_def Let_def split: option.splits if_splits prod.splits)

lemma keeps_readImmediate: "readImmediate ps r t = (x, t') \<Longrightarrow> keeps t t'"
  by (auto simp: readImmediate_def keeps_def Let_def split: prod.splits if_splits)

lemma keeps_restart [kept]: "keeps t (restartRead t)"
  by (simp add: restartRead_def keeps_def Let_def)

lemma keeps_rereadImmediate: "rereadImmediate ps t = (x, t') \<Longrightarrow> keeps t t'"
  using keeps_trans [OF keeps_update(7) keeps_readImmediate]
  by (auto simp: rereadImmediate_def split: option.splits if_splits prod.splits intro: keeps_refl)


section \<open>The invariant\<close>

definition session_inv :: "Session \<Rightarrow> bool" where
  "session_inv s \<longleftrightarrow>
     distinct (map fst (ss_tasks s)) \<and> distinct (map fst (ss_loops s)) \<and>
     (\<forall>(itt, a) \<in> set (ss_tasks s). a < length (ss_objs s) \<and> tk_itt (ss_objs s ! a) = itt \<and>
        (tk_done (ss_objs s ! a) \<or> a \<in> fst ` set (ss_loops s))) \<and>
     (\<forall>(a, ch) \<in> set (ss_loops s). a < length (ss_objs s) \<and>
        (tk_done (ss_objs s ! a) \<or> (tk_itt (ss_objs s ! a), a) \<in> set (ss_tasks s) \<and>
           map_of (pending (ss_router s)) (tk_itt (ss_objs s ! a)) = Some \<lparr>ent_ch = ch, ent_persistent = True\<rparr>)) \<and>
     (\<forall>(a, _) \<in> set (ss_loops s). \<forall>(b, _) \<in> set (ss_loops s). tk_itt (ss_objs s ! a) = tk_itt (ss_objs s ! b) \<longrightarrow> a = b) \<and>
     (\<forall>t \<in> set (ss_objs s). ch_cap (tk_resultCh t) = 1 \<and> \<not> ch_closed (tk_resultCh t))"

lemma session_invD:
  assumes "session_inv s"
  shows "distinct (map fst (ss_tasks s))" "distinct (map fst (ss_loops s))"
    "(itt, a) \<in> set (ss_tasks s) \<Longrightarrow> a < length (ss_objs s)"
    "(itt, a) \<in> set (ss_tasks s) \<Longrightarrow> tk_itt (ss_objs s ! a) = itt"
    "(itt, a) \<in> set (ss_tasks s) \<Longrightarrow> \<not> tk_done (ss_objs s ! a) \<Longrightarrow> a \<in> fst ` set (ss_loops s)"
    "(a, ch) \<in> set (ss_loops s) \<Longrightarrow> a < length (ss_objs s)"
    "(a, ch) \<in> set (ss_loops s) \<Longrightarrow> \<not> tk_done (ss_objs s ! a) \<Longrightarrow> (tk_itt (ss_objs s ! a), a) \<in> set (ss_tasks s)"
    "(a, ch) \<in> set (ss_loops s) \<Longrightarrow> \<not> tk_done (ss_objs s ! a) \<Longrightarrow>
       map_of (pending (ss_router s)) (tk_itt (ss_objs s ! a)) = Some \<lparr>ent_ch = ch, ent_persistent = True\<rparr>"
    "(a, ch) \<in> set (ss_loops s) \<Longrightarrow> (b, ch') \<in> set (ss_loops s) \<Longrightarrow> tk_itt (ss_objs s ! a) = tk_itt (ss_objs s ! b) \<Longrightarrow> a = b"
    "t \<in> set (ss_objs s) \<Longrightarrow> ch_cap (tk_resultCh t) = 1 \<and> \<not> ch_closed (tk_resultCh t)"
  using assms unfolding session_inv_def by fast+

lemma session_invI:
  assumes "distinct (map fst (ss_tasks s))" "distinct (map fst (ss_loops s))"
    "\<And>itt a. (itt, a) \<in> set (ss_tasks s) \<Longrightarrow> a < length (ss_objs s) \<and> tk_itt (ss_objs s ! a) = itt \<and>
       (\<not> tk_done (ss_objs s ! a) \<longrightarrow> a \<in> fst ` set (ss_loops s))"
    "\<And>a ch. (a, ch) \<in> set (ss_loops s) \<Longrightarrow> a < length (ss_objs s) \<and> (\<not> tk_done (ss_objs s ! a) \<longrightarrow>
       (tk_itt (ss_objs s ! a), a) \<in> set (ss_tasks s) \<and>
       map_of (pending (ss_router s)) (tk_itt (ss_objs s ! a)) = Some \<lparr>ent_ch = ch, ent_persistent = True\<rparr>)"
    "\<And>a ch b ch'. (a, ch) \<in> set (ss_loops s) \<Longrightarrow> (b, ch') \<in> set (ss_loops s) \<Longrightarrow> tk_itt (ss_objs s ! a) = tk_itt (ss_objs s ! b) \<Longrightarrow> a = b"
    "\<And>t. t \<in> set (ss_objs s) \<Longrightarrow> ch_cap (tk_resultCh t) = 1 \<and> \<not> ch_closed (tk_resultCh t)"
  shows "session_inv s"
proof -
  have "\<forall>(itt, a) \<in> set (ss_tasks s). a < length (ss_objs s) \<and> tk_itt (ss_objs s ! a) = itt \<and>
      (tk_done (ss_objs s ! a) \<or> a \<in> fst ` set (ss_loops s))"
    using assms(3) by fast
  moreover have "\<forall>(a, ch) \<in> set (ss_loops s). a < length (ss_objs s) \<and>
      (tk_done (ss_objs s ! a) \<or> (tk_itt (ss_objs s ! a), a) \<in> set (ss_tasks s) \<and>
         map_of (pending (ss_router s)) (tk_itt (ss_objs s ! a)) = Some \<lparr>ent_ch = ch, ent_persistent = True\<rparr>)"
    using assms(4) by fast
  moreover have "\<forall>(a, _) \<in> set (ss_loops s). \<forall>(b, _) \<in> set (ss_loops s). tk_itt (ss_objs s ! a) = tk_itt (ss_objs s ! b) \<longrightarrow> a = b"
    using assms(5) by fast
  ultimately show ?thesis unfolding session_inv_def using assms(1,2,6) by simp
qed

text \<open>A step that only works on tasks, and one that drops a tag.\<close>

definition quiet :: "Session \<Rightarrow> Session \<Rightarrow> bool" where
  "quiet s s' \<longleftrightarrow> list_all2 keeps (ss_objs s) (ss_objs s') \<and> ss_tasks s' = ss_tasks s \<and> ss_loops s' = ss_loops s \<and>
     pending (ss_router s') = pending (ss_router s)"

lemma quiet_refl [kept]: "quiet s s"
  by (simp add: quiet_def list_all2_refl keeps_refl)

lemma quiet_trans: "quiet s u \<Longrightarrow> quiet u v \<Longrightarrow> quiet s v"
  unfolding quiet_def using list_all2_trans [of keeps keeps keeps] keeps_trans by metis

lemma quiet_nth: "quiet s s' \<Longrightarrow> a < length (ss_objs s) \<Longrightarrow> keeps (ss_objs s ! a) (ss_objs s' ! a)"
  by (simp add: quiet_def list_all2_conv_all_nth)

lemma quiet_length: "quiet s s' \<Longrightarrow> length (ss_objs s') = length (ss_objs s)"
  by (simp add: quiet_def list_all2_conv_all_nth)

lemma quiet_sel: "quiet s s' \<Longrightarrow> ss_tasks s' = ss_tasks s \<and> ss_loops s' = ss_loops s \<and> pending (ss_router s') = pending (ss_router s)"
  by (simp add: quiet_def)

lemma inv_quiet:
  assumes "session_inv s" "quiet s s'"
  shows "session_inv s'"
proof -
  note d = session_invD [OF assms(1)]
  have k: "tk_itt (ss_objs s' ! a) = tk_itt (ss_objs s ! a)" "tk_done (ss_objs s ! a) \<Longrightarrow> tk_done (ss_objs s' ! a)"
    if "a < length (ss_objs s)" for a
    using quiet_nth [OF assms(2) that] by (simp_all add: keeps_def)
  have r: "ch_cap (tk_resultCh t) = 1 \<and> \<not> ch_closed (tk_resultCh t)" if t: "t \<in> set (ss_objs s')" for t
  proof -
    obtain i where i: "i < length (ss_objs s)" "t = ss_objs s' ! i"
      using t quiet_length [OF assms(2)] by (auto simp: in_set_conv_nth)
    then show ?thesis using quiet_nth [OF assms(2) i(1)] d(10) [of "ss_objs s ! i"] by (simp add: keeps_def)
  qed
  have eq: "ss_tasks s' = ss_tasks s" "ss_loops s' = ss_loops s" "pending (ss_router s') = pending (ss_router s)"
    "length (ss_objs s') = length (ss_objs s)"
    using quiet_sel [OF assms(2)] quiet_length [OF assms(2)] by simp_all
  show ?thesis
  proof (rule session_invI)
    show "a < length (ss_objs s') \<and> tk_itt (ss_objs s' ! a) = itt \<and> (\<not> tk_done (ss_objs s' ! a) \<longrightarrow> a \<in> fst ` set (ss_loops s'))"
      if "(itt, a) \<in> set (ss_tasks s')" for itt a
      using that d(3,4,5) k unfolding eq by metis
    show "a < length (ss_objs s') \<and> (\<not> tk_done (ss_objs s' ! a) \<longrightarrow> (tk_itt (ss_objs s' ! a), a) \<in> set (ss_tasks s') \<and>
       map_of (pending (ss_router s')) (tk_itt (ss_objs s' ! a)) = Some \<lparr>ent_ch = ch, ent_persistent = True\<rparr>)"
      if "(a, ch) \<in> set (ss_loops s')" for a ch
      using that d(6,7,8) k unfolding eq by metis
    show "a = b" if "(a, ch) \<in> set (ss_loops s')" "(b, ch') \<in> set (ss_loops s')" "tk_itt (ss_objs s' ! a) = tk_itt (ss_objs s' ! b)" for a ch b ch'
      using that d(6,9) k(1) unfolding eq by metis
  qed (use d(1,2) r eq in simp_all)
qed

lemma quiet_simple [kept]:
  "quiet s (noteWindow e m s)" "quiet s (updateStatSN n s)" "quiet s (sentPDUs ps s)" "quiet s (s\<lparr>ss_write := w\<rparr>)"
  "quiet s (s\<lparr>ss_window := win\<rparr>)" "quiet s (s\<lparr>ss_params := p\<rparr>)" "quiet s (s\<lparr>ss_cancelled := b\<rparr>)" "quiet s (setErr err s)"
  "quiet s (fireStateChange st s)" "quiet s (dispatchAsyncEvent ev s)" "quiet s (s\<lparr>ss_recovering := b\<rparr>)"
  "quiet s (s\<lparr>ss_draining := b, ss_drainDone := b'\<rparr>)" "quiet s (s\<lparr>ss_loggedIn := b, ss_closed := b'\<rparr>)"
  by (auto simp: quiet_def list_all2_refl keeps_refl noteWindow_def updateStatSN_def sentPDUs_def setErr_def
      fireStateChange_def dispatchAsyncEvent_def Let_def)

lemma quiet_sendPDU: "sendPDU raw s = (ok, s') \<Longrightarrow> quiet s s'"
  by (auto simp: sendPDU_def split: prod.splits intro: quiet_simple)

lemma quiet_setTask: "(a < length (ss_objs s) \<Longrightarrow> keeps (ss_objs s ! a) t) \<Longrightarrow> quiet s (setTask a t s)"
  by (cases "a < length (ss_objs s)") (simp_all add: quiet_def setTask_def list_all2_conv_all_nth nth_list_update keeps_refl list_update_beyond)

lemma quiet_cleanup [kept]: "quiet (forgetTask itt s) (cleanupTask itt s)"
  by (auto simp: forgetTask_def cleanupTask_def quiet_def Let_def list_all2_refl keeps_refl)

lemma quiet_forget: "quiet s s' \<Longrightarrow> quiet (forgetTask itt s) (forgetTask itt s')"
  by (simp add: quiet_def forgetTask_def Unregister_def)

text \<open>Dropping a tag whose loops are done.\<close>

lemma inv_forget:
  assumes "session_inv s" "\<And>b ch. (b, ch) \<in> set (ss_loops s) \<Longrightarrow> tk_itt (ss_objs s ! b) = itt \<Longrightarrow> tk_done (ss_objs s ! b)"
  shows "session_inv (forgetTask itt s)"
proof -
  note d = session_invD [OF assms(1)]
  have dt: "distinct (map fst (AList.delete itt (ss_tasks s)))" using d(1) by (rule distinct_delete)
  have sub: "set (AList.delete itt (ss_tasks s)) = {p \<in> set (ss_tasks s). fst p \<noteq> itt}"
    by (auto simp: AList.delete_eq)
  have eq: "ss_objs (forgetTask itt s) = ss_objs s" "ss_loops (forgetTask itt s) = ss_loops s"
    "ss_tasks (forgetTask itt s) = AList.delete itt (ss_tasks s)"
    "map_of (pending (ss_router (forgetTask itt s))) i = (if i = itt then None else map_of (pending (ss_router s)) i)" for i
    by (simp_all add: forgetTask_def routes.leave_route)
  show ?thesis
  proof (rule session_invI)
    show "a < length (ss_objs (forgetTask itt s)) \<and> tk_itt (ss_objs (forgetTask itt s) ! a) = i \<and>
        (\<not> tk_done (ss_objs (forgetTask itt s) ! a) \<longrightarrow> a \<in> fst ` set (ss_loops (forgetTask itt s)))"
      if "(i, a) \<in> set (ss_tasks (forgetTask itt s))" for i a
      using that d(3,4,5) unfolding eq sub by simp metis
    show "a < length (ss_objs (forgetTask itt s)) \<and> (\<not> tk_done (ss_objs (forgetTask itt s) ! a) \<longrightarrow>
        (tk_itt (ss_objs (forgetTask itt s) ! a), a) \<in> set (ss_tasks (forgetTask itt s)) \<and>
        map_of (pending (ss_router (forgetTask itt s))) (tk_itt (ss_objs (forgetTask itt s) ! a)) = Some \<lparr>ent_ch = ch, ent_persistent = True\<rparr>)"
      if "(a, ch) \<in> set (ss_loops (forgetTask itt s))" for a ch
      using that d(6,7,8) assms(2) [of a ch] unfolding eq by (auto simp: sub)
  qed (use d(1,2,9,10) dt eq in auto)
qed

text \<open>The end of a loop that drops its tag.\<close>

lemma inv_finish:
  assumes "session_inv s" "(a, ch) \<in> set (ss_loops s)" "tk_itt (ss_objs s ! a) = itt"
  shows "session_inv ((forgetTask itt s)\<lparr>ss_loops := remove1 (a, ch) (ss_loops s)\<rparr>)"
proof -
  note d = session_invD [OF assms(1)]
  have dt: "distinct (map fst (AList.delete itt (ss_tasks s)))" using d(1) by (rule distinct_delete)
  have sub: "set (AList.delete itt (ss_tasks s)) = {p \<in> set (ss_tasks s). fst p \<noteq> itt}"
    by (auto simp: AList.delete_eq)
  have dl: "distinct (ss_loops s)" using d(2) by (simp add: distinct_map)
  have ls: "set (remove1 (a, ch) (ss_loops s)) = set (ss_loops s) - {(a, ch)}" using dl by simp
  have ld: "distinct (map fst (remove1 (a, ch) (ss_loops s)))"
    using d(2) by (metis distinct_map distinct_remove1 inj_on_subset set_remove1_subset)
  have other: "b \<noteq> a \<and> tk_itt (ss_objs s ! b) \<noteq> itt" if "(b, c) \<in> set (ss_loops s) - {(a, ch)}" for b c
    using that d(2,9) assms(2,3) by (metis DiffE eq_key_imp_eq_value singletonI)
  have keep: "b \<in> fst ` (set (ss_loops s) - {(a, ch)})" if "(i, b) \<in> set (ss_tasks s)" "i \<noteq> itt" "\<not> tk_done (ss_objs s ! b)" for i b
  proof -
    have "b \<in> fst ` set (ss_loops s)" "b \<noteq> a" using d(5) [OF that(1,3)] d(4) [OF that(1)] that(2) assms(3) by auto
    moreover from this(1) obtain c where "(b, c) \<in> set (ss_loops s)" by force
    ultimately show ?thesis by (force intro: rev_image_eqI)
  qed
  let ?s = "(forgetTask itt s)\<lparr>ss_loops := remove1 (a, ch) (ss_loops s)\<rparr>"
  have eq: "ss_objs ?s = ss_objs s" "ss_loops ?s = remove1 (a, ch) (ss_loops s)" "ss_tasks ?s = AList.delete itt (ss_tasks s)"
    "map_of (pending (ss_router ?s)) i = (if i = itt then None else map_of (pending (ss_router s)) i)" for i
    by (simp_all add: forgetTask_def routes.leave_route)
  show ?thesis
  proof (rule session_invI)
    show "b < length (ss_objs ?s) \<and> tk_itt (ss_objs ?s ! b) = i \<and> (\<not> tk_done (ss_objs ?s ! b) \<longrightarrow> b \<in> fst ` set (ss_loops ?s))"
      if "(i, b) \<in> set (ss_tasks ?s)" for i b
      using d(3,4) [of i b] keep [of i b] that unfolding eq ls sub by simp
    show "b < length (ss_objs ?s) \<and> (\<not> tk_done (ss_objs ?s ! b) \<longrightarrow> (tk_itt (ss_objs ?s ! b), b) \<in> set (ss_tasks ?s) \<and>
        map_of (pending (ss_router ?s)) (tk_itt (ss_objs ?s ! b)) = Some \<lparr>ent_ch = c, ent_persistent = True\<rparr>)"
      if "(b, c) \<in> set (ss_loops ?s)" for b c
      using d(6,7,8) [of b c] other [of b c] that unfolding eq ls sub by simp
    show "b = b'" if "(b, c) \<in> set (ss_loops ?s)" "(b', c') \<in> set (ss_loops ?s)" "tk_itt (ss_objs ?s ! b) = tk_itt (ss_objs ?s ! b')" for b c b' c'
    proof (rule d(9))
      show "(b, c) \<in> set (ss_loops s)" using that(1) set_remove1_subset [of "(a, ch)" "ss_loops s"] unfolding eq by (rule rev_subsetD)
      show "(b', c') \<in> set (ss_loops s)" using that(2) set_remove1_subset [of "(a, ch)" "ss_loops s"] unfolding eq by (rule rev_subsetD)
    qed (use that(3) in \<open>simp only: eq\<close>)
  qed (use d(10) dt ld eq in simp_all)
qed

lemma inv_unloop:
  assumes "session_inv s" "a < length (ss_objs s)" "tk_done (ss_objs s ! a)"
  shows "session_inv (s\<lparr>ss_loops := remove1 (a, ch) (ss_loops s)\<rparr>)"
proof -
  note d = session_invD [OF assms(1)]
  have ld: "distinct (map fst (remove1 (a, ch) (ss_loops s)))"
    using d(2) by (metis distinct_map distinct_remove1 inj_on_subset set_remove1_subset)
  have sub: "set (remove1 (a, ch) (ss_loops s)) \<subseteq> set (ss_loops s)" by (rule set_remove1_subset)
  have keep: "b \<in> fst ` set (remove1 (a, ch) (ss_loops s))" if "(i, b) \<in> set (ss_tasks s)" "\<not> tk_done (ss_objs s ! b)" for i b
  proof -
    have "b \<in> fst ` set (ss_loops s)" "b \<noteq> a" using d(5) [OF that] that(2) assms(3) by auto
    from this(1) obtain c where c: "(b, c) \<in> set (ss_loops s)" by force
    have "(b, c) \<noteq> (a, ch)" using \<open>b \<noteq> a\<close> by simp
    then have "(b, c) \<in> set (remove1 (a, ch) (ss_loops s))" using c by simp
    then show ?thesis by force
  qed
  show ?thesis
  proof (rule session_invI)
    let ?s = "s\<lparr>ss_loops := remove1 (a, ch) (ss_loops s)\<rparr>"
    show "b = b'" if "(b, c) \<in> set (ss_loops ?s)" "(b', c') \<in> set (ss_loops ?s)" "tk_itt (ss_objs ?s ! b) = tk_itt (ss_objs ?s ! b')"
      for b c b' c'
      using d(9) [of b c b' c'] that sub by (simp add: subset_iff)
    show "b < length (ss_objs ?s) \<and> tk_itt (ss_objs ?s ! b) = i \<and> (\<not> tk_done (ss_objs ?s ! b) \<longrightarrow> b \<in> fst ` set (ss_loops ?s))"
      if "(i, b) \<in> set (ss_tasks ?s)" for i b
      using d(3,4) [of i b] keep [of i b] that by simp
    show "b < length (ss_objs ?s) \<and> (\<not> tk_done (ss_objs ?s ! b) \<longrightarrow> (tk_itt (ss_objs ?s ! b), b) \<in> set (ss_tasks ?s) \<and>
        map_of (pending (ss_router ?s)) (tk_itt (ss_objs ?s ! b)) = Some \<lparr>ent_ch = c, ent_persistent = True\<rparr>)"
      if "(b, c) \<in> set (ss_loops ?s)" for b c
      using d(6,7,8) [of b c] that sub by (simp add: subset_iff)
    show "ch_cap (tk_resultCh t) = 1 \<and> \<not> ch_closed (tk_resultCh t)" if "t \<in> set (ss_objs ?s)" for t
      using d(10) [of t] that by simp
  qed (use d(1) ld in simp_all)
qed

text \<open>Ending a task with an error.\<close>

definition ended :: "nat \<Rightarrow> Session \<Rightarrow> Session \<Rightarrow> bool" where
  "ended a s s' \<longleftrightarrow> (\<exists>u. quiet s u \<and> tk_done (ss_objs u ! a) \<and> quiet (forgetTask (tk_itt (ss_objs s ! a)) u) s')"

lemma endTask_ended:
  assumes "a < length (ss_objs s)" "quiet s u"
  shows "ended a s (endTask e a u)"
proof -
  let ?t = "cancel e (ss_objs u ! a)"
  let ?u = "setTask a ?t u"
  have l: "a < length (ss_objs u)" using assms by (simp add: quiet_length)
  have q: "quiet s ?u" using assms(2) quiet_setTask [of a u ?t] keeps_cancel(1) quiet_trans by blast
  have i: "tk_itt ?t = tk_itt (ss_objs s ! a)"
    using quiet_nth [OF assms(2,1)] keeps_cancel(1) [of "ss_objs u ! a" e] by (simp add: keeps_def)
  have "tk_done (ss_objs ?u ! a)" using l by (simp add: setTask_def keeps_cancel(2))
  then show ?thesis
    unfolding ended_def endTask_def Let_def using q i quiet_cleanup by metis
qed

lemma inv_ended:
  assumes "session_inv s" "a < length (ss_objs s)" "ended a s s'"
    "\<And>b ch. (b, ch) \<in> set (ss_loops s) \<Longrightarrow> tk_itt (ss_objs s ! b) = tk_itt (ss_objs s ! a) \<Longrightarrow> b = a \<or> tk_done (ss_objs s ! b)"
  shows "session_inv s'" "tk_done (ss_objs s' ! a)" "ss_loops s' = ss_loops s" "length (ss_objs s') = length (ss_objs s)"
proof -
  obtain u where u: "quiet s u" "tk_done (ss_objs u ! a)" "quiet (forgetTask (tk_itt (ss_objs s ! a)) u) s'"
    using assms(3) by (auto simp: ended_def)
  have iu: "session_inv u" by (rule inv_quiet [OF assms(1) u(1)])
  have "session_inv (forgetTask (tk_itt (ss_objs s ! a)) u)"
  proof (rule inv_forget [OF iu])
    fix b ch assume b: "(b, ch) \<in> set (ss_loops u)" "tk_itt (ss_objs u ! b) = tk_itt (ss_objs s ! a)"
    then have bs: "(b, ch) \<in> set (ss_loops s)" using quiet_sel [OF u(1)] by simp
    have k: "keeps (ss_objs s ! b) (ss_objs u ! b)"
      using quiet_nth [OF u(1)] session_invD(6) [OF assms(1) bs] by simp
    then show "tk_done (ss_objs u ! b)" using assms(4) [OF bs] b(2) u(2) by (auto simp: keeps_def)
  qed
  then show "session_inv s'" using u(3) by (rule inv_quiet)
  have l: "length (ss_objs u) = length (ss_objs s)" by (rule quiet_length [OF u(1)])
  then show "length (ss_objs s') = length (ss_objs s)" using quiet_length [OF u(3)] by (simp add: forgetTask_def)
  show "tk_done (ss_objs s' ! a)"
    using quiet_nth [OF u(3), of a] u(2) assms(2) l by (simp add: forgetTask_def keeps_def)
  show "ss_loops s' = ss_loops s" using quiet_sel [OF u(1)] quiet_sel [OF u(3)] by (simp add: forgetTask_def)
qed


section \<open>What the operations do\<close>

lemma quiet_setTask_step: "quiet s u \<Longrightarrow> (a < length (ss_objs u) \<Longrightarrow> keeps (ss_objs u ! a) t) \<Longrightarrow> quiet s (setTask a t u)"
  using quiet_trans quiet_setTask by blast

text \<open>The three ways a handler leaves a task: as it was, ended with an error, or finished and cleaned up.\<close>

definition finished :: "nat \<Rightarrow> Session \<Rightarrow> Session \<Rightarrow> bool" where
  "finished a s s' \<longleftrightarrow> quiet (forgetTask (tk_itt (ss_objs s ! a)) s) s'"

lemma cleanup_finished:
  assumes "quiet s u" "a < length (ss_objs s)" "keeps (ss_objs s ! a) t" "quiet u v" 
  shows "finished a s (cleanupTask (tk_itt t) v)"
proof -
  have "quiet (forgetTask (tk_itt (ss_objs s ! a)) s) (forgetTask (tk_itt (ss_objs s ! a)) v)"
    by (rule quiet_forget [OF quiet_trans [OF assms(1,4)]])
  moreover have "tk_itt t = tk_itt (ss_objs s ! a)" using assms(3) by (simp add: keeps_def)
  ultimately show ?thesis using quiet_cleanup quiet_trans unfolding finished_def by metis
qed

lemma retry_effect:
  assumes "a < length (ss_objs s)" "retrySameConnection a s = Done s'"
  shows "quiet s s' \<or> ended a s s'"
proof (cases "tk_streaming (ss_objs s ! a)")
  case True
  then have "s' = endTask ErrStreamingNotRetriable a s" using assms(2) by (simp add: retrySameConnection_def)
  then show ?thesis using endTask_ended [OF assms(1) quiet_refl] by simp
next
  case False
  obtain imm t where i: "rereadImmediate (ss_params s) (restartRead (ss_objs s ! a)) = (imm, t)" by force
  let ?u = "setTask a t s"
  have q: "quiet s ?u"
    using keeps_trans [OF keeps_restart keeps_rereadImmediate [OF i]] by (rule quiet_setTask)
  note e = endTask_ended [OF assms(1)]
  show ?thesis
  proof (cases imm)
    case (Inl err)
    then show ?thesis using assms(2) False i e [OF q] by (auto simp: retrySameConnection_def Let_def)
  next
    case (Inr d)
    obtain b where b: "buildSCSICommandPDU (tk_cmd t) (tk_itt t) (tk_cmdSN t) (ss_expStatSN ?u) d = Done b"
      using assms(2) False i Inr by (auto simp: retrySameConnection_def Let_def bindStep_Done)
    show ?thesis
    proof (cases b)
      case (Inl err)
      then show ?thesis using assms(2) False i Inr b e [OF q] by (auto simp: retrySameConnection_def Let_def)
    next
      case raw: (Inr raw)
      obtain ok v where v: "sendPDU raw ?u = (ok, v)" by force
      have "quiet s v" using q quiet_sendPDU [OF v] by (rule quiet_trans)
      then show ?thesis
        using assms(2) False i Inr b raw v e by (cases ok) (auto simp: retrySameConnection_def Let_def)
    qed
  qed
qed

lemma receiveDataIn_effect:
  assumes "a < length (ss_objs s)" "receiveDataIn p a s = Done (cont, s')"
  shows "cont \<and> quiet s s' \<or> \<not> cont \<and> finished a s s'"
proof -
  define u where "u = (if di_HasStatus p then updateStatSN (di_StatSN p) (noteWindow (di_ExpCmdSN p) (di_MaxCmdSN p) s)
    else noteWindow (di_ExpCmdSN p) (di_MaxCmdSN p) s)"
  have q: "quiet s u" using quiet_trans [OF quiet_simple(1) quiet_simple(2)] quiet_simple(1) by (simp add: u_def)
  have run: "receiveDataIn p a s = bindStep (handleDataIn (ss_expStatSN u) p (ss_objs u ! a) (ss_write u)) (\<lambda>(t, w).
      if di_HasStatus p then Done (False, cleanupTask (tk_itt t) (setTask a t (u\<lparr>ss_write := w\<rparr>)))
      else Done (True, setTask a t (u\<lparr>ss_write := w\<rparr>)))"
    unfolding receiveDataIn_def Let_def u_def ..
  obtain t w where t: "handleDataIn (ss_expStatSN u) p (ss_objs u ! a) (ss_write u) = Done (t, w)"
    using assms(2) unfolding run bindStep_Done by auto
  have k: "keeps (ss_objs s ! a) t"
    using quiet_nth [OF q assms(1)] keeps_handleDataIn [OF t] keeps_trans by blast
  have q2: "quiet u (setTask a t (u\<lparr>ss_write := w\<rparr>))"
    by (rule quiet_setTask_step [OF quiet_simple(4)]) (simp add: keeps_handleDataIn [OF t])
  have r: "(cont, s') = (if di_HasStatus p then (False, cleanupTask (tk_itt t) (setTask a t (u\<lparr>ss_write := w\<rparr>)))
      else (True, setTask a t (u\<lparr>ss_write := w\<rparr>)))"
    using assms(2) t unfolding run by (simp split: if_splits)
  show ?thesis
    using r cleanup_finished [OF q assms(1) k q2] quiet_trans [OF q q2] by (auto split: if_splits)
qed

lemma quiet_note_stat: "quiet s (updateStatSN n (noteWindow e m s))"
  by (rule quiet_trans [OF quiet_simple(1) quiet_simple(2)])

lemma receiveR2T_effect:
  assumes "a < length (ss_objs s)" "receiveR2T p a s = Done (cont, s')"
  shows "cont \<and> quiet s s' \<or> \<not> cont \<and> ended a s s'"
proof -
  define u where "u = updateStatSN (rt_StatSN p) (noteWindow (rt_ExpCmdSN p) (rt_MaxCmdSN p) s)"
  have q: "quiet s u" unfolding u_def by (rule quiet_note_stat)
  have run: "receiveR2T p a s = bindStep (handleR2T p (\<lambda>_. ss_expStatSN u) (ss_params u) (sessionStamp u) (ss_objs u ! a)) (\<lambda>burst.
      case burst of None \<Rightarrow> Stuck
      | Some (err, t, ps) \<Rightarrow> (case err of Some e \<Rightarrow> Done (False, endTask e a (sentPDUs ps (setTask a t u)))
                               | None \<Rightarrow> Done (True, sentPDUs ps (setTask a t u))))"
    unfolding receiveR2T_def Let_def u_def ..
  obtain burst where "handleR2T p (\<lambda>_. ss_expStatSN u) (ss_params u) (sessionStamp u) (ss_objs u ! a) = Done burst" "burst \<noteq> None"
    using assms(2) unfolding run by (cases "handleR2T p (\<lambda>_. ss_expStatSN u) (ss_params u) (sessionStamp u) (ss_objs u ! a)")
      (auto split: option.splits)
  then obtain err t ps where t: "handleR2T p (\<lambda>_. ss_expStatSN u) (ss_params u) (sessionStamp u) (ss_objs u ! a) = Done (Some (err, t, ps))"
    by auto
  have r: "(cont, s') = (case err of Some e \<Rightarrow> (False, endTask e a (sentPDUs ps (setTask a t u))) | None \<Rightarrow> (True, sentPDUs ps (setTask a t u)))"
    using assms(2) unfolding run t by (simp split: option.splits)
  have "quiet s (sentPDUs ps (setTask a t u))"
    by (rule quiet_trans [OF quiet_setTask_step [OF q keeps_handleR2T [OF t]] quiet_simple(3)])
  then show ?thesis using r endTask_ended [OF assms(1)] by (cases err) auto
qed

lemma receiveSCSIResponse_effect:
  assumes "a < length (ss_objs s)" "receiveSCSIResponse p a s = Done (cont, s')"
  shows "\<not> cont \<and> finished a s s'"
proof -
  define u where "u = updateStatSN (sr_StatSN p) (noteWindow (sr_ExpCmdSN p) (sr_MaxCmdSN p) s)"
  have q: "quiet s u" unfolding u_def by (rule quiet_note_stat)
  obtain t where t: "handleSCSIResponse p (ss_objs u ! a) = Done t" and r: "\<not> cont" "s' = cleanupTask (tk_itt t) (setTask a t u)"
    using assms(2) by (auto simp: receiveSCSIResponse_def Let_def bindStep_Done u_def [symmetric])
  have k: "keeps (ss_objs s ! a) t"
    using quiet_nth [OF q assms(1)] keeps_handleSCSIResponse [OF t] keeps_trans by blast
  have "quiet u (setTask a t u)" by (rule quiet_setTask) (rule keeps_handleSCSIResponse [OF t])
  then show ?thesis using r cleanup_finished [OF q assms(1) k] by simp
qed

lemma ended_after:
  assumes "quiet s u" "a < length (ss_objs s)" "ended a u s'"
  shows "ended a s s'"
proof -
  have "tk_itt (ss_objs u ! a) = tk_itt (ss_objs s ! a)" using quiet_nth [OF assms(1,2)] by (simp add: keeps_def)
  then show ?thesis using assms(3) quiet_trans [OF assms(1)] unfolding ended_def by auto
qed

lemma receiveReject_effect:
  assumes "a < length (ss_objs s)" "receiveReject p a s = Done (cont, s')"
  shows "cont \<and> quiet s s' \<or> ended a s s'"
proof -
  define u where "u = updateStatSN (rj_StatSN p) (noteWindow (rj_ExpCmdSN p) (rj_MaxCmdSN p) s)"
  have q: "quiet s u" unfolding u_def by (rule quiet_note_stat)
  have l: "a < length (ss_objs u)" using assms(1) by (simp add: quiet_length [OF q])
  show ?thesis
  proof (cases "tk_erl (ss_objs u ! a) \<ge> 1")
    case True
    then have "retrySameConnection a u = Done s' \<and> cont"
      using assms(2) by (auto simp: receiveReject_def Let_def bindStep_Done u_def [symmetric])
    then show ?thesis using retry_effect [OF l] ended_after [OF q assms(1)] quiet_trans [OF q] by blast
  next
    case False
    then have "s' = endTask (ErrRejected (rj_Reason p) (tk_itt (ss_objs u ! a))) a u"
      using assms(2) by (auto simp: receiveReject_def Let_def u_def [symmetric])
    then show ?thesis using endTask_ended [OF assms(1) q] by simp
  qed
qed

lemma taskReceive_effect:
  assumes "a < length (ss_objs s)" "taskReceive raw a s = Done (cont, s')"
  shows "cont \<and> quiet s s' \<or> ended a s s' \<or> \<not> cont \<and> finished a s s'"
proof (cases "DecodeBHS (raw_BHS raw)")
  case (Inl e)
  then show ?thesis using assms(2) endTask_ended [OF assms(1) quiet_refl] by (auto simp: taskReceive_def)
next
  case (Inr p)
  show ?thesis
    using assms(2) Inr
    by (cases p) (auto simp: taskReceive_def quiet_refl dest!: receiveDataIn_effect [OF assms(1)] receiveR2T_effect [OF assms(1)]
        receiveSCSIResponse_effect [OF assms(1)] receiveReject_effect [OF assms(1)] split: if_splits)
qed

lemma quiet_unloop: "quiet s u \<Longrightarrow> quiet (s\<lparr>ss_loops := remove1 p (ss_loops s)\<rparr>) (u\<lparr>ss_loops := remove1 p (ss_loops u)\<rparr>)"
  by (simp add: quiet_def)

lemma inv_taskReceive:
  assumes "session_inv s" "(a, ch) \<in> set (ss_loops s)" "taskReceive raw a s = Done (cont, s')"
  shows "session_inv (if cont then s' else s'\<lparr>ss_loops := remove1 (a, ch) (ss_loops s')\<rparr>)"
proof -
  have a: "a < length (ss_objs s)" by (rule session_invD(6) [OF assms(1,2)])
  consider "cont" "quiet s s'" | "ended a s s'" | "\<not> cont" "finished a s s'"
    using taskReceive_effect [OF a assms(3)] by blast
  then show ?thesis
  proof cases
    case 1
    then show ?thesis using inv_quiet [OF assms(1)] by simp
  next
    case 2
    have "b = a \<or> tk_done (ss_objs s ! b)" if "(b, c) \<in> set (ss_loops s)" "tk_itt (ss_objs s ! b) = tk_itt (ss_objs s ! a)" for b c
      using session_invD(9) [OF assms(1) that(1) assms(2) that(2)] by simp
    note e = inv_ended [OF assms(1) a 2 this]
    show ?thesis using e(1) inv_unloop [OF e(1) _ e(2), where ch = ch] e(4) a by simp
  next
    case 3
    let ?f = "forgetTask (tk_itt (ss_objs s ! a)) s"
    have "quiet (?f\<lparr>ss_loops := remove1 (a, ch) (ss_loops ?f)\<rparr>) (s'\<lparr>ss_loops := remove1 (a, ch) (ss_loops s')\<rparr>)"
      using 3(2) unfolding finished_def by (rule quiet_unloop)
    moreover have "session_inv (?f\<lparr>ss_loops := remove1 (a, ch) (ss_loops ?f)\<rparr>)"
      using inv_finish [OF assms(1,2) refl] by (simp add: forgetTask_def)
    ultimately show ?thesis using 3(1) inv_quiet by simp
  qed
qed


section \<open>Submission\<close>

lemma submitUnsolicited_effect:
  assumes "a < length (ss_objs s)" "submitUnsolicited a ch s = Done (res, s')"
  shows "case res of Inl e \<Rightarrow> finished a s s' | Inr b \<Rightarrow> b = a \<and> (\<exists>u. quiet s u \<and> s' = u\<lparr>ss_loops := (a, ch) # ss_loops u\<rparr>)"
proof (cases "tk_isWrite (ss_objs s ! a) \<and> \<not> np_InitialR2T (ss_params s)")
  case True
  let ?burst = "sendUnsolicitedDataOut (\<lambda>_. ss_expStatSN s) (ss_params s) (sessionStamp s) (ss_objs s ! a)"
  have run: "submitUnsolicited a ch s = bindStep ?burst (\<lambda>burst.
      case burst of None \<Rightarrow> Stuck
      | Some (err, t, ps) \<Rightarrow>
          (case err of Some e \<Rightarrow> Done (Inl e, forgetTask (tk_itt t) (sentPDUs ps (setTask a t s)))
           | None \<Rightarrow> Done (Inr a, (sentPDUs ps (setTask a t s))\<lparr>ss_loops := (a, ch) # ss_loops (sentPDUs ps (setTask a t s))\<rparr>)))"
    using True by (simp add: submitUnsolicited_def Let_def)
  obtain burst where "?burst = Done burst" "burst \<noteq> None"
    using assms(2) unfolding run by (cases ?burst) (auto split: option.splits)
  then obtain err t ps where t: "?burst = Done (Some (err, t, ps))" by auto
  have k: "keeps (ss_objs s ! a) t" by (rule keeps_sendUnsolicited [OF t])
  have q: "quiet s (sentPDUs ps (setTask a t s))"
    by (rule quiet_trans [OF quiet_setTask quiet_simple(3)]) (rule k)
  show ?thesis
  proof (cases err)
    case None
    then show ?thesis using assms(2) q unfolding run t by auto
  next
    case (Some e)
    have "tk_itt t = tk_itt (ss_objs s ! a)" using k by (simp add: keeps_def)
    then show ?thesis using assms(2) quiet_forget [OF q] Some unfolding run t finished_def by auto
  qed
next
  case False
  then have "res = Inr a" "s' = s\<lparr>ss_loops := (a, ch) # ss_loops s\<rparr>"
    using assms(2) by (auto simp: submitUnsolicited_def Let_def)
  then show ?thesis using quiet_refl by (auto intro!: exI [of _ s])
qed

lemma finished_after: "quiet s u \<Longrightarrow> a < length (ss_objs s) \<Longrightarrow> finished a u s' \<Longrightarrow> finished a s s'"
  using quiet_nth [of s u a] quiet_forget [of s u] quiet_trans unfolding finished_def keeps_def by metis

lemma finished_forget: "quiet s u \<Longrightarrow> a < length (ss_objs s) \<Longrightarrow> keeps (ss_objs s ! a) t \<Longrightarrow> finished a s (forgetTask (tk_itt t) u)"
  using quiet_forget unfolding finished_def keeps_def by simp

lemma submitCommand_effect:
  assumes "a < length (ss_objs s)" "submitCommand a ch s = Done (res, s')"
  shows "case res of Inl e \<Rightarrow> finished a s s' | Inr b \<Rightarrow> b = a \<and> (\<exists>u. quiet s u \<and> s' = u\<lparr>ss_loops := (a, ch) # ss_loops u\<rparr>)"
proof -
  let ?imm = "\<lambda>t. case tk_reader t of
      Some r \<Rightarrow> if tk_isWrite t \<and> np_ImmediateData (ss_params s) then readImmediate (ss_params s) r t else (Inr [], t)
    | None \<Rightarrow> (Inr [], t)"
  obtain imm t where i: "?imm (ss_objs s ! a) = (imm, t)" by force
  have k: "keeps (ss_objs s ! a) t"
    using i keeps_readImmediate keeps_refl by (auto split: option.splits if_splits)
  let ?u = "setTask a t s"
  have q: "quiet s ?u" by (rule quiet_setTask) (rule k)
  have run: "submitCommand a ch s = (case imm of
      Inl e \<Rightarrow> Done (Inl e, forgetTask (tk_itt t) ?u)
    | Inr d \<Rightarrow> bindStep (buildSCSICommandPDU (tk_cmd t) (tk_itt t) (tk_cmdSN t) (ss_expStatSN ?u) d) (\<lambda>built.
        case built of Inl e \<Rightarrow> Done (Inl (ErrEncode e), forgetTask (tk_itt t) ?u)
        | Inr raw \<Rightarrow> (case sendPDU raw ?u of (False, s) \<Rightarrow> Done (Inl ErrContext, forgetTask (tk_itt t) s)
                      | (True, s) \<Rightarrow> submitUnsolicited a ch s)))"
    unfolding submitCommand_def Let_def i by simp
  show ?thesis
  proof (cases imm)
    case (Inl e)
    then show ?thesis using assms(2) finished_forget [OF q assms(1) k] unfolding run by auto
  next
    case (Inr d)
    obtain b where b: "buildSCSICommandPDU (tk_cmd t) (tk_itt t) (tk_cmdSN t) (ss_expStatSN ?u) d = Done b"
      using assms(2) unfolding run Inr by (auto simp: bindStep_Done)
    show ?thesis
    proof (cases b)
      case (Inl e)
      then show ?thesis using assms(2) b finished_forget [OF q assms(1) k] unfolding run Inr by auto
    next
      case raw: (Inr raw)
      obtain ok v where v: "sendPDU raw ?u = (ok, v)" by force
      have qv: "quiet s v" using q quiet_sendPDU [OF v] by (rule quiet_trans)
      have l: "a < length (ss_objs v)" using assms(1) by (simp add: quiet_length [OF qv])
      show ?thesis
      proof (cases ok)
        case True
        then have "submitUnsolicited a ch v = Done (res, s')" using assms(2) b raw v unfolding run Inr by simp
        from submitUnsolicited_effect [OF l this] show ?thesis
          using finished_after [OF qv assms(1)] quiet_trans [OF qv] by (cases res) auto
      next
        case False
        then show ?thesis
          using assms(2) b raw v finished_forget [OF qv assms(1) k] unfolding run Inr by auto
      qed
    qed
  qed
qed

definition tag_free :: "u32 \<Rightarrow> Session \<Rightarrow> bool" where
  "tag_free itt s \<longleftrightarrow> itt \<notin> fst ` set (ss_tasks s) \<and> (\<forall>(a, ch) \<in> set (ss_loops s). tk_itt (ss_objs s ! a) \<noteq> itt)"

lemma set_update_fresh: "k \<notin> fst ` set xs \<Longrightarrow> set (AList.update k v xs) = insert (k, v) (set xs)"
  by (induction xs) auto

lemma inv_new:
  assumes "session_inv s" "tag_free itt s" "tk_itt t = itt" "tk_resultCh t = make_chan 1"
    "map_of (pending r) = (map_of (pending (ss_router s)))(itt \<mapsto> \<lparr>ent_ch = ch, ent_persistent = True\<rparr>)"
  shows "session_inv (s\<lparr>ss_router := r, ss_objs := ss_objs s @ [t],
      ss_tasks := AList.update itt (length (ss_objs s)) (ss_tasks s), ss_loops := (length (ss_objs s), ch) # ss_loops s\<rparr>)"
    (is "session_inv ?s")
proof -
  note d = session_invD [OF assms(1)]
  let ?a = "length (ss_objs s)"
  have nt: "itt \<notin> fst ` set (ss_tasks s)" and nl: "(b, c) \<in> set (ss_loops s) \<Longrightarrow> tk_itt (ss_objs s ! b) \<noteq> itt" for b c
    using assms(2) by (auto simp: tag_free_def)
  have up: "set (AList.update itt ?a (ss_tasks s)) = insert (itt, ?a) (set (ss_tasks s))"
    by (rule set_update_fresh [OF nt])
  have dt: "distinct (map fst (AList.update itt ?a (ss_tasks s)))" using d(1) by (rule distinct_update)
  have new: "b \<noteq> ?a" if "(b, c) \<in> set (ss_loops s)" for b c using d(6) [OF that] by simp
  show ?thesis
  proof (rule session_invI)
    show "b < length (ss_objs ?s) \<and> tk_itt (ss_objs ?s ! b) = i \<and> (\<not> tk_done (ss_objs ?s ! b) \<longrightarrow> b \<in> fst ` set (ss_loops ?s))"
      if "(i, b) \<in> set (ss_tasks ?s)" for i b
      using that d(3,4,5) [of i b] assms(3) by (auto simp: up nth_append)
    show "b < length (ss_objs ?s) \<and> (\<not> tk_done (ss_objs ?s ! b) \<longrightarrow> (tk_itt (ss_objs ?s ! b), b) \<in> set (ss_tasks ?s) \<and>
        map_of (pending (ss_router ?s)) (tk_itt (ss_objs ?s ! b)) = Some \<lparr>ent_ch = c, ent_persistent = True\<rparr>)"
      if "(b, c) \<in> set (ss_loops ?s)" for b c
      using that d(6,7,8) [of b c] nl [of b c] assms(3,5) by (auto simp: up nth_append)
    show "b = b'" if "(b, c) \<in> set (ss_loops ?s)" "(b', c') \<in> set (ss_loops ?s)" "tk_itt (ss_objs ?s ! b) = tk_itt (ss_objs ?s ! b')" for b c b' c'
      using that d(9) [of b c b' c'] d(6) [of b c] d(6) [of b' c'] nl [of b c] nl [of b' c'] assms(3) by (auto simp: nth_append)
    show "ch_cap (tk_resultCh x) = 1 \<and> \<not> ch_closed (tk_resultCh x)" if "x \<in> set (ss_objs ?s)" for x
      using that d(10) [of x] assms(4) by (auto simp: make_chan_def)
    show "distinct (map fst (ss_loops ?s))" using d(2) new by force
  qed (use dt in simp)
qed


lemma inv_submitGranted:
  assumes "session_inv s" "tag_free (fst (AllocateITT (ss_router s))) s" "submitGranted depth cmd sn s = Done (res, s')"
  shows "session_inv s'"
proof -
  obtain itt r0 where al: "AllocateITT (ss_router s) = (itt, r0)" by force
  obtain ch r where rp: "RegisterPersistent itt r0 = (ch, r)" by force
  let ?a = "length (ss_objs s)"
  let ?t = "makeTask depth cmd itt sn (s\<lparr>ss_router := r\<rparr>)"
  let ?s0 = "s\<lparr>ss_router := r, ss_objs := ss_objs s @ [?t], ss_tasks := AList.update itt ?a (ss_tasks s)\<rparr>"
  let ?s1 = "?s0\<lparr>ss_loops := (?a, ch) # ss_loops ?s0\<rparr>"
  have run: "submitCommand ?a ch ?s0 = Done (res, s')"
    using assms(3) by (simp add: submitGranted_def al rp Let_def)
  have i: "tk_itt ?t = itt" "tk_resultCh ?t = make_chan 1"
    by (simp_all add: makeTask_def newTask_def Let_def)
  have p: "map_of (pending r) = (map_of (pending (ss_router s)))(itt \<mapsto> \<lparr>ent_ch = ch, ent_persistent = True\<rparr>)"
    by (rule routes.new_route [OF al rp])
  have i1: "session_inv ?s1"
    using inv_new [OF assms(1) _ i p] assms(2) by (simp add: al)
  have e: "case res of Inl e \<Rightarrow> finished ?a ?s0 s' | Inr b \<Rightarrow> b = ?a \<and> (\<exists>u. quiet ?s0 u \<and> s' = u\<lparr>ss_loops := (?a, ch) # ss_loops u\<rparr>)"
    by (rule submitCommand_effect [OF _ run]) simp
  show ?thesis
  proof (cases res)
    case (Inl err)
    have "session_inv ((forgetTask itt ?s1)\<lparr>ss_loops := remove1 (?a, ch) (ss_loops ?s1)\<rparr>)"
      by (rule inv_finish [OF i1]) (simp_all add: i(1))
    moreover have "quiet ((forgetTask itt ?s1)\<lparr>ss_loops := remove1 (?a, ch) (ss_loops ?s1)\<rparr>) s'"
      using e Inl i(1) unfolding finished_def quiet_def forgetTask_def by simp
    ultimately show ?thesis by (rule inv_quiet)
  next
    case (Inr b)
    then obtain u where "quiet ?s0 u" "s' = u\<lparr>ss_loops := (?a, ch) # ss_loops u\<rparr>" using e by auto
    then have "quiet ?s1 s'" unfolding quiet_def by simp
    then show ?thesis by (rule inv_quiet [OF i1])
  qed
qed

section \<open>The other operations\<close>

lemma delete_absent: "k \<notin> fst ` set xs \<Longrightarrow> AList.delete k xs = xs"
  by (induction xs) auto

lemma tracked_loops:
  assumes "session_inv s" "(itt, a) \<in> set (ss_tasks s)" "(b, c) \<in> set (ss_loops s)" "tk_itt (ss_objs s ! b) = tk_itt (ss_objs s ! a)"
  shows "b = a \<or> tk_done (ss_objs s ! b)"
  using session_invD(4) [OF assms(1,2)] session_invD(7) [OF assms(1,3)] session_invD(1) [OF assms(1)] assms(2,4)
  by (metis eq_key_imp_eq_value)

text \<open>Dropping a tag that no live task has, in the router only.\<close>

lemma inv_pending:
  assumes "session_inv s" "tag_free itt s" "\<And>i. i \<noteq> itt \<Longrightarrow> map_of (pending r) i = map_of (pending (ss_router s)) i"
  shows "session_inv (s\<lparr>ss_router := r\<rparr>)"
proof (rule session_invI)
  note d = session_invD [OF assms(1)]
  let ?s = "s\<lparr>ss_router := r\<rparr>"
  show "a < length (ss_objs ?s) \<and> (\<not> tk_done (ss_objs ?s ! a) \<longrightarrow> (tk_itt (ss_objs ?s ! a), a) \<in> set (ss_tasks ?s) \<and>
      map_of (pending (ss_router ?s)) (tk_itt (ss_objs ?s ! a)) = Some \<lparr>ent_ch = ch, ent_persistent = True\<rparr>)"
    if "(a, ch) \<in> set (ss_loops ?s)" for a ch
    using that d(6,7,8) [of a ch] assms(2,3) by (auto simp: tag_free_def)
qed (use session_invD [OF assms(1)] in auto)

lemma inv_dispatch:
  assumes "session_inv s" "Dispatch itt raw (ss_router s) = Dispatched ok r"
  shows "session_inv (s\<lparr>ss_router := r\<rparr>)"
proof (rule session_invI)
  note d = session_invD [OF assms(1)]
  have p: "map_of (pending r) i = Some e" if "map_of (pending (ss_router s)) i = Some e" "ent_persistent e" for i e
    using routes.delivers_route [of itt raw "ss_router s" r i "ent_ch e"] assms(2) that by (cases e) auto
  let ?s = "s\<lparr>ss_router := r\<rparr>"
  show "a < length (ss_objs ?s) \<and> (\<not> tk_done (ss_objs ?s ! a) \<longrightarrow> (tk_itt (ss_objs ?s ! a), a) \<in> set (ss_tasks ?s) \<and>
      map_of (pending (ss_router ?s)) (tk_itt (ss_objs ?s ! a)) = Some \<lparr>ent_ch = ch, ent_persistent = True\<rparr>)"
    if "(a, ch) \<in> set (ss_loops ?s)" for a ch
    using that d(6,7,8) [of a ch] p by auto
qed (use session_invD [OF assms(1)] in auto)

text \<open>An end by the session: a task that is tracked is cancelled and dropped.\<close>

lemma cancelled_ended:
  assumes "session_inv s" "(itt, a) \<in> set (ss_tasks s)"
  shows "ended a s (forgetTask itt (setTask a (cancel e (ss_objs s ! a)) s))"
proof -
  let ?u = "setTask a (cancel e (ss_objs s ! a)) s"
  have "a < length (ss_objs s)" "tk_itt (ss_objs s ! a) = itt" using session_invD(3,4) [OF assms(1,2)] by simp_all
  moreover have "quiet s ?u" by (rule quiet_setTask) (rule keeps_cancel)
  moreover have "tk_done (ss_objs ?u ! a)" using calculation(1) by (simp add: setTask_def keeps_cancel(2))
  ultimately show ?thesis unfolding ended_def using quiet_refl by blast
qed

lemma inv_ended_tracked:
  assumes "session_inv s" "(itt, a) \<in> set (ss_tasks s)" "ended a s s'"
  shows "session_inv s'" "tk_done (ss_objs s' ! a)" "ss_loops s' = ss_loops s" "length (ss_objs s') = length (ss_objs s)"
  using inv_ended [OF assms(1) session_invD(3) [OF assms(1,2)] assms(3) tracked_loops [OF assms(1,2)]] by auto

lemma abort_cases:
  "cleanupAbortedTask itt s =
     (case map_of (ss_tasks s) itt of None \<Rightarrow> unregisterTag itt s
      | Some a \<Rightarrow> forgetTask itt (setTask a (cancel ErrTaskAborted (ss_objs s ! a)) s))"
  by (simp add: cleanupAbortedTask_def unregisterTag_def forgetTask_def setTask_def Let_def split: option.split)

lemma inv_abort:
  assumes "session_inv s"
  shows "session_inv (cleanupAbortedTask itt s)"
proof (cases "map_of (ss_tasks s) itt")
  case None
  then have n: "itt \<notin> fst ` set (ss_tasks s)" by (simp add: map_of_eq_None_iff)
  then have "unregisterTag itt s = forgetTask itt s" by (simp add: unregisterTag_def forgetTask_def delete_absent)
  moreover have "session_inv (forgetTask itt s)"
    using n session_invD(7) [OF assms] by (intro inv_forget [OF assms]) force
  ultimately show ?thesis using None by (simp add: abort_cases)
next
  case (Some a)
  then have m: "(itt, a) \<in> set (ss_tasks s)" by (rule map_of_SomeD)
  show ?thesis
    using inv_ended_tracked(1) [OF assms m cancelled_ended [OF assms m]] Some by (simp add: abort_cases)
qed

lemma closeTask_forget:
  "closeTask (itt, a) s = forgetTask itt (setTask a (cancel ErrSessionClosed (ss_objs s ! a)) s)"
  by (simp add: closeTask_def unregisterTag_def forgetTask_def setTask_def Let_def)

lemma cancel_result: "ch_cap (tk_resultCh t) = 1 \<Longrightarrow> \<not> ch_closed (tk_resultCh t) \<Longrightarrow> ch_buf (tk_resultCh (cancel e t)) \<noteq> []"
  by (auto simp: cancel_def closeReaderWithError_def Let_def chan_send_def split: SendResult.split)

lemma closeTasks:
  assumes "session_inv s" "distinct (map fst xs)" "set xs \<subseteq> set (ss_tasks s)"
  shows "session_inv (fold closeTask xs s) \<and> set (ss_tasks (fold closeTask xs s)) = set (ss_tasks s) - set xs \<and>
    ss_loops (fold closeTask xs s) = ss_loops s \<and> length (ss_objs (fold closeTask xs s)) = length (ss_objs s) \<and>
    (\<forall>a. a \<notin> snd ` set xs \<longrightarrow> ss_objs (fold closeTask xs s) ! a = ss_objs s ! a) \<and>
    (\<forall>a \<in> snd ` set xs. tk_done (ss_objs (fold closeTask xs s) ! a) \<and> ch_buf (tk_resultCh (ss_objs (fold closeTask xs s) ! a)) \<noteq> [])"
  using assms
proof (induction xs arbitrary: s)
  case Nil
  then show ?case by simp
next
  case (Cons p xs)
  obtain itt a where p: "p = (itt, a)" by force
  let ?s = "closeTask p s"
  have m: "(itt, a) \<in> set (ss_tasks s)" using Cons.prems(3) p by simp
  have e: "ended a s ?s" unfolding p closeTask_forget by (rule cancelled_ended [OF Cons.prems(1) m])
  note i = inv_ended_tracked [OF Cons.prems(1) m e]
  have a: "a < length (ss_objs s)" by (rule session_invD(3) [OF Cons.prems(1) m])
  have t: "set (ss_tasks ?s) = set (ss_tasks s) - {(itt, a)}"
    using session_invD(1) [OF Cons.prems(1)] m
    by (auto simp: p closeTask_forget forgetTask_def setTask_def AList.delete_eq dest: eq_key_imp_eq_value)
  have o: "ss_objs ?s = (ss_objs s)[a := cancel ErrSessionClosed (ss_objs s ! a)]"
    by (simp add: p closeTask_forget forgetTask_def setTask_def)
  have ob: "b \<noteq> a \<Longrightarrow> ss_objs (closeTask (itt, a) s) ! b = ss_objs s ! b" for b
    using o by (simp add: p)
  have r: "tk_done (ss_objs ?s ! a)" "ch_buf (tk_resultCh (ss_objs ?s ! a)) \<noteq> []"
    using session_invD(10) [OF Cons.prems(1), of "ss_objs s ! a"] a by (simp_all add: o cancel_result keeps_cancel(2))
  have na: "a \<notin> snd ` set xs"
  proof
    assume "a \<in> snd ` set xs"
    then obtain j where j: "(j, a) \<in> set xs" by force
    then have "(j, a) \<in> set (ss_tasks s)" using Cons.prems(3) by auto
    then have "j = itt" using session_invD(4) [OF Cons.prems(1)] m by metis
    then show False using j Cons.prems(2) p by force
  qed
  have "set xs \<subseteq> set (ss_tasks ?s)" using Cons.prems(2,3) t p by force
  note IH = Cons.IH [OF i(1) _ this]
  show ?case
    using IH Cons.prems(2) i(3,4) t r na by (auto simp: p ob)
qed


lemma quiet_NOPIn: "quiet s (handleUnsolicitedNOPIn raw s)"
proof -
  let ?n = "NOPIn_UnmarshalBHS (raw_BHS raw)"
  let ?u = "updateStatSN (ni_StatSN ?n) (noteWindow (ni_ExpCmdSN ?n) (ni_MaxCmdSN ?n) s)"
  have q: "quiet s ?u" by (rule quiet_note_stat)
  have "quiet ?u (snd (sendPDU p ?u))" for p using quiet_sendPDU [of p ?u] by (metis prod.collapse)
  then show ?thesis
    using q quiet_trans [OF q] by (auto simp: handleUnsolicitedNOPIn_def Let_def split: sum.split)
qed

lemma quiet_connectionLost: "quiet s (fst (connectionLost e s))"
  using quiet_trans [OF quiet_simple(11) quiet_simple(9)]
  by (auto simp: connectionLost_def triggerReconnect_def Let_def quiet_refl intro: quiet_simple)

lemma quiet_async: "quiet s (fst (handleAsyncMsg raw s))"
proof -
  let ?m = "AsyncMsg_UnmarshalBHS (raw_BHS raw)"
  let ?u = "dispatchAsyncEvent (asyncEventOf ?m (raw_DataSegment raw))
    (updateStatSN (am_StatSN ?m) (noteWindow (am_ExpCmdSN ?m) (am_MaxCmdSN ?m) s))"
  have q: "quiet s ?u" by (rule quiet_trans [OF quiet_note_stat quiet_simple(10)])
  have "quiet s (fst (connectionLost e ?u))" "quiet s ((setErr e ?u)\<lparr>ss_cancelled := True\<rparr>)" for e
    using quiet_trans [OF q quiet_connectionLost] quiet_trans [OF quiet_trans [OF q quiet_simple(8)] quiet_simple(7)] by blast+
  then show ?thesis using q by (simp add: handleAsyncMsg_def Let_def)
qed

lemma inv_unsolicited:
  assumes "session_inv s" "handleUnsolicited raw s = Done (s', sp)"
  shows "session_inv s'"
proof -
  have reject: "session_inv s'" if r: "handleUnsolicitedReject p s = Done s'" for p
  proof -
    define u where "u = noteWindow (rj_ExpCmdSN p) (rj_MaxCmdSN p) (updateStatSN (rj_StatSN p) s)"
    have q: "quiet s u" unfolding u_def by (rule quiet_trans [OF quiet_simple(2) quiet_simple(1)])
    have iu: "session_inv u" by (rule inv_quiet [OF assms(1) q])
    let ?itt = "Uint32 (slice (rj_Data p) 16 20)"
    have run: "handleUnsolicitedReject p s = (if length (rj_Data p) \<ge> 20 then if ?itt \<noteq> 0xFFFFFFFF
        then (case map_of (ss_tasks u) ?itt of None \<Rightarrow> Done u
              | Some a \<Rightarrow> if tk_erl (ss_objs u ! a) \<ge> 1 then retrySameConnection a u
                  else Done (cleanupTask ?itt (setTask a (cancel (ErrRejected (rj_Reason p) ?itt) (ss_objs u ! a)) u)))
        else Done u else Done u)"
      unfolding handleUnsolicitedReject_def Let_def u_def ..
    show ?thesis
    proof (cases "s' = u")
      case False
      then obtain a where a: "map_of (ss_tasks u) ?itt = Some a"
        "Done s' = (if tk_erl (ss_objs u ! a) \<ge> 1 then retrySameConnection a u
           else Done (cleanupTask ?itt (setTask a (cancel (ErrRejected (rj_Reason p) ?itt) (ss_objs u ! a)) u)))"
        using r unfolding run by (auto split: if_splits option.splits)
      have m: "(?itt, a) \<in> set (ss_tasks u)" using a(1) by (rule map_of_SomeD)
      have "quiet u s' \<or> ended a u s'"
      proof (cases "tk_erl (ss_objs u ! a) \<ge> 1")
        case True
        then show ?thesis using a(2) retry_effect [OF session_invD(3) [OF iu m]] by simp
      next
        case False
        then have "s' = cleanupTask ?itt (setTask a (cancel (ErrRejected (rj_Reason p) ?itt) (ss_objs u ! a)) u)"
          using a(2) by simp
        then show ?thesis
          using cancelled_ended [OF iu m] quiet_cleanup quiet_trans unfolding ended_def by blast
      qed
      then show ?thesis using inv_quiet [OF iu] inv_ended_tracked(1) [OF iu m] by blast
    qed (use iu in simp)
  qed
  show ?thesis
    using assms(2) reject inv_quiet [OF assms(1) quiet_NOPIn [of s raw]] inv_quiet [OF assms(1) quiet_async [of s raw]] assms(1)
    by (auto simp: handleUnsolicited_def Let_def bindStep_Done split: if_splits sum.splits PDU.splits)
qed

section \<open>The steps\<close>

record SessSys =
  sy_s :: Session
  sy_waiting :: "(int \<times> Command) list"

text \<open>
  A submission passes its checks, waits for the window and then runs (or gives up). A tag is given
  out only while no live task has it, which holds until \<open>2 ^ 32 - 1\<close> further ones were allocated.
\<close>

inductive session_step :: "SessSys \<Rightarrow> SessSys \<Rightarrow> bool" where
  ss_enter: "submitCheck s = None \<Longrightarrow>
    session_step \<lparr>sy_s = s, sy_waiting = W\<rparr> \<lparr>sy_s = s, sy_waiting = (depth, cmd) # W\<rparr>"
| ss_submit: "(depth, cmd) \<in> set W \<Longrightarrow> acquireFast (ss_window s) = Granted sn w \<Longrightarrow>
    tag_free (fst (AllocateITT (ss_router s))) s \<Longrightarrow> submitGranted depth cmd sn (s\<lparr>ss_window := w\<rparr>) = Done (res, s') \<Longrightarrow>
    session_step \<lparr>sy_s = s, sy_waiting = W\<rparr> \<lparr>sy_s = s', sy_waiting = remove1 (depth, cmd) W\<rparr>"
| ss_give_up: "session_step \<lparr>sy_s = s, sy_waiting = W\<rparr> \<lparr>sy_s = s, sy_waiting = remove1 p W\<rparr>"
| ss_dispatch: "Dispatch itt raw (ss_router s) = Dispatched ok r \<Longrightarrow>
    session_step \<lparr>sy_s = s, sy_waiting = W\<rparr> \<lparr>sy_s = s\<lparr>ss_router := r\<rparr>, sy_waiting = W\<rparr>"
| ss_task_pdu: "(a, ch) \<in> set (ss_loops s) \<Longrightarrow> receiveFrom ch (ss_router s) = Some (raw, r) \<Longrightarrow>
    taskLoop (Receives raw) a (s\<lparr>ss_router := r\<rparr>) = Done (cont, s') \<Longrightarrow>
    session_step \<lparr>sy_s = s, sy_waiting = W\<rparr>
      \<lparr>sy_s = if cont then s' else s'\<lparr>ss_loops := remove1 (a, ch) (ss_loops s')\<rparr>, sy_waiting = W\<rparr>"
| ss_task_done: "(a, ch) \<in> set (ss_loops s) \<Longrightarrow> tk_done (ss_objs s ! a) \<Longrightarrow> taskLoop TaskDone a s = Done (cont, s') \<Longrightarrow>
    session_step \<lparr>sy_s = s, sy_waiting = W\<rparr> \<lparr>sy_s = s'\<lparr>ss_loops := remove1 (a, ch) (ss_loops s')\<rparr>, sy_waiting = W\<rparr>"
| ss_task_ctx: "(a, ch) \<in> set (ss_loops s) \<Longrightarrow> taskLoop CtxExpired a s = Done (cont, s') \<Longrightarrow>
    session_step \<lparr>sy_s = s, sy_waiting = W\<rparr> \<lparr>sy_s = s'\<lparr>ss_loops := remove1 (a, ch) (ss_loops s')\<rparr>, sy_waiting = W\<rparr>"
| ss_unsolicited: "handleUnsolicited raw s = Done (s', sp) \<Longrightarrow>
    session_step \<lparr>sy_s = s, sy_waiting = W\<rparr> \<lparr>sy_s = s', sy_waiting = W\<rparr>"
| ss_request: "tag_free (fst (registerOne s)) s \<Longrightarrow>
    session_step \<lparr>sy_s = s, sy_waiting = W\<rparr> \<lparr>sy_s = snd (registerOne s), sy_waiting = W\<rparr>"
| ss_send: "session_step \<lparr>sy_s = s, sy_waiting = W\<rparr> \<lparr>sy_s = snd (sendPDU raw s), sy_waiting = W\<rparr>"
| ss_unregister: "tag_free itt s \<Longrightarrow>
    session_step \<lparr>sy_s = s, sy_waiting = W\<rparr> \<lparr>sy_s = unregisterTag itt s, sy_waiting = W\<rparr>"
| ss_numbers: "session_step \<lparr>sy_s = s, sy_waiting = W\<rparr> \<lparr>sy_s = updateStatSN n (noteWindow e m s), sy_waiting = W\<rparr>"
| ss_take_cmdsn: "acquireFast (ss_window s) = Granted sn w \<Longrightarrow>
    session_step \<lparr>sy_s = s, sy_waiting = W\<rparr> \<lparr>sy_s = s\<lparr>ss_window := w\<rparr>, sy_waiting = W\<rparr>"
| ss_renegotiated: "session_step \<lparr>sy_s = s, sy_waiting = W\<rparr> \<lparr>sy_s = applyRenegotiatedParams kvs s, sy_waiting = W\<rparr>"
| ss_abort: "session_step \<lparr>sy_s = s, sy_waiting = W\<rparr> \<lparr>sy_s = cleanupAbortedTask itt s, sy_waiting = W\<rparr>"
| ss_drain: "Drain s = DrainWaits s' \<Longrightarrow> session_step \<lparr>sy_s = s, sy_waiting = W\<rparr> \<lparr>sy_s = s', sy_waiting = W\<rparr>"
| ss_drain_expires: "session_step \<lparr>sy_s = s, sy_waiting = W\<rparr> \<lparr>sy_s = drainExpires s, sy_waiting = W\<rparr>"
| ss_close: "\<not> ss_closed s \<Longrightarrow>
    session_step \<lparr>sy_s = s, sy_waiting = W\<rparr> \<lparr>sy_s = s\<lparr>ss_loggedIn := False, ss_closed := True\<rparr>, sy_waiting = W\<rparr>"
| ss_teardown: "ss_closed s \<Longrightarrow> session_step \<lparr>sy_s = s, sy_waiting = W\<rparr> \<lparr>sy_s = teardown s, sy_waiting = W\<rparr>"
| ss_fatal: "session_step \<lparr>sy_s = s, sy_waiting = W\<rparr> \<lparr>sy_s = setErr e s, sy_waiting = W\<rparr>"
| ss_cancel: "session_step \<lparr>sy_s = s, sy_waiting = W\<rparr> \<lparr>sy_s = s\<lparr>ss_cancelled := True\<rparr>, sy_waiting = W\<rparr>"

inductive session_reachable :: "SessSys \<Rightarrow> bool" where
  se_init: "session_reachable \<lparr>sy_s = NewSession conn params opts accepts, sy_waiting = []\<rparr>"
| se_step: "session_reachable S \<Longrightarrow> session_step S S' \<Longrightarrow> session_reachable S'"

lemma inv_NewSession: "session_inv (NewSession conn params opts accepts)"
  by (simp add: session_inv_def NewSession_def fireStateChange_def Let_def)

lemma inv_teardown: "session_inv s \<Longrightarrow> session_inv (teardown s)"
proof -
  let ?u = "s\<lparr>ss_window := closeWindow (ss_window s), ss_cancelled := True\<rparr>"
  assume "session_inv s"
  then have u: "session_inv ?u"
    by (rule inv_quiet) (simp add: quiet_def list_all2_refl keeps_refl)
  have "session_inv (fold closeTask (ss_tasks ?u) ?u)"
    using closeTasks [OF u session_invD(1) [OF u] subset_refl] by blast
  then have "session_inv (fireStateChange SessionClosed (fold closeTask (ss_tasks ?u) ?u))" using quiet_simple(9) by (rule inv_quiet)
  then show ?thesis by (simp add: teardown_def Let_def)
qed

lemma inv_task_end:
  assumes "session_inv s" "(a, ch) \<in> set (ss_loops s)"
  shows "tk_done (ss_objs s ! a) \<Longrightarrow> session_inv (s\<lparr>ss_loops := remove1 (a, ch) (ss_loops s)\<rparr>)"
    "session_inv ((endTask e a s)\<lparr>ss_loops := remove1 (a, ch) (ss_loops (endTask e a s))\<rparr>)"
proof -
  have a: "a < length (ss_objs s)" by (rule session_invD(6) [OF assms])
  then show "tk_done (ss_objs s ! a) \<Longrightarrow> session_inv (s\<lparr>ss_loops := remove1 (a, ch) (ss_loops s)\<rparr>)"
    by (rule inv_unloop [OF assms(1)])
  have c: "b = a \<or> tk_done (ss_objs s ! b)" if "(b, c) \<in> set (ss_loops s)" "tk_itt (ss_objs s ! b) = tk_itt (ss_objs s ! a)" for b c
    using session_invD(9) [OF assms(1) that(1) assms(2) that(2)] by simp
  note i = inv_ended [OF assms(1) a endTask_ended [OF a quiet_refl, of e]]
  have "session_inv (endTask e a s)" "tk_done (ss_objs (endTask e a s) ! a)" "length (ss_objs (endTask e a s)) = length (ss_objs s)"
    by (rule i(1), erule (1) c) (rule i(2), erule (1) c, rule i(4), erule (1) c)
  then show "session_inv ((endTask e a s)\<lparr>ss_loops := remove1 (a, ch) (ss_loops (endTask e a s))\<rparr>)"
    using a by (intro inv_unloop) simp_all
qed

lemma inv_registerOne: "session_inv s \<Longrightarrow> tag_free (fst (registerOne s)) s \<Longrightarrow> session_inv (snd (registerOne s))"
proof -
  obtain itt ch r where r: "Register (ss_router s) = ((itt, ch), r)" by (metis prod.collapse)
  assume a: "session_inv s" "tag_free (fst (registerOne s)) s"
  have "map_of (pending r) i = map_of (pending (ss_router s)) i" if "i \<noteq> itt" for i
    by (rule routes.enter_once_route [OF r that])
  then show ?thesis
    using inv_pending [OF a(1), of itt r] a(2) by (simp add: registerOne_def r)
qed

lemma inv_step:
  assumes "session_step S S'" "session_inv (sy_s S)"
  shows "session_inv (sy_s S')"
  using assms
proof (cases rule: session_step.cases)
  case (ss_submit depth cmd W s sn w res s')
  have "session_inv (s\<lparr>ss_window := w\<rparr>)" using assms(2) ss_submit(1) inv_quiet [OF _ quiet_simple(5)] by simp
  then show ?thesis
    using inv_submitGranted [of "s\<lparr>ss_window := w\<rparr>" depth cmd sn res s'] ss_submit by (simp add: tag_free_def)
next
  case (ss_task_pdu a ch s raw r cont s' W)
  have "pending r = pending (ss_router s)"
    using ss_task_pdu(4) by (auto simp: receiveFrom_def split: if_splits RecvResult.splits)
  then have "session_inv (s\<lparr>ss_router := r\<rparr>)"
    using assms(2) ss_task_pdu(1) inv_quiet [of s "s\<lparr>ss_router := r\<rparr>"] by (simp add: quiet_def list_all2_refl keeps_refl)
  then show ?thesis
    using inv_taskReceive [of "s\<lparr>ss_router := r\<rparr>" a ch raw cont s'] ss_task_pdu by (simp add: taskLoop_def)
next
  case (ss_unregister itt s W)
  then show ?thesis
    using inv_pending [of s itt "Unregister itt (ss_router s)"] assms(2)
    by (simp add: unregisterTag_def routes.leave_route)
next
  case (ss_send s W raw)
  then show ?thesis using assms(2) inv_quiet quiet_sendPDU [of raw s] by (metis SessSys.select_convs(1) prod.collapse)
next
  case (ss_numbers s W n e m)
  then show ?thesis using assms(2) inv_quiet [OF _ quiet_note_stat] by simp
next
  case (ss_drain s s' W)
  then have "quiet s s'" by (auto simp: Drain_def quiet_simple split: if_splits)
  then show ?thesis using assms(2) ss_drain inv_quiet by simp
qed (use assms(2) in \<open>auto simp: taskLoop_def drainExpires_def applyRenegotiatedParams_def
      intro: inv_dispatch inv_task_end inv_unsolicited inv_registerOne inv_abort inv_teardown inv_quiet [OF _ quiet_simple(5)]
        inv_quiet [OF _ quiet_simple(6)] inv_quiet [OF _ quiet_simple(7)] inv_quiet [OF _ quiet_simple(8)]
        inv_quiet [OF _ quiet_simple(12)] inv_quiet [OF _ quiet_simple(13)]\<close>)

lemma session_reachable_inv: "session_reachable S \<Longrightarrow> session_inv (sy_s S)"
  by (induction rule: session_reachable.induct) (auto simp: inv_NewSession intro: inv_step)

end
