(* ===== verification/Session_IO.thy ===== *)
theory Session_IO
  imports Session_Steps Scsi_Command
begin

text \<open>
  Commands from end to end: what a submission puts on the wire, and how the Data-In PDUs of a read,
  one after the other in the task's loop, give the result. Then the ways in which the code loses
  results, tasks and drains.
\<close>

section \<open>The command on the wire\<close>

lemma marshal_command:
  assumes "SCSICommand_MarshalBHS p = Inr bhs" "length (LUN (sc_Header p)) = 8" "unat (sc_Attr p) < 8" "length (sc_CDB p) = 16"
  shows "DecodeBHS bhs = Inr (PSCSICommand (norm_SCSICommand p)) \<and> DataSegmentLen (sc_Header p) \<le> 0xFFFFFF"
proof -
  have d: "DataSegmentLen (sc_Header p) \<le> 0xFFFFFF"
    using assms(1) scsicommand.too_long [of p] by (cases "DataSegmentLen (sc_Header p) \<le> 0xFFFFFF") auto
  then have "wf_PDU (PSCSICommand p)" using assms by (simp add: wf_SCSICommand_def wf_Header_def)
  from marshalled_header(2) [OF this] assms(1) d show ?thesis by simp
qed

lemma build_command:
  assumes "buildSCSICommandPDU cmd itt sn es imm = Done (Inr raw)" "length (cm_CDB cmd) = 16" "unat (cm_TaskAttributes cmd) < 8"
  shows "\<exists>lun. EncodeSAMLUN (cm_LUN cmd) = Some lun \<and> raw_DataSegment raw = imm \<and>
    DecodeBHS (raw_BHS raw) = Inr (PSCSICommand (norm_SCSICommand (scsiCommand cmd lun itt sn es imm)))"
proof -
  obtain lun bhs where l: "EncodeSAMLUN (cm_LUN cmd) = Some lun" and
    m: "SCSICommand_MarshalBHS (scsiCommand cmd lun itt sn es imm) = Inr bhs" "raw = bareRaw bhs imm"
    using assms(1) by (auto simp: buildSCSICommandPDU_def split: option.splits sum.splits)
  have "length lun = 8" using l by (auto simp: EncodeSAMLUN_def wire split: if_splits)
  then show ?thesis
    using marshal_command [OF m(1)] l m(2) assms(2,3) by (simp add: scsiCommand_def bareRaw_def)
qed

lemma EncodeSAMLUN_fits: "lun \<le> 0xFFFF \<Longrightarrow> \<exists>l. EncodeSAMLUN lun = Some l \<and> length l = 8"
  by (simp add: EncodeSAMLUN_def not_less wire)

lemma build_command_succeeds:
  assumes "cm_LUN cmd \<le> 0xFFFF" "length (cm_CDB cmd) = 16" "unat (cm_TaskAttributes cmd) < 8" "length imm \<le> 0xFFFFFF"
  shows "\<exists>lun raw. EncodeSAMLUN (cm_LUN cmd) = Some lun \<and> buildSCSICommandPDU cmd itt sn es imm = Done (Inr raw) \<and>
    raw_DataSegment raw = imm \<and> DecodeBHS (raw_BHS raw) = Inr (PSCSICommand (norm_SCSICommand (scsiCommand cmd lun itt sn es imm)))"
proof -
  obtain lun where l: "EncodeSAMLUN (cm_LUN cmd) = Some lun" "length lun = 8" using EncodeSAMLUN_fits [OF assms(1)] by blast
  have "wf_SCSICommand (scsiCommand cmd lun itt sn es imm)"
    using l(2) assms(2-4) by (simp add: scsiCommand_def wf_SCSICommand_def wf_Header_def zeroHeader_def word_le_nat_alt unat_of_nat_u32)
  then obtain bhs where "SCSICommand_MarshalBHS (scsiCommand cmd lun itt sn es imm) = Inr bhs" using scsicommand.marshal_total by blast
  then have "buildSCSICommandPDU cmd itt sn es imm = Done (Inr (bareRaw bhs imm))" using l(1) by (simp add: buildSCSICommandPDU_def)
  then show ?thesis using build_command [OF _ assms(2,3)] l(1) by fastforce
qed

definition immediateOf :: "Command \<Rightarrow> NegotiatedParams \<Rightarrow> bytes" where
  "immediateOf cmd ps =
     (case cm_Data cmd of
        Some r \<Rightarrow> if np_ImmediateData ps then take (unat (min (np_FirstBurstLength ps) (np_MaxRecvDataSegmentLength ps))) (unread r) else []
      | None \<Rightarrow> [])"

lemma unsolicited_sends:
  assumes "submitUnsolicited a ch s = Done (Inr b, s')"
  shows "b = a \<and> (\<exists>rest. wr_sent (ss_write s') = wr_sent (ss_write s) @ rest \<and>
    (tk_isWrite (ss_objs s ! a) \<and> \<not> np_InitialR2T (ss_params s) \<or> rest = []))"
proof (cases "tk_isWrite (ss_objs s ! a) \<and> \<not> np_InitialR2T (ss_params s)")
  case True
  let ?burst = "sendUnsolicitedDataOut (\<lambda>_. ss_expStatSN s) (ss_params s) (sessionStamp s) (ss_objs s ! a)"
  obtain burst where "?burst = Done burst" "burst \<noteq> None"
    using assms True by (cases ?burst) (auto simp: submitUnsolicited_def Let_def split: option.splits)
  then obtain err t ps where t: "?burst = Done (Some (err, t, ps))" by auto
  then show ?thesis
    using assms True by (cases err) (auto simp: submitUnsolicited_def Let_def sentPDUs_def setTask_def)
next
  case False
  then show ?thesis using assms by (auto simp: submitUnsolicited_def Let_def)
qed

text \<open>A successful submission, stage by stage.\<close>

lemma submitCommand_stages:
  assumes "submitCommand a ch s = Done (Inr b, s')"
  obtains d t raw v where
    "(case tk_reader (ss_objs s ! a) of
        Some r \<Rightarrow> if tk_isWrite (ss_objs s ! a) \<and> np_ImmediateData (ss_params s) then readImmediate (ss_params s) r (ss_objs s ! a)
                  else (Inr [], ss_objs s ! a)
      | None \<Rightarrow> (Inr [], ss_objs s ! a)) = (Inr d, t)"
    "buildSCSICommandPDU (tk_cmd t) (tk_itt t) (tk_cmdSN t) (ss_expStatSN s) d = Done (Inr raw)"
    "sendPDU raw (setTask a t s) = (True, v)" "submitUnsolicited a ch v = Done (Inr b, s')"
proof -
  let ?imm = "case tk_reader (ss_objs s ! a) of
        Some r \<Rightarrow> if tk_isWrite (ss_objs s ! a) \<and> np_ImmediateData (ss_params s) then readImmediate (ss_params s) r (ss_objs s ! a)
                  else (Inr [], ss_objs s ! a)
      | None \<Rightarrow> (Inr [], ss_objs s ! a)"
  obtain imm t where i: "?imm = (imm, t)" by force
  let ?u = "setTask a t s"
  have u: "ss_expStatSN ?u = ss_expStatSN s" by (simp add: setTask_def)
  have run: "submitCommand a ch s = (case imm of
      Inl e \<Rightarrow> Done (Inl e, forgetTask (tk_itt t) ?u)
    | Inr d \<Rightarrow> bindStep (buildSCSICommandPDU (tk_cmd t) (tk_itt t) (tk_cmdSN t) (ss_expStatSN ?u) d) (\<lambda>built.
        case built of Inl e \<Rightarrow> Done (Inl (ErrEncode e), forgetTask (tk_itt t) ?u)
        | Inr raw \<Rightarrow> (case sendPDU raw ?u of (False, s) \<Rightarrow> Done (Inl ErrContext, forgetTask (tk_itt t) s)
                      | (True, s) \<Rightarrow> submitUnsolicited a ch s)))"
    unfolding submitCommand_def Let_def i by simp
  obtain d where d: "imm = Inr d" using assms unfolding run by (cases imm) auto
  obtain built where b: "buildSCSICommandPDU (tk_cmd t) (tk_itt t) (tk_cmdSN t) (ss_expStatSN ?u) d = Done built"
    using assms unfolding run d by (auto simp: bindStep_Done)
  obtain raw where raw: "built = Inr raw" using assms unfolding run d by (cases built) (auto simp: b)
  obtain ok v where v: "sendPDU raw ?u = (ok, v)" by force
  have "ok \<and> submitUnsolicited a ch v = Done (Inr b, s')"
    using assms unfolding run d by (cases ok) (auto simp: b raw v)
  then show thesis using that i b v unfolding d raw u by simp
qed

lemma submitCommand_sends:
  assumes "submitCommand a ch s = Done (Inr b, s')" "ss_objs s ! a = makeTask depth cmd itt sn s0" "ss_params s = ss_params s0"
    "length (cm_CDB cmd) = 16" "unat (cm_TaskAttributes cmd) < 8" "a < length (ss_objs s)"
  shows "b = a \<and> (\<exists>lun raw rest. EncodeSAMLUN (cm_LUN cmd) = Some lun \<and>
    wr_sent (ss_write s') = wr_sent (ss_write s) @ sessionStamp s raw # rest \<and> raw_DataSegment raw = immediateOf cmd (ss_params s) \<and>
    (cm_Data cmd = None \<or> np_InitialR2T (ss_params s) \<longrightarrow> rest = []) \<and>
    DecodeBHS (raw_BHS raw) = Inr (PSCSICommand (norm_SCSICommand
      (scsiCommand (cmd\<lparr>cm_Write := cm_Write cmd \<or> cm_Data cmd \<noteq> None\<rparr>) lun itt sn (ss_expStatSN s) (immediateOf cmd (ss_params s))))))"
proof -
  let ?t0 = "ss_objs s ! a"
  let ?cmd = "cmd\<lparr>cm_Write := cm_Write cmd \<or> cm_Data cmd \<noteq> None\<rparr>"
  have t0: "tk_reader ?t0 = cm_Data cmd" "tk_isWrite ?t0 = (cm_Data cmd \<noteq> None)" "tk_itt ?t0 = itt" "tk_cmdSN ?t0 = sn" "tk_cmd ?t0 = ?cmd"
    unfolding assms(2) by (cases cmd; simp add: makeTask_def newTask_def Let_def)+
  obtain d t raw v where i: "(case tk_reader ?t0 of
        Some r \<Rightarrow> if tk_isWrite ?t0 \<and> np_ImmediateData (ss_params s) then readImmediate (ss_params s) r ?t0 else (Inr [], ?t0)
      | None \<Rightarrow> (Inr [], ?t0)) = (Inr d, t)"
    and b: "buildSCSICommandPDU (tk_cmd t) (tk_itt t) (tk_cmdSN t) (ss_expStatSN s) d = Done (Inr raw)"
    and v: "sendPDU raw (setTask a t s) = (True, v)" "submitUnsolicited a ch v = Done (Inr b, s')"
    by (rule submitCommand_stages [OF assms(1)])
  have t: "d = immediateOf cmd (ss_params s)" "tk_itt t = itt" "tk_cmdSN t = sn" "tk_cmd t = ?cmd" "tk_isWrite t = tk_isWrite ?t0"
    using i t0
    by (auto simp: readImmediate_def immediateOf_def Let_def dest!: io_ReadFull_next split: option.splits if_splits prod.splits)
  have vw: "wr_sent (ss_write v) = wr_sent (ss_write s) @ [sessionStamp s raw]" "ss_params v = ss_params s" "ss_objs v ! a = t"
    using v(1) assms(6) by (auto simp: sendPDU_def trySend_def setTask_def sessionStamp_def Let_def split: if_splits)
  obtain lun where l: "EncodeSAMLUN (cm_LUN cmd) = Some lun" "raw_DataSegment raw = d"
    "DecodeBHS (raw_BHS raw) = Inr (PSCSICommand (norm_SCSICommand (scsiCommand ?cmd lun itt sn (ss_expStatSN s) d)))"
    using build_command [OF b [unfolded t]] assms(4,5) by (auto simp: t)
  show ?thesis
    using unsolicited_sends [OF v(2)] l unfolding vw t t0(2) by auto
qed

section \<open>A read, from its Data-In PDUs to the result\<close>

fun receiveAll :: "RawPDU list \<Rightarrow> nat \<Rightarrow> Session \<Rightarrow> (bool \<times> Session) Step" where
  "receiveAll [] a s = Done (True, s)"
| "receiveAll (raw # raws) a s =
     bindStep (taskReceive raw a s) (\<lambda>(cont, s). if cont then receiveAll raws a s else Done (False, s))"

definition carries :: "RawPDU \<Rightarrow> DataIn \<Rightarrow> bool" where
  "carries raw d \<longleftrightarrow> (\<exists>p. DecodeBHS (raw_BHS raw) = Inr (PDataIn p) \<and> p\<lparr>di_Data := raw_DataSegment raw\<rparr> = d)"

definition reading :: "DataIn list \<Rightarrow> nat set \<Rightarrow> u32 \<Rightarrow> nat \<Rightarrow> Session \<Rightarrow> bool" where
  "reading fs R itt a s \<longleftrightarrow> a < length (ss_objs s) \<and> refines fs R (ss_objs s ! a) \<and> accepting (ss_write s) \<and> tk_itt (ss_objs s ! a) = itt"

lemma receive_fragment:
  assumes "wf_fragments fs" "reading fs R itt a s" "k < length fs" "carries raw (fs ! k)"
    "tk_erl (ss_objs s ! a) \<ge> 1 \<or> R = {..<k}"
  shows "\<exists>s'. taskReceive raw a s = Done (k \<noteq> length fs - 1, s') \<and> reading fs (insert k R) itt a s' \<and>
    tk_erl (ss_objs s' ! a) = tk_erl (ss_objs s ! a) \<and>
    (k = length fs - 1 \<longrightarrow> itt \<notin> fst ` set (ss_tasks s') \<and> itt \<notin> fst ` set (pending (ss_router s')))"
proof -
  have hs: "di_HasStatus (fs ! k) \<longleftrightarrow> k = length fs - 1" using assms(1,3) by (simp add: wf_fragments_def)
  obtain p where p: "DecodeBHS (raw_BHS raw) = Inr (PDataIn p)" "p\<lparr>di_Data := raw_DataSegment raw\<rparr> = fs ! k"
    using assms(4) by (auto simp: carries_def)
  define u where "u = (if di_HasStatus (fs ! k) then updateStatSN (di_StatSN (fs ! k)) (noteWindow (di_ExpCmdSN (fs ! k)) (di_MaxCmdSN (fs ! k)) s)
    else noteWindow (di_ExpCmdSN (fs ! k)) (di_MaxCmdSN (fs ! k)) s)"
  have u: "ss_objs u = ss_objs s" "ss_write u = ss_write s" "ss_tasks u = ss_tasks s"
    by (simp_all add: u_def noteWindow_def updateStatSN_def Let_def)
  have r: "refines fs R (ss_objs s ! a)" "accepting (ss_write s)" "a < length (ss_objs s)" "tk_itt (ss_objs s ! a) = itt"
    using assms(2) by (simp_all add: reading_def)
  obtain t w where t: "handleDataIn (ss_expStatSN u) (fs ! k) (ss_objs s ! a) (ss_write s) = Done (t, w)"
    "refines fs (insert k R) t" "tk_erl t = tk_erl (ss_objs s ! a)" "accepting w"
    using refines_step [OF assms(1) r(1) assms(3) r(2) assms(5)] by blast
  have i: "tk_itt t = itt" using keeps_handleDataIn [OF t(1)] r(4) by (simp add: keeps_def)
  let ?v = "setTask a t (u\<lparr>ss_write := w\<rparr>)"
  have run: "taskReceive raw a s = Done (if di_HasStatus (fs ! k) then (False, cleanupTask itt ?v) else (True, ?v))"
  proof -
    have "receiveDataIn (fs ! k) a s = bindStep (handleDataIn (ss_expStatSN u) (fs ! k) (ss_objs u ! a) (ss_write u)) (\<lambda>(t, w).
      if di_HasStatus (fs ! k) then Done (False, cleanupTask (tk_itt t) (setTask a t (u\<lparr>ss_write := w\<rparr>)))
      else Done (True, setTask a t (u\<lparr>ss_write := w\<rparr>)))"
      unfolding receiveDataIn_def Let_def u_def ..
    then show ?thesis using t(1) by (simp add: taskReceive_def p u i)
  qed
  have v: "reading fs (insert k R) itt a ?v" "ss_objs ?v ! a = t"
    using t r i by (simp_all add: reading_def setTask_def u)
  have c: "ss_objs (cleanupTask itt ?v) = ss_objs ?v" "ss_write (cleanupTask itt ?v) = ss_write ?v"
    "itt \<notin> fst ` set (ss_tasks (cleanupTask itt ?v))" "itt \<notin> fst ` set (pending (ss_router (cleanupTask itt ?v)))"
    using unregistered [of itt "ss_router ?v"] by (auto simp: cleanupTask_def Let_def AList.delete_eq)
  show ?thesis
  proof (cases "k = length fs - 1")
    case True
    then show ?thesis using run hs v c t(3) by (auto simp: reading_def)
  next
    case False
    then show ?thesis using run hs v t(3) by auto
  qed
qed

lemma receive_fragments:
  assumes "wf_fragments fs" "reading fs R itt a s" "\<forall>k\<in>set ks. k < length fs - 1 \<and> carries (raws ! k) (fs ! k)"
    "tk_erl (ss_objs s ! a) \<ge> 1 \<or> (\<exists>m. R = {..<m} \<and> ks = [m..<length fs - 1])"
  shows "\<exists>s'. (\<forall>more. receiveAll (map ((!) raws) ks @ more) a s = receiveAll more a s') \<and> reading fs (R \<union> set ks) itt a s' \<and>
    tk_erl (ss_objs s' ! a) = tk_erl (ss_objs s ! a)"
  using assms(2-4)
proof (induction ks arbitrary: R s)
  case (Cons k ks)
  have c: "tk_erl (ss_objs s ! a) \<ge> 1 \<or> R = {..<k} \<and> ks = [Suc k..<length fs - 1]"
    using Cons.prems(3) upt_eq_Cons_conv [of _ "length fs - 1" k ks] by (metis Suc_eq_plus1)
  have k: "k < length fs" "k \<noteq> length fs - 1" "carries (raws ! k) (fs ! k)" using Cons.prems(2) by auto
  obtain s' where s: "taskReceive (raws ! k) a s = Done (True, s')" "reading fs (insert k R) itt a s'"
    "tk_erl (ss_objs s' ! a) = tk_erl (ss_objs s ! a)"
    using receive_fragment [OF assms(1) Cons.prems(1) k(1,3)] c k(2) by auto
  have "\<exists>s''. (\<forall>more. receiveAll (map ((!) raws) ks @ more) a s' = receiveAll more a s'') \<and>
      reading fs (insert k R \<union> set ks) itt a s'' \<and> tk_erl (ss_objs s'' ! a) = tk_erl (ss_objs s' ! a)"
    using s c Cons.prems(2) by (intro Cons.IH) (auto simp: lessThan_Suc)
  then show ?case using s by auto
qed auto

text \<open>All fragments of a read, the status last.\<close>

lemma reading_completes:
  assumes "wf_fragments fs" "reading fs {} itt a s" "\<forall>k<length fs. carries (raws ! k) (fs ! k)" "set ks = {..<length fs - 1}"
    "tk_erl (ss_objs s ! a) \<ge> 1 \<or> ks = [0..<length fs - 1]"
  shows "\<exists>s'. receiveAll (map ((!) raws) (ks @ [length fs - 1])) a s = Done (False, s') \<and>
    ch_buf (tk_resultCh (ss_objs s' ! a)) = [result_of fs] \<and> unread (the (rs_Data (result_of fs))) = concat (map di_Data fs) \<and>
    itt \<notin> fst ` set (ss_tasks s') \<union> fst ` set (pending (ss_router s'))"
proof -
  let ?n = "length fs - 1"
  have n: "?n < length fs" using assms(1) by (simp add: wf_fragments_def)
  have c: "\<forall>k\<in>set ks. k < ?n \<and> carries (raws ! k) (fs ! k)" using assms(3,4) n by auto
  have "{} = {..<(0::nat)}" by simp
  then have d: "tk_erl (ss_objs s ! a) \<ge> 1 \<or> (\<exists>m. {} = {..<m} \<and> ks = [m..<?n])"
    using assms(5) by blast
  obtain t where t: "\<And>more. receiveAll (map ((!) raws) ks @ more) a s = receiveAll more a t" "reading fs {..<?n} itt a t"
    using receive_fragments [OF assms(1,2) c d] unfolding assms(4) Un_empty_left by blast
  obtain s'' where e: "taskReceive (raws ! ?n) a t = Done (False, s'')" "reading fs (insert ?n {..<?n}) itt a s''"
    "itt \<notin> fst ` set (ss_tasks s'')" "itt \<notin> fst ` set (pending (ss_router s''))"
    using receive_fragment [OF assms(1) t(2) n assms(3) [rule_format, OF n] disjI2 [OF refl]] by (elim exE conjE) (simp only: simp_thms)
  have "receiveAll (map ((!) raws) (ks @ [?n])) a s = Done (False, s'')" using t(1) [of "[raws ! ?n]"] e(1) by simp
  moreover have "ch_buf (tk_resultCh (ss_objs s'' ! a)) = [result_of fs]"
  proof -
    have "insert ?n {..<?n} = {..<length fs}" using n by auto
    then have "refines fs {..<length fs} (ss_objs s'' ! a)" using e(2) unfolding reading_def by metis
    then obtain m where "assembled fs {..<length fs} m (ss_objs s'' ! a)" "m \<notin> {..<length fs}"
      "tk_resultCh (ss_objs s'' ! a) = (make_chan 1)\<lparr>ch_buf := if m = length fs then [result_of fs] else []\<rparr>"
      unfolding refines_def by blast
    moreover from this have "m = length fs" unfolding assembled_def by auto
    ultimately show ?thesis by simp
  qed
  ultimately show ?thesis using e(3,4) by (auto simp: result_of_def statusResult_def)
qed

text \<open>A read's submission, from its granted CmdSN on.\<close>

lemma submitGranted_task:
  assumes "submitGranted depth cmd sn s = Done (Inr a, s')" "cm_Data cmd = None" "accepting (ss_write s)"
  shows "a = length (ss_objs s) \<and> accepting (ss_write s') \<and>
    ss_tasks s' = AList.update (fst (AllocateITT (ss_router s))) a (ss_tasks s) \<and>
    ss_objs s' = ss_objs s @ [makeTask depth cmd (fst (AllocateITT (ss_router s))) sn s] \<and> ss_closed s' = ss_closed s \<and> ss_cfg s' = ss_cfg s"
proof -
  obtain itt r0 where al: "AllocateITT (ss_router s) = (itt, r0)" by force
  obtain ch r where rp: "RegisterPersistent itt r0 = (ch, r)" by force
  let ?s = "s\<lparr>ss_router := r\<rparr>"
  let ?t = "makeTask depth cmd itt sn ?s"
  let ?a = "length (ss_objs s)"
  let ?s0 = "s\<lparr>ss_router := r, ss_objs := ss_objs s @ [?t], ss_tasks := AList.update itt ?a (ss_tasks s)\<rparr>"
  have run: "submitCommand ?a ch ?s0 = Done (Inr a, s')"
    using assms(1) by (simp add: submitGranted_def al rp Let_def)
  have t: "tk_reader ?t = None" "\<not> tk_isWrite ?t" by (simp_all add: makeTask_def newTask_def Let_def assms(2))
  have same: "setTask ?a ?t ?s0 = ?s0" "ss_objs ?s0 ! ?a = ?t" by (simp_all add: setTask_def)
  obtain d t' raw v where "(case tk_reader (ss_objs ?s0 ! ?a) of
        Some r \<Rightarrow> if tk_isWrite (ss_objs ?s0 ! ?a) \<and> np_ImmediateData (ss_params ?s0)
                  then readImmediate (ss_params ?s0) r (ss_objs ?s0 ! ?a) else (Inr [], ss_objs ?s0 ! ?a)
      | None \<Rightarrow> (Inr [], ss_objs ?s0 ! ?a)) = (Inr d, t')"
    and v: "sendPDU raw (setTask ?a t' ?s0) = (True, v)" "submitUnsolicited ?a ch v = Done (Inr a, s')"
    by (rule submitCommand_stages [OF run])
  then have "t' = ?t" unfolding same(2) t(1) by simp
  then have v1: "sendPDU raw ?s0 = (True, v)" using v(1) same(1) by simp
  have o: "ss_objs v = ss_objs s @ [?t]" "accepting (ss_write v)" "ss_tasks v = AList.update itt ?a (ss_tasks s)"
    "ss_closed v = ss_closed s" "ss_cfg v = ss_cfg s"
    using v1 assms(3) by (auto simp: sendPDU_def trySend_def accepting_def Let_def split: if_splits)
  have "a = ?a" "s' = v\<lparr>ss_loops := (?a, ch) # ss_loops v\<rparr>"
    using v(2) t(2) by (auto simp: submitUnsolicited_def Let_def o nth_append)
  moreover have "makeTask depth cmd itt sn s = ?t" by (simp add: makeTask_def)
  ultimately show ?thesis using o by (simp add: al)
qed

lemma submitGranted_read:
  assumes "submitGranted 0 cmd sn s = Done (Inr a, s')" "cm_Read cmd" "cm_Data cmd = None" "wf_fragments fs" "accepting (ss_write s)"
  shows "reading fs {} (fst (AllocateITT (ss_router s))) a s' \<and> tk_erl (ss_objs s' ! a) = np_ErrorRecoveryLevel (ss_params s) \<and>
    a = length (ss_objs s) \<and> \<not> tk_done (ss_objs s' ! a) \<and>
    ss_tasks s' = AList.update (fst (AllocateITT (ss_router s))) a (ss_tasks s) \<and>
    ss_objs s' = ss_objs s @ [makeTask 0 cmd (fst (AllocateITT (ss_router s))) sn s] \<and> ss_closed s' = ss_closed s \<and> ss_cfg s' = ss_cfg s"
proof -
  let ?t = "makeTask 0 cmd (fst (AllocateITT (ss_router s))) sn s"
  have t: "tk_itt ?t = fst (AllocateITT (ss_router s))" "tk_erl ?t = np_ErrorRecoveryLevel (ss_params s)" "\<not> tk_done ?t"
    by (simp_all add: makeTask_def newTask_def Let_def)
  have "refines fs {} ?t"
    using assms(4) by (auto simp: refines_def assembled_def makeTask_def newTask_def Let_def pendingOf_def make_chan_def assms(2,3)
        wf_fragments_def intro!: exI [of _ 0])
  then show ?thesis using submitGranted_task [OF assms(1,3,5)] t by (simp add: reading_def)
qed

lemma submitGranted_read_succeeds:
  assumes "cm_Data cmd = None" "cm_LUN cmd \<le> 0xFFFF" "accepting (ss_write s)"
  shows "\<exists>a s'. submitGranted depth cmd sn s = Done (Inr a, s')"
proof -
  have "EncodeSAMLUN (cm_LUN cmd) \<noteq> None" using assms(2) by (simp add: EncodeSAMLUN_def not_less)
  then obtain lun where l: "EncodeSAMLUN (cm_LUN cmd) = Some lun" by auto
  obtain itt r0 where al: "AllocateITT (ss_router s) = (itt, r0)" by force
  obtain ch r where rp: "RegisterPersistent itt r0 = (ch, r)" by force
  let ?t = "makeTask depth cmd itt sn (s\<lparr>ss_router := r\<rparr>)"
  let ?a = "length (ss_objs s)"
  let ?s0 = "s\<lparr>ss_router := r, ss_objs := ss_objs s @ [?t], ss_tasks := AList.update itt ?a (ss_tasks s)\<rparr>"
  have t: "tk_reader ?t = None" "\<not> tk_isWrite ?t" "tk_cmd ?t = cmd"
    by (simp_all add: makeTask_def newTask_def Let_def assms(1))
  obtain raw where b: "buildSCSICommandPDU cmd (tk_itt ?t) (tk_cmdSN ?t) (ss_expStatSN s) [] = Done (Inr raw)"
    using l by (simp add: buildSCSICommandPDU_def SCSICommand_MarshalBHS_def scsiCommand_def zeroHeader_def marshalWith_def marshalHeader_def
        encodeDataSegmentLength_def)
  obtain v where v: "sendPDU raw ?s0 = (True, v)" "ss_objs v = ss_objs s @ [?t]"
    using trySend_accepting [OF assms(3), of "sessionStamp ?s0 raw"] by (auto simp: sendPDU_def)
  have same: "setTask ?a ?t ?s0 = ?s0" by (simp add: setTask_def)
  have "submitUnsolicited ?a ch v = Done (Inr ?a, v\<lparr>ss_loops := (?a, ch) # ss_loops v\<rparr>)"
    using t(2) by (simp add: submitUnsolicited_def Let_def v(2))
  then have "submitCommand ?a ch ?s0 = Done (Inr ?a, v\<lparr>ss_loops := (?a, ch) # ss_loops v\<rparr>)"
    using b v(1) by (simp add: submitCommand_def t same Let_def)
  then show ?thesis by (simp add: submitGranted_def al rp Let_def)
qed

section \<open>What goes wrong\<close>

text \<open>
  With error recovery a Data-In PDU that carries the status may arrive before one that was lost. It is
  kept for later, but the loop ends on it: the missing PDU will be dropped, and no result is delivered.
\<close>

lemma early_status_loses_result:
  assumes "wf_fragments fs" "reading fs R itt a s" "carries raw (last fs)" "tk_erl (ss_objs s ! a) \<ge> 1" "k < length fs - 1" "k \<notin> R"
  shows "\<exists>s'. taskReceive raw a s = Done (False, s') \<and> ch_buf (tk_resultCh (ss_objs s' ! a)) = [] \<and>
    itt \<notin> fst ` set (ss_tasks s') \<and> itt \<notin> fst ` set (pending (ss_router s'))"
proof -
  let ?n = "length fs - 1"
  have n: "?n < length fs" "last fs = fs ! ?n" using assms(1,5) by (auto simp: wf_fragments_def last_conv_nth)
  from receive_fragment [OF assms(1,2) n(1) assms(3) [unfolded n(2)]] assms(4)
  obtain s' where r: "taskReceive raw a s = Done (False, s')" "reading fs (insert ?n R) itt a s'"
    "itt \<notin> fst ` set (ss_tasks s')" "itt \<notin> fst ` set (pending (ss_router s'))" by auto
  then obtain m where m: "assembled fs (insert ?n R) m (ss_objs s' ! a)"
    "tk_resultCh (ss_objs s' ! a) = (make_chan 1)\<lparr>ch_buf := if m = length fs then [result_of fs] else []\<rparr>"
    by (auto simp: reading_def refines_def)
  have "{..<m} \<subseteq> insert ?n R" using m(1) by (simp add: assembled_def)
  moreover have "k < length fs" "k \<noteq> ?n" using assms(5) by auto
  ultimately have "m \<noteq> length fs" using assms(6) by blast
  then show ?thesis using r m(2) by simp
qed

text \<open>
  A SNACK that cannot be sent fails the task by closing its \<open>done\<close> channel; the loop then ends without
  the clean-up, so the tag stays in the task map and in the router.
\<close>

lemma gap_without_snack:
  assumes "tk_erl t \<ge> 1" "di_DataSN p \<noteq> tk_nextDataSN t" "\<not> wr_accepts w (wr_tries w)" "tk_resultCh t = make_chan 1"
  shows "\<exists>t' w'. handleDataIn es p t w = Done (t', w') \<and> tk_done t'"
proof -
  define v where "v = (if tk_erl t \<ge> 1 \<and> tk_snackTimeout t > 0 then resetSnackTimer t else t)"
  have v: "tk_erl v = tk_erl t" "tk_nextDataSN v = tk_nextDataSN t" "tk_resultCh v = tk_resultCh t"
    by (simp_all add: v_def resetSnackTimer_def startSnackTimer_def Let_def)
  let ?b = "bufferOutOfOrder p v"
  have send: "\<exists>w'. sendSNACK ?b ty n r es w = (Some ErrSNACK, w')" for ty n r
    using snackRequest_marshals [of ?b ty 0 n r es] assms(3) by (auto simp: sendSNACK_def trySend_def)
  have "tk_resultCh (closeReaderWithError ErrSNACK ?b) = make_chan 1"
    using assms(4) by (simp add: closeReaderWithError_def bufferOutOfOrder_def Let_def v)
  then obtain u where "deliver (errResult ErrSNACK) (closeReaderWithError ErrSNACK ?b) = Done u"
    by (auto simp: deliver_def chan_send_def make_chan_def)
  moreover obtain w' where "sendSNACK ?b SNACKTypeDataR2T (tk_nextDataSN ?b) (di_DataSN p - tk_nextDataSN v) es w = (Some ErrSNACK, w')"
    using send by blast
  ultimately have "handleDataIn es p t w = Done (u\<lparr>tk_done := True\<rparr>, w')"
    using assms(1,2) unfolding handleDataIn_def Let_def v_def [symmetric] by (simp add: v)
  then show ?thesis by auto
qed

lemma snack_failure_leaks_task:
  assumes "a < length (ss_objs s)" "tk_erl (ss_objs s ! a) \<ge> 1" "di_DataSN p \<noteq> tk_nextDataSN (ss_objs s ! a)" "\<not> di_HasStatus p"
    "\<not> wr_accepts (ss_write s) (wr_tries (ss_write s))" "tk_resultCh (ss_objs s ! a) = make_chan 1"
  shows "\<exists>s'. receiveDataIn p a s = Done (True, s') \<and> tk_done (ss_objs s' ! a) \<and> taskLoop TaskDone a s' = Done (False, s') \<and>
    ss_tasks s' = ss_tasks s \<and> ss_router s' = ss_router s"
proof -
  let ?u = "noteWindow (di_ExpCmdSN p) (di_MaxCmdSN p) s"
  have u: "ss_objs ?u = ss_objs s" "ss_write ?u = ss_write s" "ss_tasks ?u = ss_tasks s" "ss_router ?u = ss_router s"
    by (simp_all add: noteWindow_def)
  have "\<exists>t w. handleDataIn (ss_expStatSN ?u) p (ss_objs s ! a) (ss_write s) = Done (t, w) \<and> tk_done t"
    using assms(2,3,5,6) by (rule gap_without_snack)
  then obtain t w where t: "handleDataIn (ss_expStatSN ?u) p (ss_objs s ! a) (ss_write s) = Done (t, w)" "tk_done t" by blast
  have "receiveDataIn p a s = Done (True, setTask a t (?u\<lparr>ss_write := w\<rparr>))"
    using t(1) assms(4) by (simp add: receiveDataIn_def Let_def u)
  then show ?thesis using t(2) assms(1) by (simp add: setTask_def taskLoop_def u)
qed

text \<open>An aborted task does not end the drain that waits for it; a drained session stays refusing.\<close>

lemma abort_leaves_drain_waiting:
  "ss_tasks s = [(itt, a)] \<Longrightarrow> Drain s = DrainWaits s' \<Longrightarrow>
     ss_tasks (cleanupAbortedTask itt s') = [] \<and> ss_drainDone (cleanupAbortedTask itt s') \<and>
     ss_drainsEnded (cleanupAbortedTask itt s') = ss_drainsEnded s"
  by (auto simp: Drain_def cleanupAbortedTask_def unregisterTag_def setTask_def Let_def split: if_splits)

text \<open>An R2T and a NOP-In show the next StatSN without using it; the session takes it for a status received.\<close>

lemma updateStatSN_next: "ss_expStatSN (updateStatSN (ss_expStatSN s) s) = ss_expStatSN s + 1"
  using dist32_add [of 1 "ss_expStatSN s"] by (simp add: updateStatSN_def Let_def Incr_def GreaterThan_dist)

lemma expStatSN_kept [simp]:
  "ss_expStatSN (noteWindow e m s) = ss_expStatSN s" "ss_expStatSN (setTask a t s) = ss_expStatSN s"
  "ss_expStatSN (sentPDUs ps s) = ss_expStatSN s" "ss_expStatSN (cleanupTask itt s) = ss_expStatSN s"
  "ss_expStatSN (endTask er a s) = ss_expStatSN s" "ss_expStatSN (s\<lparr>ss_write := w\<rparr>) = ss_expStatSN s"
  by (simp_all add: noteWindow_def setTask_def sentPDUs_def cleanupTask_def endTask_def Let_def)

lemma r2t_acknowledges_next_status:
  assumes "receiveR2T p a s = Done (cont, s')" "rt_StatSN p = ss_expStatSN s"
  shows "ss_expStatSN s' = rt_StatSN p + 1"
proof -
  define u where "u = updateStatSN (rt_StatSN p) (noteWindow (rt_ExpCmdSN p) (rt_MaxCmdSN p) s)"
  have u: "ss_expStatSN u = rt_StatSN p + 1"
    using updateStatSN_next [of "noteWindow (rt_ExpCmdSN p) (rt_MaxCmdSN p) s"] assms(2) by (simp add: u_def)
  let ?r = "handleR2T p (\<lambda>_. ss_expStatSN u) (ss_params u) (sessionStamp u) (ss_objs u ! a)"
  obtain burst where b: "?r = Done burst"
    using assms(1) unfolding receiveR2T_def Let_def u_def [symmetric] by (cases ?r) auto
  then obtain err t ps where p: "burst = Some (err, t, ps)"
    using assms(1) unfolding receiveR2T_def Let_def u_def [symmetric] by (cases burst) auto
  have "s' = sentPDUs ps (setTask a t u) \<or> (\<exists>er. s' = endTask er a (sentPDUs ps (setTask a t u)))"
    using assms(1) b unfolding receiveR2T_def Let_def u_def [symmetric] p by (cases err) auto
  then show ?thesis using u by auto
qed

text \<open>
  A retried write without immediate data goes on where its reader stopped: what was sent before the
  Reject is not sent again, although the target starts the transfer from the beginning.
\<close>

lemma retry_keeps_reader_position:
  assumes "retrySameConnection a s = Done s'" "tk_isWrite (ss_objs s ! a)" "\<not> np_ImmediateData (ss_params s)"
    "\<not> tk_streaming (ss_objs s ! a)" "a < length (ss_objs s)"
  shows "tk_reader (ss_objs s' ! a) = tk_reader (ss_objs s ! a)"
proof -
  define t where "t = restartRead (ss_objs s ! a)"
  have t: "rereadImmediate (ss_params s) t = (Inr [], t)" "tk_reader t = tk_reader (ss_objs s ! a)"
    using assms(3) by (auto simp: rereadImmediate_def t_def restartRead_def Let_def split: option.split)
  have e: "tk_reader (ss_objs (endTask e a u) ! a) = tk_reader t" if "ss_objs u = (ss_objs s)[a := t]" for e u
    using that assms(5) by (simp add: endTask_def cleanupTask_def setTask_def cancel_def closeReaderWithError_def Let_def split: SendResult.split)
  have o: "ss_objs (setTask a t s) = (ss_objs s)[a := t]" "ss_objs v = (ss_objs s)[a := t]" if "sendPDU raw (setTask a t s) = (ok, v)" for raw ok v
    using that by (auto simp: setTask_def sendPDU_def split: prod.splits)
  obtain built where b: "buildSCSICommandPDU (tk_cmd t) (tk_itt t) (tk_cmdSN t) (ss_expStatSN s) [] = Done built"
    using assms(1,4) unfolding retrySameConnection_def Let_def t_def [symmetric] t(1)
    by (auto simp: bindStep_Done)
  have "tk_reader (ss_objs s' ! a) = tk_reader t"
  proof (cases built)
    case (Inl x)
    then have "s' = endTask (ErrEncode x) a (setTask a t s)"
      using assms(1,4) b unfolding retrySameConnection_def Let_def t_def [symmetric] t(1) by simp
    then show ?thesis using e [of "setTask a t s"] by (simp add: setTask_def)
  next
    case (Inr raw)
    obtain ok v where v: "sendPDU raw (setTask a t s) = (ok, v)" by force
    then have "s' = (if ok then v else endTask ErrWriteChannelFull a v)"
      using assms(1,4) b Inr unfolding retrySameConnection_def Let_def t_def [symmetric] t(1) by (cases ok) simp_all
    then show ?thesis using e [OF o(2) [OF v]] o(2) [OF v] assms(5) by (simp split: if_splits)
  qed
  then show ?thesis using t(2) by simp
qed

text \<open>Without a target address a lost connection leaves every task waiting.\<close>

lemma fatal_error_keeps_tasks:
  "sg_targetAddr (ss_cfg s) = [] \<or> (\<exists>e. ex = ReadErr (DigestErr e)) \<Longrightarrow> ss_tasks (fst (readPumpLoop ex s)) = ss_tasks s \<and>
     ss_objs (fst (readPumpLoop ex s)) = ss_objs s \<and> ss_cancelled (fst (readPumpLoop ex s)) = ss_cancelled s"
  by (auto simp: readPumpLoop_def connectionLost_def setErr_def split: PumpExit.split ReadError.split)

section \<open>Properties\<close>

text \<open>C20. What a successful submission sends: the session accepted commands and the window granted the CmdSN; the
  first PDU is the SCSI Command, stamped with the negotiated digests, which decodes to exactly the request built from the
  command, the allocated tag, the granted CmdSN and the current ExpStatSN, with the immediate data of the write; nothing
  follows it unless there is write data and InitialR2T is off.\<close>

theorem submitted_command_on_wire:
  assumes "Submit ctxEnds cmd s = Done (Inr a, s')" "length (cm_CDB cmd) = 16" "unat (cm_TaskAttributes cmd) < 8"
  shows "submitCheck s = None \<and> (\<exists>sn w lun raw rest. acquireFast (ss_window s) = Granted sn w \<and> EncodeSAMLUN (cm_LUN cmd) = Some lun \<and>
    wr_sent (ss_write s') = wr_sent (ss_write s) @ sessionStamp s raw # rest \<and>
    raw_DataSegment raw = immediateOf cmd (ss_params s) \<and> (cm_Data cmd = None \<or> np_InitialR2T (ss_params s) \<longrightarrow> rest = []) \<and>
    DecodeBHS (raw_BHS raw) = Inr (PSCSICommand (norm_SCSICommand
      (scsiCommand (cmd\<lparr>cm_Write := cm_Write cmd \<or> cm_Data cmd \<noteq> None\<rparr>) lun (fst (AllocateITT (ss_router s))) sn (ss_expStatSN s)
        (immediateOf cmd (ss_params s))))))"
proof -
  obtain sn w where w: "submitCheck s = None" "acquireFast (ss_window s) = Granted sn w"
    and g: "submitGranted 0 cmd sn (s\<lparr>ss_window := w\<rparr>) = Done (Inr a, s')"
    using assms(1) by (auto simp: Submit_def submitWith_def acquire_def split: option.splits AcquireStep.splits if_splits)
  obtain itt r0 where al: "AllocateITT (ss_router s) = (itt, r0)" by force
  obtain ch r where rp: "RegisterPersistent itt r0 = (ch, r)" by force
  let ?t = "makeTask 0 cmd itt sn (s\<lparr>ss_window := w, ss_router := r\<rparr>)"
  let ?a = "length (ss_objs s)"
  let ?s0 = "s\<lparr>ss_window := w, ss_router := r, ss_objs := ss_objs s @ [?t], ss_tasks := AList.update itt ?a (ss_tasks s)\<rparr>"
  have "submitCommand ?a ch ?s0 = Done (Inr a, s')" using g by (simp add: submitGranted_def al rp Let_def)
  from submitCommand_sends [OF this, of 0 cmd itt sn "s\<lparr>ss_window := w, ss_router := r\<rparr>"] assms(2,3)
  show ?thesis using w by (simp add: al sessionStamp_def)
qed

lemma read_command_run:
  assumes "submitCheck s = None" "acquireFast (ss_window s) = Granted sn w" "accepting (ss_write s)"
    "cm_Read cmd" "cm_Data cmd = None" "cm_LUN cmd \<le> 0xFFFF"
    "wf_fragments fs" "\<forall>k<length fs. carries (raws ! k) (fs ! k)" "set ks = {..<length fs - 1}"
    "np_ErrorRecoveryLevel (ss_params s) \<ge> 1 \<or> ks = [0..<length fs - 1]"
  shows "\<exists>a s' s''. Submit ctxEnds cmd s = Done (Inr a, s') \<and>
    receiveAll (map ((!) raws) (ks @ [length fs - 1])) a s' = Done (False, s'') \<and>
    ch_buf (tk_resultCh (ss_objs s'' ! a)) = [result_of fs] \<and> unread (the (rs_Data (result_of fs))) = concat (map di_Data fs) \<and>
    fst (AllocateITT (ss_router s)) \<notin> fst ` set (ss_tasks s'') \<union> fst ` set (pending (ss_router s'')) \<and>
    length (ss_objs s') = Suc a"
proof -
  let ?u = "s\<lparr>ss_window := w\<rparr>" and ?n = "length fs - 1" and ?itt = "fst (AllocateITT (ss_router s))"
  have n: "?n < length fs" using assms(7) by (simp add: wf_fragments_def)
  obtain a s' where g: "submitGranted 0 cmd sn ?u = Done (Inr a, s')"
    using submitGranted_read_succeeds [OF assms(5,6), of ?u 0 sn] assms(3) by auto
  have "accepting (ss_write ?u)" "ss_router ?u = ss_router s" "ss_params ?u = ss_params s" using assms(3) by simp_all
  note q = submitGranted_read [OF g assms(4,5,7) this(1), unfolded this(2,3)]
  have r: "reading fs {} ?itt a s'" "tk_erl (ss_objs s' ! a) = np_ErrorRecoveryLevel (ss_params s)"
    by (rule q [THEN conjunct1], rule q [THEN conjunct2, THEN conjunct1])
  have o: "length (ss_objs s') = Suc a" using q by simp
  have "tk_erl (ss_objs s' ! a) \<ge> 1 \<or> ks = [0..<?n]" using assms(10) r(2) by simp
  from reading_completes [OF assms(7) r(1) assms(8,9) this]
  obtain s'' where "receiveAll (map ((!) raws) (ks @ [?n])) a s' = Done (False, s'')"
    "ch_buf (tk_resultCh (ss_objs s'' ! a)) = [result_of fs]" "unread (the (rs_Data (result_of fs))) = concat (map di_Data fs)"
    "?itt \<notin> fst ` set (ss_tasks s'') \<union> fst ` set (pending (ss_router s''))" by blast
  moreover have "Submit ctxEnds cmd s = Done (Inr a, s')" using g assms(1,2) by (simp add: Submit_def submitWith_def acquire_def)
  ultimately show ?thesis using o by blast
qed


section \<open>Tracked tasks, and closing\<close>

lemma inv_one_loop:
  assumes "session_inv s" "a < length (ss_objs s)" "\<not> tk_done (ss_objs s ! a)"
  shows "(tk_itt (ss_objs s ! a), a) \<in> set (ss_tasks s) \<longleftrightarrow>
    (\<exists>!ch. (a, ch) \<in> set (ss_loops s) \<and> map_of (pending (ss_router s)) (tk_itt (ss_objs s ! a)) = Some \<lparr>ent_ch = ch, ent_persistent = True\<rparr>)"
proof -
  note i = session_invD [OF assms(1)]
  have "\<exists>!ch. (a, ch) \<in> set (ss_loops s) \<and>
      map_of (pending (ss_router s)) (tk_itt (ss_objs s ! a)) = Some \<lparr>ent_ch = ch, ent_persistent = True\<rparr>"
    if "(tk_itt (ss_objs s ! a), a) \<in> set (ss_tasks s)"
    using i(5) [OF that assms(3)] i(8) [OF _ assms(3)] by fastforce
  then show ?thesis using i(7) [OF _ assms(3)] by blast
qed

lemma teardown_answers:
  assumes "session_inv s"
  shows "let s' = teardown s in
    ss_tasks s' = [] \<and> cw_closed (ss_window s') \<and>
    list_all (\<lambda>(itt, a). ch_buf (tk_resultCh (ss_objs s' ! a)) \<noteq> []) (ss_tasks s) \<and>
    list_all (\<lambda>(a, ch). tk_done (ss_objs s' ! a)) (ss_loops s)"
proof -
  let ?u = "s\<lparr>ss_window := closeWindow (ss_window s), ss_cancelled := True\<rparr>"
  have u: "session_inv ?u"
    using assms by (rule inv_quiet) (simp add: quiet_def list_all2_refl keeps_refl)
  let ?v = "fold closeTask (ss_tasks ?u) ?u"
  have v: "session_inv ?v" "ss_tasks ?v = []" "ss_loops ?v = ss_loops s"
    "\<And>a. a \<in> snd ` set (ss_tasks s) \<Longrightarrow> tk_done (ss_objs ?v ! a) \<and> ch_buf (tk_resultCh (ss_objs ?v ! a)) \<noteq> []"
    using closeTasks [OF u session_invD(1) [OF u] subset_refl] by auto
  have w: "ss_window (fold closeTask xs x) = ss_window x" for xs x
    by (induction xs arbitrary: x) (auto simp: closeTask_def setTask_def unregisterTag_def Let_def)
  have "tk_done (ss_objs ?v ! a)" if "(a, ch) \<in> set (ss_loops s)" for a ch
    using session_invD(7) [OF v(1), of a ch] v(2,3) that by (metis empty_iff list.set(1))
  moreover have "ch_buf (tk_resultCh (ss_objs ?v ! a)) \<noteq> []" if "(itt, a) \<in> set (ss_tasks s)" for itt a
    using v(4) [of a] that by force
  ultimately show ?thesis
    using v(2) by (auto simp: teardown_def Let_def fireStateChange_def w closeWindow_def list_all_iff)
qed

section \<open>Witnesses\<close>

definition sampleSession :: Session where
  "sampleSession = NewSession \<lparr>cn_digestHeader = False, cn_digestData = False, cn_maxRecvDSL = 8192\<rparr> Defaults [] (\<lambda>_. True)"

definition sampleRead :: Command where
  "sampleRead = Read10 0 0 1 512 []"

lemma sample_session:
  "submitCheck sampleSession = None" "accepting (ss_write sampleSession)" "ss_tasks sampleSession = []" "ss_loops sampleSession = []"
  "acquireFast (ss_window sampleSession) = Granted 1 ((ss_window sampleSession)\<lparr>cw_cmdSN := 2\<rparr>)"
  "cm_Read sampleRead" "cm_Data sampleRead = None" "cm_LUN sampleRead \<le> 0xFFFF" "length (cm_CDB sampleRead) = 16"
  "unat (cm_TaskAttributes sampleRead) < 8"
  by (simp_all add: sampleSession_def NewSession_def fireStateChange_def Let_def submitCheck_def accepting_def Defaults_def acquireFast_def
      takeSN_def newCmdWindow_def windowOpen_def InWindow_def LessThan_def Incr_def sampleRead_def Read10_def zeroCommand_def applyOptions_def wire)

definition grantedSample :: Session where
  "grantedSample = sampleSession\<lparr>ss_window := (ss_window sampleSession)\<lparr>cw_cmdSN := 2\<rparr>\<rparr>"

lemma sample_granted: "\<exists>a s'. submitGranted 0 sampleRead 1 grantedSample = Done (Inr a, s')"
  by (rule submitGranted_read_succeeds) (simp_all add: sample_session grantedSample_def)

text \<open>A reachable state with a running read.\<close>

lemma sample_running:
  "\<exists>S. session_reachable S \<and> (\<exists>itt. ss_tasks (sy_s S) = [(itt, 0)] \<and> ss_objs (sy_s S) = [makeTask 0 sampleRead itt 1 sampleSession]) \<and>
     \<not> ss_closed (sy_s S) \<and> ss_cfg (sy_s S) = defaultConfig"
proof -
  obtain a s' where g: "submitGranted 0 sampleRead 1 grantedSample = Done (Inr a, s')" using sample_granted by blast
  have "wf_fragments [sampleFragment 0 0 True [1]]" by (simp add: wf_fragments_def sampleFragment_def)
  note q = submitGranted_read [OF g sample_session(6,7) this]
  have e: "accepting (ss_write grantedSample)" "ss_tasks grantedSample = []" "ss_objs grantedSample = []" "ss_closed grantedSample = False"
    "ss_cfg grantedSample = defaultConfig" "makeTask 0 sampleRead itt 1 grantedSample = makeTask 0 sampleRead itt 1 sampleSession" for itt
    using sample_session(2,3) by (simp_all add: grantedSample_def sampleSession_def NewSession_def fireStateChange_def Let_def makeTask_def)
  have t: "(\<exists>itt. ss_tasks s' = [(itt, 0)] \<and> ss_objs s' = [makeTask 0 sampleRead itt 1 sampleSession]) \<and> \<not> ss_closed s' \<and> ss_cfg s' = defaultConfig"
    using q e by auto
  have i: "session_reachable \<lparr>sy_s = sampleSession, sy_waiting = []\<rparr>" unfolding sampleSession_def by (rule se_init)
  have n: "session_step \<lparr>sy_s = sampleSession, sy_waiting = []\<rparr> \<lparr>sy_s = sampleSession, sy_waiting = [(0, sampleRead)]\<rparr>"
    by (rule ss_enter [OF sample_session(1)])
  have "tag_free (fst (AllocateITT (ss_router sampleSession))) sampleSession" by (simp add: tag_free_def sample_session)
  then have "session_step \<lparr>sy_s = sampleSession, sy_waiting = [(0, sampleRead)]\<rparr>
      \<lparr>sy_s = s', sy_waiting = remove1 (0, sampleRead) [(0, sampleRead)]\<rparr>"
    by (intro ss_submit [OF _ sample_session(5)]) (simp_all add: g [unfolded grantedSample_def])
  from se_step [OF se_step [OF i n] this] t show ?thesis by force
qed

lemma sample_live: "\<exists>S a. session_reachable S \<and> a < length (ss_objs (sy_s S)) \<and> \<not> tk_done (ss_objs (sy_s S) ! a) \<and> ss_tasks (sy_s S) \<noteq> []"
proof -
  have "\<not> tk_done (makeTask 0 sampleRead itt 1 sampleSession)" for itt by (simp add: makeTask_def newTask_def Let_def)
  then show ?thesis using sample_running by (metis length_Cons list.discI nth_Cons_0 zero_less_Suc)
qed

definition carriedFragment :: "DataIn \<Rightarrow> DataIn" where
  "carriedFragment d = (norm_DataIn d)\<lparr>di_Data := di_Data d\<rparr>"

definition sampleRaw :: "DataIn \<Rightarrow> RawPDU" where
  "sampleRaw d = bareRaw (case DataIn_MarshalBHS d of Inr b \<Rightarrow> b | Inl _ \<Rightarrow> []) (di_Data d)"

lemma sampleRaw_carries: "wf_DataIn d \<Longrightarrow> carries (sampleRaw d) (carriedFragment d)"
  using marshalled_header(2) [of "PDataIn d"] datain.roundtrip [of d]
  by (auto simp: carries_def sampleRaw_def bareRaw_def carriedFragment_def)

lemma carried_sample:
  "wf_fragments (map carriedFragment sampleFragments)" "k < length sampleFragments \<Longrightarrow> wf_DataIn (sampleFragments ! k)"
  by (auto simp: wf_fragments_def carriedFragment_def norm_DataIn_def wf_DataIn_def wf_Header_def sampleFragments_def sampleFragment_def
      zeroHeader_def less_Suc_eq)


theorem submitted_command_on_wire_witness:
  "\<exists>a s' raw. Submit False sampleRead sampleSession = Done (Inr a, s') \<and>
    wr_sent (ss_write s') = wr_sent (ss_write sampleSession) @ [sessionStamp sampleSession raw] \<and> raw_DataSegment raw = []"
proof -
  obtain a s' where s: "Submit False sampleRead sampleSession = Done (Inr a, s')"
    using sample_granted sample_session(1,5) by (auto simp: Submit_def submitWith_def acquire_def grantedSample_def)
  from submitted_command_on_wire [OF s sample_session(9,10)] s show ?thesis
    by (auto simp: sample_session immediateOf_def)
qed

end
