(* ===== verification/Session_Write.thy ===== *)
theory Session_Write
  imports Session_IO
begin

text \<open>
  A write from the submission to its last Data-Out PDU: the immediate data in the command, and the
  bursts that the target asks for with R2Ts.
\<close>

section \<open>Pieces of a transfer\<close>

text \<open>The PDUs \<open>ps\<close> carry \<open>d\<close> from the offset \<open>off\<close> on, each at the offset that follows the ones before it.\<close>

definition transfers :: "u32 \<Rightarrow> u32 \<Rightarrow> bytes \<Rightarrow> RawPDU list \<Rightarrow> bool" where
  "transfers itt off d ps \<longleftrightarrow> concat (map raw_DataSegment ps) = d \<and>
     (\<forall>k<length ps. \<exists>q. DecodeBHS (raw_BHS (ps ! k)) = Inr (PDataOut q) \<and> InitiatorTaskTag (do_Header q) = itt \<and>
        do_BufferOffset q = off + of_nat (length (concat (map raw_DataSegment (take k ps)))))"

lemma transfers_append:
  assumes "transfers itt off d ps" "transfers itt (off + of_nat (length d)) d' ps'"
  shows "transfers itt off (d @ d') (ps @ ps')"
proof -
  have "\<exists>q. DecodeBHS (raw_BHS ((ps @ ps') ! k)) = Inr (PDataOut q) \<and> InitiatorTaskTag (do_Header q) = itt \<and>
      do_BufferOffset q = off + of_nat (length (concat (map raw_DataSegment (take k (ps @ ps')))))" if k: "k < length (ps @ ps')" for k
  proof (cases "k < length ps")
    case True
    then show ?thesis using assms(1) by (simp add: transfers_def nth_append)
  next
    case False
    then have "k - length ps < length ps'" using k by simp
    then obtain q where "DecodeBHS (raw_BHS (ps' ! (k - length ps))) = Inr (PDataOut q)" "InitiatorTaskTag (do_Header q) = itt"
      "do_BufferOffset q = off + of_nat (length d) + of_nat (length (concat (map raw_DataSegment (take (k - length ps) ps'))))"
      using assms(2) unfolding transfers_def by blast
    then show ?thesis using assms(1) False by (simp add: transfers_def nth_append add.assoc)
  qed
  then show ?thesis using assms by (simp add: transfers_def)
qed

lemma burst_transfers:
  assumes "0 < unat mx" "unat mx < 2 ^ 24" "\<not> rd_fails r" "d = take (unat n) (unread r)" "d \<noteq> []"
    "length (unread r) < unat n \<Longrightarrow> length (unread r) mod unat mx \<noteq> 0"
  shows "\<exists>b. sendDataOutBurst itt ttt off n es (stampDigests dh dd) r mx = Some (None, b) \<and>
    unread (bu_reader b) = drop (length d) (unread r) \<and> \<not> rd_fails (bu_reader b) \<and> transfers itt off d (bu_out b)"
proof -
  let ?m = "unat mx"
  obtain b where b: "sendDataOutBurst itt ttt off n es (stampDigests dh dd) r mx = Some (None, b)"
    "unread (bu_reader b) = drop (length d) (unread r)" "\<not> rd_fails (bu_reader b)" "concat (map raw_DataSegment (bu_out b)) = d"
    "map raw_DataSegment (bu_out b) = map (\<lambda>k. take ?m (drop (k * ?m) d)) [0..<pieceCount ?m d]"
    "\<forall>k<length (bu_out b). length (raw_DataSegment (bu_out b ! k)) \<le> ?m \<and> DecodeBHS (raw_BHS (bu_out b ! k)) = Inr (norm_PDU (PDataOut (dataOutPDU itt ttt (Suc k = length (bu_out b))
      (es k) (of_nat k) (off + of_nat (k * ?m)) (raw_DataSegment (bu_out b ! k)))))"
    using burst_run [OF assms(1,2,4,3,5,6), of itt ttt off es dh dd, simplified implies_True_equals True_implies_equals] by blast
  have n: "length (bu_out b) = pieceCount ?m d" using arg_cong [OF b(5), of length] by simp
  have "\<exists>q. DecodeBHS (raw_BHS (bu_out b ! k)) = Inr (PDataOut q) \<and> InitiatorTaskTag (do_Header q) = itt \<and>
      do_BufferOffset q = off + of_nat (length (concat (map raw_DataSegment (take k (bu_out b)))))" if k: "k < length (bu_out b)" for k
  proof -
    have "k * ?m < length d" using pieceCount_less [OF assms(1)] k n by simp
    moreover have "take k (map raw_DataSegment (bu_out b)) = map (\<lambda>k. take ?m (drop (k * ?m) d)) [0..<k]"
      unfolding b(5) using k n by (simp add: take_map)
    then have "map raw_DataSegment (take k (bu_out b)) = map (\<lambda>k. take ?m (drop (k * ?m) d)) [0..<k]" by (simp add: take_map)
    ultimately have "length (concat (map raw_DataSegment (take k (bu_out b)))) = k * ?m" by (simp add: pieces_prefix)
    then show ?thesis using b(6) k by (simp add: norm_DataOut_def dataOutPDU_def)
  qed
  then show ?thesis using b(1-4) unfolding transfers_def by blast
qed

section \<open>Serving R2Ts\<close>

text \<open>The task at \<open>a\<close> has \<open>d\<close> left to send.\<close>

definition writing :: "u32 \<Rightarrow> nat \<Rightarrow> bytes \<Rightarrow> Session \<Rightarrow> bool" where
  "writing itt a d s \<longleftrightarrow> a < length (ss_objs s) \<and> tk_itt (ss_objs s ! a) = itt \<and>
     (\<exists>r. tk_reader (ss_objs s ! a) = Some r \<and> unread r = d \<and> \<not> rd_fails r)"

lemma receiveR2T_transfers:
  assumes "writing itt a d s" "0 < unat (np_MaxRecvDataSegmentLength (ss_params s))" "unat (np_MaxRecvDataSegmentLength (ss_params s)) < 2 ^ 24"
    "rt_DesiredDataTransferLength p \<le> np_MaxBurstLength (ss_params s)" "unat (rt_DesiredDataTransferLength p) \<le> length d"
    "rt_DesiredDataTransferLength p \<noteq> 0"
  shows "\<exists>s' ps. receiveR2T p a s = Done (True, s') \<and> writing itt a (drop (unat (rt_DesiredDataTransferLength p)) d) s' \<and>
    ss_params s' = ss_params s \<and> wr_sent (ss_write s') = wr_sent (ss_write s) @ ps \<and>
    transfers itt (rt_BufferOffset p) (take (unat (rt_DesiredDataTransferLength p)) d) ps"
proof -
  define u where "u = updateStatSN (rt_StatSN p) (noteWindow (rt_ExpCmdSN p) (rt_MaxCmdSN p) s)"
  have u: "ss_objs u = ss_objs s" "ss_params u = ss_params s" "ss_write u = ss_write s"
    by (simp_all add: u_def updateStatSN_def noteWindow_def Let_def)
  obtain r where r: "a < length (ss_objs s)" "tk_itt (ss_objs s ! a) = itt" "tk_reader (ss_objs s ! a) = Some r" "unread r = d" "\<not> rd_fails r"
    using assms(1) by (auto simp: writing_def)
  let ?n = "rt_DesiredDataTransferLength p" and ?mx = "np_MaxRecvDataSegmentLength (ss_params s)"
  have "take (unat ?n) (unread r) \<noteq> []" "length (unread r) < unat ?n \<Longrightarrow> length (unread r) mod unat ?mx \<noteq> 0"
    using assms(5,6) r(4) by (auto simp: unat_eq_0)
  from burst_transfers [OF assms(2,3) r(5) refl this, unfolded r(4), of itt "rt_TargetTransferTag p" "rt_BufferOffset p"
      "\<lambda>_. ss_expStatSN u" "cn_digestHeader (ss_conn u)" "cn_digestData (ss_conn u)"]
  obtain b where b: "sendDataOutBurst itt (rt_TargetTransferTag p) (rt_BufferOffset p) ?n (\<lambda>_. ss_expStatSN u) (sessionStamp u) r ?mx = Some (None, b)"
    "unread (bu_reader b) = drop (unat ?n) d" "\<not> rd_fails (bu_reader b)" "transfers itt (rt_BufferOffset p) (take (unat ?n) d) (bu_out b)"
    using assms(5) unfolding sessionStamp_def by auto
  let ?t = "(ss_objs s ! a)\<lparr>tk_reader := Some (bu_reader b)\<rparr>"
  have "handleR2T p (\<lambda>_. ss_expStatSN u) (ss_params u) (sessionStamp u) (ss_objs u ! a) = Done (Some (None, ?t, bu_out b))"
    using assms(4) b(1) r(2,3) by (simp add: handleR2T_def u Let_def min_def)
  then have "receiveR2T p a s = Done (True, sentPDUs (bu_out b) (setTask a ?t u))"
    unfolding receiveR2T_def Let_def u_def [symmetric] by simp
  then show ?thesis
    using b(2-4) r(1,2) by (intro exI [of _ "sentPDUs (bu_out b) (setTask a ?t u)"] exI [of _ "bu_out b"])
      (simp add: writing_def sentPDUs_def setTask_def u)
qed

text \<open>R2Ts that ask for \<open>n\<close> bytes from the offset \<open>off\<close> on, one after the other.\<close>

fun solicit :: "u32 \<Rightarrow> nat \<Rightarrow> nat \<Rightarrow> R2T list \<Rightarrow> bool" where
  "solicit mb off n [] = (n = 0)"
| "solicit mb off n (p # ps) =
     (let m = unat (rt_DesiredDataTransferLength p)
      in rt_BufferOffset p = of_nat off \<and> 0 < m \<and> m \<le> n \<and> rt_DesiredDataTransferLength p \<le> mb \<and> solicit mb (off + m) (n - m) ps)"

definition carriesR2T :: "RawPDU \<Rightarrow> R2T \<Rightarrow> bool" where
  "carriesR2T raw p \<longleftrightarrow> DecodeBHS (raw_BHS raw) = Inr (PR2T p)"

lemma receiveAll_transfers:
  assumes "writing itt a d s" "0 < unat (np_MaxRecvDataSegmentLength (ss_params s))" "unat (np_MaxRecvDataSegmentLength (ss_params s)) < 2 ^ 24"
    "solicit (np_MaxBurstLength (ss_params s)) off (length d) ps" "list_all2 carriesR2T raws ps"
  shows "\<exists>s' out. receiveAll raws a s = Done (True, s') \<and> writing itt a [] s' \<and> wr_sent (ss_write s') = wr_sent (ss_write s) @ out \<and>
    transfers itt (of_nat off) d out"
  using assms
proof (induction ps arbitrary: raws d s off)
  case Nil
  then show ?case by (intro exI [of _ s] exI [of _ "[]"]) (simp add: transfers_def)
next
  case (Cons p ps)
  let ?n = "unat (rt_DesiredDataTransferLength p)"
  obtain raw raws' where raws: "raws = raw # raws'" "carriesR2T raw p" "list_all2 carriesR2T raws' ps"
    using Cons.prems(5) by (auto simp: list_all2_Cons2)
  have p: "rt_BufferOffset p = of_nat off" "0 < ?n" "?n \<le> length d" "rt_DesiredDataTransferLength p \<le> np_MaxBurstLength (ss_params s)"
    "solicit (np_MaxBurstLength (ss_params s)) (off + ?n) (length d - ?n) ps" "rt_DesiredDataTransferLength p \<noteq> 0"
    using Cons.prems(4) by (auto simp: Let_def unat_gt_0)
  obtain s' out where s': "receiveR2T p a s = Done (True, s')" "writing itt a (drop ?n d) s'" "ss_params s' = ss_params s"
    "wr_sent (ss_write s') = wr_sent (ss_write s) @ out" "transfers itt (of_nat off) (take ?n d) out"
    using receiveR2T_transfers [OF Cons.prems(1-3) p(4,3,6)] p(1) by auto
  have "\<exists>s'' out'. receiveAll raws' a s' = Done (True, s'') \<and> writing itt a [] s'' \<and> wr_sent (ss_write s'') = wr_sent (ss_write s') @ out' \<and>
      transfers itt (of_nat (off + ?n)) (drop ?n d) out'"
    by (rule Cons.IH [OF s'(2)]) (use Cons.prems(2,3) p(5) raws(3) s'(3) in simp_all)
  then obtain s'' out' where s'': "receiveAll raws' a s' = Done (True, s'')" "writing itt a [] s''"
    "wr_sent (ss_write s'') = wr_sent (ss_write s') @ out'" "transfers itt (of_nat (off + ?n)) (drop ?n d) out'" by blast
  have "transfers itt (of_nat off) (take ?n d @ drop ?n d) (out @ out')"
    using s'(5) s''(4) p(3) by (intro transfers_append) simp_all
  moreover have "receiveAll raws a s = Done (True, s'')"
    using raws(1,2) s'(1) s''(1) by (simp add: taskReceive_def carriesR2T_def)
  ultimately show ?case using s'(4) s''(2,3) by (intro exI [of _ s''] exI [of _ "out @ out'"]) simp
qed

section \<open>Submitting a write\<close>

lemma readImmediate_takes:
  assumes "\<not> rd_fails r" "unread r \<noteq> []" "imm = take (unat (min (np_FirstBurstLength ps) (np_MaxRecvDataSegmentLength ps))) (unread r)"
  shows "\<exists>r'. readImmediate ps r t = (Inr imm, t\<lparr>tk_reader := Some r', tk_bytesSent := of_nat (length imm)\<rparr>) \<and>
    unread r' = drop (length imm) (unread r) \<and> \<not> rd_fails r'"
proof -
  let ?n = "unat (min (np_FirstBurstLength ps) (np_MaxRecvDataSegmentLength ps))"
  obtain got e r' where rd: "io_ReadFull ?n r = ((got, e), r')" by (metis prod.collapse)
  note next' = io_ReadFull_next [OF rd] and err = io_ReadFull_err [OF rd]
  have e: "e = None \<or> e = Some IO_UnexpectedEOF"
    using err assms(1,2) by (cases "?n \<le> length (unread r)") (simp_all add: not_le)
  have g: "got = imm" "unread r' = drop (length imm) (unread r)" "\<not> rd_fails r'" using next' assms(1,3) by simp_all
  show ?thesis using e g by (auto simp: readImmediate_def rd Let_def)
qed

text \<open>
  The unsolicited data that follows a command without InitialR2T; what is left then has to be asked for. The burst only
  succeeds if it is full, or if the reader ends inside one of its pieces.
\<close>

definition unsolicitedOf :: "NegotiatedParams \<Rightarrow> bytes \<Rightarrow> bytes \<Rightarrow> bytes" where
  "unsolicitedOf ps imm rest = (if np_InitialR2T ps then [] else take (unat (np_FirstBurstLength ps) - length imm) rest)"

definition burstFits :: "NegotiatedParams \<Rightarrow> bytes \<Rightarrow> bytes \<Rightarrow> bool" where
  "burstFits ps imm rest \<longleftrightarrow>
     (let n = unat (np_FirstBurstLength ps) - length imm
      in np_InitialR2T ps \<or> n = 0 \<or> n \<le> length rest \<or> length rest mod unat (np_MaxRecvDataSegmentLength ps) \<noteq> 0)"

lemma unsolicited_transfers:
  assumes "\<not> np_InitialR2T ps" "tk_reader t = Some r" "unread r = rest" "\<not> rd_fails r" "tk_bytesSent t = of_nat (length imm)"
    "length imm \<le> unat (np_FirstBurstLength ps)" "0 < unat (np_MaxRecvDataSegmentLength ps)" "unat (np_MaxRecvDataSegmentLength ps) < 2 ^ 24"
    "burstFits ps imm rest"
  shows "\<exists>t' out r'. sendUnsolicitedDataOut es ps (stampDigests dh dd) t = Done (Some (None, t', out)) \<and> tk_itt t' = tk_itt t \<and>
    tk_reader t' = Some r' \<and> unread r' = drop (length (unsolicitedOf ps imm rest)) rest \<and> \<not> rd_fails r' \<and>
    transfers (tk_itt t) (of_nat (length imm)) (unsolicitedOf ps imm rest) out"
proof -
  let ?n = "np_FirstBurstLength ps - tk_bytesSent t" and ?u = "unsolicitedOf ps imm rest"
  have b: "unat (of_nat (length imm) :: u32) = length imm" using assms(6) unsigned_less [of "np_FirstBurstLength ps", where ?'a = nat] by (simp add: unat_of_nat_u32)
  have n: "unat ?n = unat (np_FirstBurstLength ps) - length imm"
    using assms(6) b by (simp add: assms(5) unat_sub word_le_nat_alt)
  show ?thesis
  proof (cases "?n = 0")
    case True
    then have "?u = []" using n by (simp add: unsolicitedOf_def)
    then show ?thesis using True assms(2-4) by (simp add: sendUnsolicitedDataOut_def transfers_def)
  next
    case False
    have pos: "0 < unat ?n" using False by (simp add: unat_gt_0)
    have u: "?u = take (unat ?n) (unread r)" using assms(1,3) n by (simp add: unsolicitedOf_def)
    have f: "unat ?n \<le> length rest \<or> length rest mod unat (np_MaxRecvDataSegmentLength ps) \<noteq> 0"
      using assms(1,9) pos n by (simp add: burstFits_def Let_def)
    then have ne: "?u \<noteq> []" using pos assms(3) by (auto simp: u)
    have full: "length (unread r) < unat ?n \<Longrightarrow> length (unread r) mod unat (np_MaxRecvDataSegmentLength ps) \<noteq> 0" using f assms(3) by auto
    obtain b where b: "sendDataOutBurst (tk_itt t) 0xFFFFFFFF (tk_bytesSent t) ?n es (stampDigests dh dd) r (np_MaxRecvDataSegmentLength ps) = Some (None, b)"
      "unread (bu_reader b) = drop (length ?u) (unread r)" "\<not> rd_fails (bu_reader b)" "transfers (tk_itt t) (tk_bytesSent t) ?u (bu_out b)"
      using burst_transfers [OF assms(7,8,4) u ne full] by blast
    then show ?thesis using False assms(2,3,5) by (simp add: sendUnsolicitedDataOut_def)
  qed
qed

lemma submit_write:
  assumes "submitCheck s = None" "acquireFast (ss_window s) = Granted sn w" "accepting (ss_write s)"
    "cm_Data cmd = Some r" "\<not> rd_fails r" "unread r \<noteq> []" "burstFits (ss_params s) imm rest"
    "cm_LUN cmd \<le> 0xFFFF" "length (cm_CDB cmd) = 16" "unat (cm_TaskAttributes cmd) < 8"
    "0 < unat (np_MaxRecvDataSegmentLength (ss_params s))" "unat (np_MaxRecvDataSegmentLength (ss_params s)) < 2 ^ 24"
    "imm = immediateOf cmd (ss_params s)" "rest = drop (length imm) (unread r)" "uns = unsolicitedOf (ss_params s) imm rest"
  shows "\<exists>a s' raw out. Submit ctxEnds cmd s = Done (Inr a, s') \<and> wr_sent (ss_write s') = wr_sent (ss_write s) @ sessionStamp s raw # out \<and>
    raw_DataSegment raw = imm \<and> transfers (fst (AllocateITT (ss_router s))) (of_nat (length imm)) uns out \<and>
    writing (fst (AllocateITT (ss_router s))) a (drop (length uns) rest) s' \<and> ss_params s' = ss_params s"
proof -
  obtain itt r0 where al: "AllocateITT (ss_router s) = (itt, r0)" by force
  obtain ch rt where rp: "RegisterPersistent itt r0 = (ch, rt)" by force
  let ?ps = "ss_params s" and ?a = "length (ss_objs s)"
  let ?t = "makeTask 0 cmd itt sn (s\<lparr>ss_window := w, ss_router := rt\<rparr>)"
  let ?s0 = "s\<lparr>ss_window := w, ss_router := rt, ss_objs := ss_objs s @ [?t], ss_tasks := AList.update itt ?a (ss_tasks s)\<rparr>"
  have t: "tk_reader ?t = Some r" "tk_isWrite ?t" "tk_itt ?t = itt" "tk_cmdSN ?t = sn" "tk_cmd ?t = cmd\<lparr>cm_Write := True\<rparr>" "tk_bytesSent ?t = 0"
    using assms(4) by (simp_all add: makeTask_def newTask_def Let_def)
  obtain t' r' where t': "(if tk_isWrite ?t \<and> np_ImmediateData ?ps then readImmediate ?ps r ?t else (Inr [], ?t)) = (Inr imm, t')"
    "tk_reader t' = Some r'" "unread r' = rest" "\<not> rd_fails r'" "tk_itt t' = itt" "tk_cmdSN t' = sn"
    "tk_cmd t' = cmd\<lparr>cm_Write := True\<rparr>" "tk_bytesSent t' = of_nat (length imm)" "tk_isWrite t'"
  proof (cases "np_ImmediateData ?ps")
    case True
    then have "imm = take (unat (min (np_FirstBurstLength ?ps) (np_MaxRecvDataSegmentLength ?ps))) (unread r)"
      using assms(4,13) by (simp add: immediateOf_def)
    from readImmediate_takes [OF assms(5,6) this, of ?t] obtain r' where
      "readImmediate ?ps r ?t = (Inr imm, ?t\<lparr>tk_reader := Some r', tk_bytesSent := of_nat (length imm)\<rparr>)"
      "unread r' = drop (length imm) (unread r)" "\<not> rd_fails r'" by blast
    then show ?thesis using True t assms(14) by (intro that [of "?t\<lparr>tk_reader := Some r', tk_bytesSent := of_nat (length imm)\<rparr>" r']) simp_all
  next
    case False
    then show ?thesis using t assms(4,5,13,14) by (intro that [of ?t r]) (simp_all add: immediateOf_def)
  qed
  have im: "length imm \<le> unat (np_MaxRecvDataSegmentLength ?ps)" "length imm \<le> unat (np_FirstBurstLength ?ps)"
    using assms(4,13) by (simp_all add: immediateOf_def min_def word_le_nat_alt)
  then have l: "length imm \<le> 0xFFFFFF" using assms(12) by simp
  obtain raw where raw: "buildSCSICommandPDU (tk_cmd t') itt sn (ss_expStatSN s) imm = Done (Inr raw)" "raw_DataSegment raw = imm"
    using build_command_succeeds [of "cmd\<lparr>cm_Write := True\<rparr>" imm itt sn "ss_expStatSN s", OF _ _ _ l] assms(8-10) t'(7) by auto
  let ?u = "setTask ?a t' ?s0"
  obtain v where v: "sendPDU raw ?u = (True, v)" "ss_objs v = ss_objs s @ [t']" "ss_params v = ss_params s"
    "wr_sent (ss_write v) = wr_sent (ss_write s) @ [sessionStamp s raw]" "ss_conn v = ss_conn s"
    using assms(3) by (auto simp: sendPDU_def trySend_def accepting_def setTask_def sessionStamp_def Let_def)
  have "\<exists>s' out. submitUnsolicited ?a ch v = Done (Inr ?a, s') \<and> wr_sent (ss_write s') = wr_sent (ss_write v) @ out \<and>
      transfers itt (of_nat (length imm)) uns out \<and> writing itt ?a (drop (length uns) rest) s' \<and> ss_params s' = ss_params s"
  proof (cases "np_InitialR2T ?ps")
    case True
    then have "uns = []" using assms(15) by (simp add: unsolicitedOf_def)
    then show ?thesis
      using True v(2,3) t'(2-5) by (intro exI [of _ "v\<lparr>ss_loops := (?a, ch) # ss_loops v\<rparr>"] exI [of _ "[]"])
        (simp add: submitUnsolicited_def transfers_def writing_def)
  next
    case False
    from unsolicited_transfers [OF False t'(2-4,8) im(2) assms(11,12,7), of "\<lambda>_. ss_expStatSN v" "cn_digestHeader (ss_conn v)" "cn_digestData (ss_conn v)"]
    obtain t'' out r'' where t'': "sendUnsolicitedDataOut (\<lambda>_. ss_expStatSN v) ?ps (sessionStamp v) t' = Done (Some (None, t'', out))"
      "tk_itt t'' = itt" "tk_reader t'' = Some r''" "unread r'' = drop (length uns) rest" "\<not> rd_fails r''" "transfers itt (of_nat (length imm)) uns out"
      unfolding sessionStamp_def assms(15) t'(5) by blast
    let ?x = "sentPDUs out (setTask ?a t'' v)"
    have "submitUnsolicited ?a ch v = Done (Inr ?a, ?x\<lparr>ss_loops := (?a, ch) # ss_loops ?x\<rparr>)"
      using False t''(1) t'(9) by (simp add: submitUnsolicited_def v(2,3) Let_def)
    then show ?thesis
      using t''(2-6) v(2,3) by (intro exI [of _ "?x\<lparr>ss_loops := (?a, ch) # ss_loops ?x\<rparr>"] exI [of _ out])
        (simp add: writing_def sentPDUs_def setTask_def)
  qed
  then obtain s' out where s': "submitUnsolicited ?a ch v = Done (Inr ?a, s')" "wr_sent (ss_write s') = wr_sent (ss_write v) @ out"
    "transfers itt (of_nat (length imm)) uns out" "writing itt ?a (drop (length uns) rest) s'" "ss_params s' = ss_params s" by blast
  have "(case tk_reader (ss_objs ?s0 ! ?a) of
        Some r \<Rightarrow> if tk_isWrite (ss_objs ?s0 ! ?a) \<and> np_ImmediateData (ss_params ?s0)
                   then readImmediate (ss_params ?s0) r (ss_objs ?s0 ! ?a) else (Inr [], ss_objs ?s0 ! ?a)
      | None \<Rightarrow> (Inr [], ss_objs ?s0 ! ?a)) = (Inr imm, t')" using t(1) t'(1) by (cases "np_ImmediateData ?ps") (simp_all add: t(2))
  moreover have "ss_expStatSN ?u = ss_expStatSN s" by (simp add: setTask_def)
  ultimately have "submitCommand ?a ch ?s0 = Done (Inr ?a, s')"
    using t'(5,6) raw(1) v(1) s'(1) unfolding submitCommand_def Let_def by simp
  then have "Submit ctxEnds cmd s = Done (Inr ?a, s')"
    using assms(1,2) al rp by (simp add: Submit_def submitWith_def acquire_def submitGranted_def Let_def)
  then show ?thesis
    using v(4) raw(2) s'(2-5) al by (intro exI [of _ ?a] exI [of _ s'] exI [of _ raw] exI [of _ out]) simp
qed

section \<open>What goes wrong\<close>

text \<open>
  Without InitialR2T a write that fits into its immediate data fails: the burst of unsolicited data that
  follows finds its reader at the end, and \<open>Submit\<close> reports that as an error after the command was sent.
\<close>

lemma immediate_write_fails_without_initial_r2t:
  assumes "tk_reader t = Some r" "unread r = []" "\<not> rd_fails r" "tk_bytesSent t < np_FirstBurstLength ps"
    "np_MaxRecvDataSegmentLength ps \<noteq> 0"
  shows "\<exists>t'. sendUnsolicitedDataOut es ps stamp t = Done (Some (Some (ErrReadData IO_EOF), t', []))"
proof -
  let ?n = "np_FirstBurstLength ps - tk_bytesSent t" and ?mx = "np_MaxRecvDataSegmentLength ps"
  have n: "\<not> ?n \<le> 0" "min ?mx ?n \<noteq> 0" using assms(4,5) by (auto simp: min_def)
  have pos: "0 < ?n" using assms(4) by (simp add: word_gt_0)
  have "io_ReadFull (unat (min ?mx ?n)) r = (([], Some IO_EOF), r)"
    using assms(2,3) n(2) by (simp add: io_ReadFull_def unat_eq_0)
  then have "\<exists>b. sendDataOutBurst (tk_itt t) 0xFFFFFFFF (tk_bytesSent t) ?n es stamp r ?mx = Some (Some (ErrReadData IO_EOF), b) \<and> bu_out b = []"
    using pos by (simp add: sendDataOutBurst_def burstLoop.simps burstRound_def)
  then show ?thesis using n(1) assms(1) by (auto simp: sendUnsolicitedDataOut_def)
qed

section \<open>Properties\<close>

text \<open>C4. A write sends each byte of its data exactly once and at its offset: the command carries the immediate data and the first
  burst the unsolicited data that the negotiated parameters allow, and when the target asks for the rest with R2Ts, one after the
  other, the Data-Out PDUs carry exactly the rest, in order, each at the offset that follows what was sent before it, and nothing
  is left in the reader. An unsolicited burst that the data does not fill has to end inside a piece (\<open>burstFits\<close>).\<close>

theorem write_command_transfers_data:
  assumes "submitCheck s = None" "acquireFast (ss_window s) = Granted sn w" "accepting (ss_write s)"
    "cm_Data cmd = Some r" "\<not> rd_fails r" "unread r \<noteq> []" "burstFits (ss_params s) imm rest"
    "cm_LUN cmd \<le> 0xFFFF" "length (cm_CDB cmd) = 16" "unat (cm_TaskAttributes cmd) < 8"
    "0 < unat (np_MaxRecvDataSegmentLength (ss_params s))" "unat (np_MaxRecvDataSegmentLength (ss_params s)) < 2 ^ 24"
    "imm = immediateOf cmd (ss_params s)" "rest = drop (length imm) (unread r)" "uns = unsolicitedOf (ss_params s) imm rest"
    "solicit (np_MaxBurstLength (ss_params s)) (length imm + length uns) (length rest - length uns) r2ts" "list_all2 carriesR2T raws r2ts"
  shows "\<exists>a s' s'' raw out. Submit ctxEnds cmd s = Done (Inr a, s') \<and> receiveAll raws a s' = Done (True, s'') \<and>
    wr_sent (ss_write s'') = wr_sent (ss_write s) @ sessionStamp s raw # out \<and> raw_DataSegment raw = imm \<and> imm @ rest = unread r \<and>
    transfers (fst (AllocateITT (ss_router s))) (of_nat (length imm)) rest out \<and> writing (fst (AllocateITT (ss_router s))) a [] s''"
proof -
  let ?itt = "fst (AllocateITT (ss_router s))"
  obtain a s' raw out0 where s': "Submit ctxEnds cmd s = Done (Inr a, s')" "wr_sent (ss_write s') = wr_sent (ss_write s) @ sessionStamp s raw # out0"
    "raw_DataSegment raw = imm" "transfers ?itt (of_nat (length imm)) uns out0" "writing ?itt a (drop (length uns) rest) s'" "ss_params s' = ss_params s"
    using submit_write [OF assms(1-15), of ctxEnds] by blast
  obtain s'' out where s'': "receiveAll raws a s' = Done (True, s'')" "writing ?itt a [] s''"
    "wr_sent (ss_write s'') = wr_sent (ss_write s') @ out" "transfers ?itt (of_nat (length imm + length uns)) (drop (length uns) rest) out"
    using receiveAll_transfers [OF s'(5), of "length imm + length uns" r2ts raws] assms(11,12,16,17) s'(6) by auto
  have "uns @ drop (length uns) rest = rest"
    unfolding assms(15) unsolicitedOf_def by (cases "np_InitialR2T (ss_params s)") (simp_all add: min_def)
  moreover have "transfers ?itt (of_nat (length imm)) (uns @ drop (length uns) rest) (out0 @ out)"
    using transfers_append [OF s'(4), of _ out] s''(4) by simp
  ultimately have "transfers ?itt (of_nat (length imm)) rest (out0 @ out)" by simp
  moreover obtain k where "imm = take k (unread r)" using assms(4,13) that [of 0] by (auto simp: immediateOf_def split: if_splits)
  then have "imm @ rest = unread r" using assms(14) by (cases "k \<le> length (unread r)") simp_all
  ultimately show ?thesis using s'(1-3) s''(1-3) by (intro exI [of _ a] exI [of _ s'] exI [of _ s''] exI [of _ raw] exI [of _ "out0 @ out"]) simp
qed

section \<open>Witness\<close>

definition writeSession :: Session where
  "writeSession = sampleSession\<lparr>ss_params := (ss_params sampleSession)\<lparr>np_InitialR2T := False, np_FirstBurstLength := 4, np_MaxRecvDataSegmentLength := 2\<rparr>\<rparr>"

definition sampleR2T :: R2T where
  "sampleR2T = \<lparr>rt_Header = zeroHeader, rt_TargetTransferTag = 9, rt_StatSN = 1, rt_ExpCmdSN = 1, rt_MaxCmdSN = 5, rt_R2TSN = 0,
     rt_BufferOffset = 4, rt_DesiredDataTransferLength = 3\<rparr>"

lemma sampleR2T_carried: "\<exists>raw. carriesR2T raw (norm_R2T sampleR2T)"
proof -
  have "wf_R2T sampleR2T" by (simp add: wf_R2T_def sampleR2T_def wf_Header_def zeroHeader_def)
  then obtain b where "DecodeBHS b = Inr (PR2T (norm_R2T sampleR2T))" using MarshalBHS_roundtrip [of "PR2T sampleR2T"] by auto
  then show ?thesis by (intro exI [of _ "bareRaw b []"]) (simp add: carriesR2T_def bareRaw_def)
qed

theorem write_command_transfers_data_witness:
  "\<exists>raw a s' s'' cmd out. carriesR2T raw (norm_R2T sampleR2T) \<and>
    Submit False (Write10 0 0 1 512 (Some (bytes_NewReader [1, 2, 3, 4, 5, 6, 7])) []) writeSession = Done (Inr a, s') \<and>
    receiveAll [raw] a s' = Done (True, s'') \<and> wr_sent (ss_write s'') = wr_sent (ss_write writeSession) @ cmd # out \<and>
    concat (map raw_DataSegment out) = [3, 4, 5, 6, 7]"
proof -
  obtain raw where raw: "carriesR2T raw (norm_R2T sampleR2T)" using sampleR2T_carried by blast
  let ?cmd = "Write10 0 0 1 512 (Some (bytes_NewReader [1, 2, 3, 4, 5, 6, 7])) []"
  have cmd: "cm_Data ?cmd = Some (bytes_NewReader [1, 2, 3, 4, 5, 6, 7])" "cm_LUN ?cmd \<le> 0xFFFF" "length (cm_CDB ?cmd) = 16"
    "unat (cm_TaskAttributes ?cmd) < 8"
    by (simp_all add: Write10_def zeroCommand_def applyOptions_def or_if_def PutUint32_def PutUint16_def Let_def)
  have s: "submitCheck writeSession = None" "acquireFast (ss_window writeSession) = Granted 1 ((ss_window sampleSession)\<lparr>cw_cmdSN := 2\<rparr>)"
    "accepting (ss_write writeSession)"
    using sample_session(1,2,5) by (simp_all add: writeSession_def submitCheck_def split: if_splits)
  have p: "\<not> np_InitialR2T (ss_params writeSession)" "np_ImmediateData (ss_params writeSession)" "np_MaxRecvDataSegmentLength (ss_params writeSession) = 2"
    "np_FirstBurstLength (ss_params writeSession) = 4" "3 \<le> np_MaxBurstLength (ss_params writeSession)"
    by (simp_all add: writeSession_def sampleSession_def NewSession_def fireStateChange_def Let_def Defaults_def)
  have imm: "immediateOf ?cmd (ss_params writeSession) = [1, 2]" using cmd(1) p by (simp add: immediateOf_def)
  have f: "burstFits (ss_params writeSession) [1, 2] [3, 4, 5, 6, 7]" "unsolicitedOf (ss_params writeSession) [1, 2] [3, 4, 5, 6, 7] = [3, 4]"
    using p by (simp_all add: burstFits_def unsolicitedOf_def)
  have "solicit (np_MaxBurstLength (ss_params writeSession)) (length [1::u8, 2] + length [3::u8, 4]) (length [3::u8, 4, 5, 6, 7] - length [3::u8, 4])
      [norm_R2T sampleR2T]"
    using p(5) by (simp add: norm_R2T_def sampleR2T_def Let_def)
  from write_command_transfers_data [OF s cmd(1) _ _ f(1) cmd(2-4) _ _ imm [symmetric] _ f(2) [symmetric] this, of "[raw]" False] raw p(3)
  show ?thesis by (auto simp: transfers_def)
qed

end
