(* ===== verification/Session_Stream.thy ===== *)
theory Session_Stream
  imports Session_IO "HOL-Library.Sublist"
begin

text \<open>
  A streaming read: the task loop receives Data-In PDUs and puts their data on the bounded channel of
  the \<open>chanReader\<close>, while the caller reads from it. The two run concurrently; a state has the number of
  PDUs received and the bytes the caller has got so far.
\<close>

section \<open>The reader and the task\<close>

text \<open>After \<open>k\<close> fragments, of which the caller has read the bytes \<open>out\<close>.\<close>

definition holds :: "bytes \<Rightarrow> bytes \<Rightarrow> bool \<Rightarrow> nat \<Rightarrow> chanReader \<Rightarrow> bool" where
  "holds out rcvd eof depth cr \<longleftrightarrow> out @ cr_current cr @ concat (ch_buf (cr_ch cr)) = rcvd \<and> [] \<notin> set (ch_buf (cr_ch cr)) \<and>
     cr_err cr = None \<and> cr_closed cr = eof \<and> ch_closed (cr_ch cr) = eof \<and> ch_cap (cr_ch cr) = depth \<and>
     length (ch_buf (cr_ch cr)) \<le> depth"

definition streams :: "DataIn list \<Rightarrow> nat \<Rightarrow> nat \<Rightarrow> bytes \<Rightarrow> task \<Rightarrow> bool" where
  "streams fs depth k out t \<longleftrightarrow> k \<le> length fs \<and> tk_streaming t \<and> tk_nextDataSN t = of_nat k \<and>
     tk_nextOffset t = of_nat (length (dataUpto fs k)) \<and> pendingOf t = [] \<and>
     tk_resultCh t = (make_chan 1)\<lparr>ch_buf := if k = length fs then [statusResult (last fs) None] else []\<rparr> \<and>
     (\<exists>cr. tk_dataReader t = Some cr \<and> holds out (dataUpto fs k) (k = length fs) depth cr)"

lemma fresh_streams:
  assumes "wf_fragments fs" "0 < depth"
  shows "streams fs (nat depth) 0 [] ((newTask itt True wr depth)\<lparr>tk_lun := l, tk_cmd := c, tk_cmdSN := sn, tk_reader := rd, tk_erl := e, tk_snackTimeout := d\<rparr>)"
  using assms by (auto simp: streams_def holds_def newTask_def newChanReader_def make_chan_def pendingOf_def wf_fragments_def Let_def)

text \<open>A read of the caller: it gets the next bytes, or the end after all of them, or waits for more.\<close>

lemma reader_reads:
  assumes "holds out rcvd eof depth cr"
  shows "case chanReader_Read n cr of
      ReadBytes b cr' \<Rightarrow> holds (out @ b) rcvd eof depth cr' \<and> length (ch_buf (cr_ch cr')) \<le> length (ch_buf (cr_ch cr)) \<and> (0 < n \<longrightarrow> b \<noteq> [])
    | ReadEnds e \<Rightarrow> e = None \<and> eof \<and> out = rcvd
    | ReadBlocks \<Rightarrow> \<not> eof \<and> out = rcvd"
proof (cases "cr_current cr")
  case (Cons x xs)
  then show ?thesis using assms by (auto simp: chanReader_Read_def holds_def neq_Nil_conv)
next
  case Nil
  show ?thesis
  proof (cases "ch_buf (cr_ch cr)")
    case (Cons chunk chunks)
    then show ?thesis using assms Nil
      by (auto simp: chanReader_Read_def holds_def chan_recv_def Let_def)
  qed (use assms Nil in \<open>auto simp: chanReader_Read_def holds_def chan_recv_def\<close>)
qed

text \<open>A Data-In: its data goes on the channel, or the loop waits until the caller has made room.\<close>

lemma streamed_onReceive [simp]: "tk_dataReader (onReceive t) = tk_dataReader t"
  by (simp add: resetSnackTimer_def) (simp add: startSnackTimer_def)

lemma streams_onReceive: "streams fs depth k out t \<Longrightarrow> streams fs depth k out (onReceive t)"
  unfolding streams_def onReceive_sel streamed_onReceive .

lemma store_streams:
  assumes "streams fs depth k out t" "k < length fs" "tk_dataReader t = Some cr" "di_Data (fs ! k) = [] \<or> length (ch_buf (cr_ch cr)) < depth"
  shows "\<exists>t' cr'. storeData (di_Data (fs ! k)) t = Done t' \<and> tk_dataReader t' = Some cr' \<and> holds out (dataUpto fs (Suc k)) False depth cr' \<and>
    tk_streaming t' \<and> tk_nextDataSN t' = of_nat k \<and> tk_nextOffset t' = of_nat (length (dataUpto fs k)) \<and> pendingOf t' = [] \<and>
    tk_resultCh t' = make_chan 1"
proof -
  have h: "holds out (dataUpto fs k) False depth cr" using assms(1,2,3) by (auto simp: streams_def)
  have t: "tk_streaming t" "tk_nextDataSN t = of_nat k" "tk_nextOffset t = of_nat (length (dataUpto fs k))" "pendingOf t = []" "tk_resultCh t = make_chan 1"
    using assms(1,2) by (simp_all add: streams_def make_chan_def)
  show ?thesis
  proof (cases "di_Data (fs ! k) = []")
    case True
    then show ?thesis using t assms(2,3) h by (intro exI [of _ t] exI [of _ cr]) (simp add: storeData_def dataUpto_Suc)
  next
    case False
    let ?c = "(cr_ch cr)\<lparr>ch_buf := ch_buf (cr_ch cr) @ [di_Data (fs ! k)]\<rparr>"
    have "chan_send (cr_ch cr) (di_Data (fs ! k)) = Sent ?c" using assms(4) False h by (simp add: chan_send_def holds_def)
    then have "storeData (di_Data (fs ! k)) t = Done (t\<lparr>tk_dataReader := Some (cr\<lparr>cr_ch := ?c\<rparr>)\<rparr>)"
      using False t(1) assms(3) by (simp add: storeData_def)
    moreover have "holds out (dataUpto fs (Suc k)) False depth (cr\<lparr>cr_ch := ?c\<rparr>)"
      using h assms(2,4) False by (auto simp: holds_def dataUpto_Suc)
    ultimately show ?thesis using t by (simp add: pendingOf_def)
  qed
qed

lemma data_arrives:
  assumes "wf_fragments fs" "streams fs depth k out t" "k < length fs" "tk_dataReader t = Some cr"
  shows "if di_Data (fs ! k) \<noteq> [] \<and> depth \<le> length (ch_buf (cr_ch cr)) then handleDataIn es (fs ! k) t w = Stuck
    else \<exists>t' w'. handleDataIn es (fs ! k) t w = Done (t', w') \<and> streams fs depth (Suc k) out t'"
proof -
  let ?t = "onReceive t"
  have f: "di_DataSN (fs ! k) = of_nat k" "di_BufferOffset (fs ! k) = of_nat (length (dataUpto fs k))" "di_HasStatus (fs ! k) \<longleftrightarrow> Suc k = length fs"
    using assms(1,3) by (auto simp: wf_fragments_def)
  have s: "streams fs depth k out ?t" "tk_dataReader ?t = Some cr" using streams_onReceive [OF assms(2)] assms(4) by simp_all
  have run: "handleDataIn es (fs ! k) t w = handleInOrder es (fs ! k) ?t w"
    using s(1) f(1,2) unfolding handleDataIn_def Let_def streams_def by simp
  show ?thesis
  proof (cases "di_Data (fs ! k) \<noteq> [] \<and> depth \<le> length (ch_buf (cr_ch cr))")
    case True
    have "chan_send (cr_ch cr) (di_Data (fs ! k)) = SendBlocks"
      using True s assms(3) by (auto simp: chan_send_def streams_def holds_def)
    then have "storeData (di_Data (fs ! k)) ?t = Stuck" using True s by (simp add: storeData_def streams_def)
    then show ?thesis using True run by (simp add: handleInOrder_def)
  next
    case False
    then have "di_Data (fs ! k) = [] \<or> length (ch_buf (cr_ch cr)) < depth" by auto
    from store_streams [OF s(1) assms(3) s(2) this] obtain t1 cr1 where t1: "storeData (di_Data (fs ! k)) ?t = Done t1" "tk_dataReader t1 = Some cr1"
      "holds out (dataUpto fs (Suc k)) False depth cr1" "tk_streaming t1" "tk_nextDataSN t1 = of_nat k"
      "tk_nextOffset t1 = of_nat (length (dataUpto fs k))" "pendingOf t1 = []" "tk_resultCh t1 = make_chan 1" by blast
    let ?t2 = "advance (fs ! k) t1"
    have t2: "tk_dataReader ?t2 = Some cr1" "tk_streaming ?t2" "tk_nextDataSN ?t2 = of_nat (Suc k)" "pendingOf ?t2 = []" "tk_resultCh ?t2 = make_chan 1"
      "tk_nextOffset ?t2 = of_nat (length (dataUpto fs (Suc k)))"
      using t1 assms(3) by (simp_all add: advance_def dataUpto_Suc add.commute)
    show ?thesis
    proof (cases "Suc k = length fs")
      case last: True
      let ?t3 = "(stopSnackTimer ?t2)\<lparr>tk_dataReader := Some (chanReader_close cr1), tk_resultCh := (make_chan 1)\<lparr>ch_buf := [statusResult (fs ! k) None]\<rparr>\<rparr>"
      have "handleDataIn es (fs ! k) t w = Done (?t3, acknowledge es (fs ! k) ?t2 w)"
        using False run t1(1) t2 f(3) last
        by (simp add: handleInOrder_def finishDataIn_def stopSnackTimer_def deliver_def chan_send_def make_chan_def Let_def)
      moreover have "last fs = fs ! k" using last assms(1) by (metis diff_Suc_1 last_conv_nth wf_fragments_def)
      moreover have "holds out (dataUpto fs (Suc k)) True depth (chanReader_close cr1)" using t1(3) by (simp add: holds_def chanReader_close_def)
      moreover have "tk_streaming (stopSnackTimer ?t2)" "tk_nextDataSN (stopSnackTimer ?t2) = of_nat (Suc k)"
        "tk_nextOffset (stopSnackTimer ?t2) = of_nat (length (dataUpto fs (Suc k)))"
        using t2 by (simp_all add: stopSnackTimer_def)
      moreover have "pendingOf ?t3 = []" using t2(4) by (simp add: pendingOf_def stopSnackTimer_def split: option.splits)
      ultimately show ?thesis using False last unfolding streams_def by auto
    next
      case more: False
      have "handleDataIn es (fs ! k) t w = Done (?t2, acknowledge es (fs ! k) ?t2 w)"
        using run t1(1) t2(4) f(3) more by (simp add: handleInOrder_def Let_def)
      moreover have "streams fs depth (Suc k) out ?t2"
        using t2 t1(3) more assms(3) unfolding streams_def by (auto simp: make_chan_def)
      ultimately show ?thesis using False by auto
    qed
  qed
qed

section \<open>In the session\<close>

text \<open>The task loop handles the next PDU: when the channel is full it waits.\<close>

lemma receive_streams:
  assumes "wf_fragments fs" "a < length (ss_objs s)" "streams fs depth k out (ss_objs s ! a)" "k < length fs" "carries raw (fs ! k)"
    "tk_dataReader (ss_objs s ! a) = Some cr"
  shows "if di_Data (fs ! k) \<noteq> [] \<and> depth \<le> length (ch_buf (cr_ch cr)) then taskReceive raw a s = Stuck
    else \<exists>s'. taskReceive raw a s = Done (Suc k \<noteq> length fs, s') \<and> a < length (ss_objs s') \<and> streams fs depth (Suc k) out (ss_objs s' ! a)"
proof -
  have hs: "di_HasStatus (fs ! k) \<longleftrightarrow> Suc k = length fs" using assms(1,4) by (auto simp: wf_fragments_def)
  obtain p where p: "DecodeBHS (raw_BHS raw) = Inr (PDataIn p)" "p\<lparr>di_Data := raw_DataSegment raw\<rparr> = fs ! k"
    using assms(5) by (auto simp: carries_def)
  define u where "u = (if di_HasStatus (fs ! k) then updateStatSN (di_StatSN (fs ! k)) (noteWindow (di_ExpCmdSN (fs ! k)) (di_MaxCmdSN (fs ! k)) s)
    else noteWindow (di_ExpCmdSN (fs ! k)) (di_MaxCmdSN (fs ! k)) s)"
  have u: "ss_objs u = ss_objs s" by (simp add: u_def noteWindow_def updateStatSN_def Let_def)
  have "receiveDataIn (fs ! k) a s = bindStep (handleDataIn (ss_expStatSN u) (fs ! k) (ss_objs u ! a) (ss_write u)) (\<lambda>(t, w).
      if di_HasStatus (fs ! k) then Done (False, cleanupTask (tk_itt t) (setTask a t (u\<lparr>ss_write := w\<rparr>)))
      else Done (True, setTask a t (u\<lparr>ss_write := w\<rparr>)))"
    unfolding receiveDataIn_def Let_def u_def ..
  then have run: "taskReceive raw a s = bindStep (handleDataIn (ss_expStatSN u) (fs ! k) (ss_objs s ! a) (ss_write u)) (\<lambda>(t, w).
      if di_HasStatus (fs ! k) then Done (False, cleanupTask (tk_itt t) (setTask a t (u\<lparr>ss_write := w\<rparr>)))
      else Done (True, setTask a t (u\<lparr>ss_write := w\<rparr>)))"
    by (simp add: taskReceive_def p u)
  have c: "ss_objs (cleanupTask i v) = ss_objs v" for i v by (simp add: cleanupTask_def Let_def)
  show ?thesis
    using data_arrives [OF assms(1,3,4,6), of "ss_expStatSN u" "ss_write u"] assms(2) hs
    by (auto simp: run u setTask_def c split: if_splits)
qed

text \<open>
  The task loop and the caller, in any interleaving: how many PDUs were received, and what the caller has read.
\<close>

record StreamSys =
  sv_received :: nat
  sv_read :: bytes
  sv_session :: Session

inductive stream_step :: "RawPDU list \<Rightarrow> nat \<Rightarrow> StreamSys \<Rightarrow> StreamSys \<Rightarrow> bool" for raws a where
  sv_receive: "sv_received S < length raws \<Longrightarrow> taskReceive (raws ! sv_received S) a (sv_session S) = Done (cont, s') \<Longrightarrow>
    stream_step raws a S (S\<lparr>sv_received := Suc (sv_received S), sv_session := s'\<rparr>)"
| sv_reads: "tk_dataReader (ss_objs (sv_session S) ! a) = Some cr \<Longrightarrow> chanReader_Read n cr = ReadBytes b cr' \<Longrightarrow>
    stream_step raws a S (S\<lparr>sv_read := sv_read S @ b,
      sv_session := setTask a ((ss_objs (sv_session S) ! a)\<lparr>tk_dataReader := Some cr'\<rparr>) (sv_session S)\<rparr>)"

inductive stream_run :: "RawPDU list \<Rightarrow> nat \<Rightarrow> Session \<Rightarrow> StreamSys \<Rightarrow> bool" for raws a s0 where
  sr_start: "stream_run raws a s0 \<lparr>sv_received = 0, sv_read = [], sv_session = s0\<rparr>"
| sr_step: "stream_run raws a s0 S \<Longrightarrow> stream_step raws a S S' \<Longrightarrow> stream_run raws a s0 S'"

definition stream_inv :: "DataIn list \<Rightarrow> nat \<Rightarrow> nat \<Rightarrow> StreamSys \<Rightarrow> bool" where
  "stream_inv fs depth a S \<longleftrightarrow> a < length (ss_objs (sv_session S)) \<and>
     streams fs depth (sv_received S) (sv_read S) (ss_objs (sv_session S) ! a)"

lemma stream_step_inv:
  assumes "stream_step raws a S S'" "stream_inv fs depth a S" "wf_fragments fs" "list_all2 carries raws fs"
  shows "stream_inv fs depth a S'"
  using assms(1)
proof cases
  case (sv_receive cont s')
  let ?k = "sv_received S" and ?s = "sv_session S"
  have k: "?k < length fs" "carries (raws ! ?k) (fs ! ?k)" using sv_receive(2) assms(4) by (auto simp: list_all2_conv_all_nth)
  obtain cr where cr: "tk_dataReader (ss_objs ?s ! a) = Some cr" using assms(2) by (auto simp: stream_inv_def streams_def)
  from receive_streams [OF assms(3) _ _ k cr, of depth "sv_read S"] assms(2) sv_receive
  show ?thesis by (auto simp: stream_inv_def split: if_splits)
next
  case (sv_reads cr n b cr')
  then have "streams fs depth (sv_received S) (sv_read S @ b) ((ss_objs (sv_session S) ! a)\<lparr>tk_dataReader := Some cr'\<rparr>)"
    using assms(2) reader_reads [of "sv_read S" "dataUpto fs (sv_received S)" "sv_received S = length fs" depth cr n]
    by (auto simp: stream_inv_def streams_def pendingOf_def)
  then show ?thesis using assms(2) sv_reads(1) by (simp add: stream_inv_def setTask_def)
qed

lemma stream_run_inv:
  "stream_run raws a s0 S \<Longrightarrow> stream_inv fs depth a \<lparr>sv_received = 0, sv_read = [], sv_session = s0\<rparr> \<Longrightarrow> wf_fragments fs \<Longrightarrow>
   list_all2 carries raws fs \<Longrightarrow> stream_inv fs depth a S"
  by (induction rule: stream_run.induct) (auto intro: stream_step_inv)

text \<open>The submission starts such a run.\<close>

lemma submitStreaming_streams:
  assumes "SubmitStreaming ctxEnds cmd s = Done (Inr (a, cr), s')" "cm_Read cmd" "cm_Data cmd = None" "accepting (ss_write s)" "wf_fragments fs"
  shows "stream_inv fs (nat (streamDepth s)) a \<lparr>sv_received = 0, sv_read = [], sv_session = s'\<rparr> \<and> cr = tk_dataReader (ss_objs s' ! a)"
proof -
  have d: "0 < streamDepth s" by (simp add: streamDepth_def Let_def)
  obtain res t where r: "submitWith (streamDepth s) ctxEnds cmd s = Done (res, t)" using assms(1)
    by (cases "submitWith (streamDepth s) ctxEnds cmd s") (auto simp: SubmitStreaming_def)
  then have e: "res = Inr a" "cr = tk_dataReader (ss_objs s' ! a)" "t = s'" using assms(1) by (auto simp: SubmitStreaming_def split: sum.splits)
  obtain sn w where "submitGranted (streamDepth s) cmd sn (s\<lparr>ss_window := w\<rparr>) = Done (Inr a, s')"
    using r e by (auto simp: submitWith_def split: option.splits AcquireStep.splits)
  from submitGranted_task [OF this assms(3)] assms(4) obtain itt u where
    "a = length (ss_objs s)" "ss_objs s' = ss_objs s @ [makeTask (streamDepth s) cmd itt sn u]" by auto
  then show ?thesis
    using fresh_streams [OF assms(5) d] e(2) assms(2,3) by (simp add: stream_inv_def makeTask_def Let_def)
qed

section \<open>Property\<close>

text \<open>C5. A streaming read, under every interleaving of the task loop and the caller's reads: the caller has always read a prefix of
  the data, in order; at most the configured number of chunks is buffered; a read ends only after the last PDU, without an
  error, when all the data has been read, and the result is then there; the task loop only waits while the channel is full,
  and then a read returns data; so the two never wait for each other.\<close>

theorem streaming_read_delivers:
  assumes "SubmitStreaming ctxEnds cmd s = Done (Inr (a, cr0), s0)" "cm_Read cmd" "cm_Data cmd = None" "accepting (ss_write s)"
    "wf_fragments fs" "list_all2 carries raws fs" "stream_run raws a s0 S" "0 < n"
  shows "\<exists>cr. tk_dataReader (ss_objs (sv_session S) ! a) = Some cr \<and> prefix (sv_read S) (concat (map di_Data fs)) \<and>
    length (ch_buf (cr_ch cr)) \<le> nat (streamDepth s) \<and>
    (case chanReader_Read n cr of
       ReadBytes b _ \<Rightarrow> b \<noteq> []
     | ReadEnds e \<Rightarrow> e = None \<and> sv_received S = length fs \<and> sv_read S = concat (map di_Data fs) \<and>
         ch_buf (tk_resultCh (ss_objs (sv_session S) ! a)) = [statusResult (last fs) None]
     | ReadBlocks \<Rightarrow> sv_received S < length fs \<and> (\<exists>s'. taskReceive (raws ! sv_received S) a (sv_session S) = Done s')) \<and>
    (sv_received S < length fs \<longrightarrow> (\<exists>s'. taskReceive (raws ! sv_received S) a (sv_session S) = Done s') \<or>
       taskReceive (raws ! sv_received S) a (sv_session S) = Stuck \<and> (\<exists>b cr'. chanReader_Read n cr = ReadBytes b cr'))"
proof -
  let ?k = "sv_received S" and ?t = "ss_objs (sv_session S) ! a" and ?d = "nat (streamDepth s)"
  have "stream_inv fs ?d a S"
    using stream_run_inv [OF assms(7) submitStreaming_streams [OF assms(1-5), THEN conjunct1] assms(5,6)] .
  then have i: "a < length (ss_objs (sv_session S))" "streams fs ?d ?k (sv_read S) ?t" by (simp_all add: stream_inv_def)
  then obtain cr where cr: "tk_dataReader ?t = Some cr" "holds (sv_read S) (dataUpto fs ?k) (?k = length fs) ?d cr" "?k \<le> length fs"
    by (auto simp: streams_def)
  have p: "concat (map di_Data fs) = dataUpto fs ?k @ concat (map di_Data (drop ?k fs))" by (metis append_take_drop_id concat_append map_append)
  have "dataUpto fs ?k = sv_read S @ cr_current cr @ concat (ch_buf (cr_ch cr))" using cr(2) by (simp add: holds_def)
  then have pre: "prefix (sv_read S) (concat (map di_Data fs))" unfolding p by (simp add: prefix_def)
  have arr: "if di_Data (fs ! ?k) \<noteq> [] \<and> ?d \<le> length (ch_buf (cr_ch cr)) then taskReceive (raws ! ?k) a (sv_session S) = Stuck
      else \<exists>s'. taskReceive (raws ! ?k) a (sv_session S) = Done s'" if "?k < length fs"
    using receive_streams [OF assms(5) i(1,2) that _ cr(1)] that assms(6) by (fastforce simp: list_all2_conv_all_nth split: if_splits)
  have room: "ch_buf (cr_ch cr) = []" if "chanReader_Read n cr = ReadBlocks"
    using that by (auto simp: chanReader_Read_def chan_recv_def Let_def split: if_splits list.splits)
  have d: "0 < ?d" by (simp add: streamDepth_def Let_def)
  note rd = reader_reads [OF cr(2), of n]
  have "case chanReader_Read n cr of
       ReadBytes b _ \<Rightarrow> b \<noteq> []
     | ReadEnds e \<Rightarrow> e = None \<and> ?k = length fs \<and> sv_read S = concat (map di_Data fs) \<and> ch_buf (tk_resultCh ?t) = [statusResult (last fs) None]
     | ReadBlocks \<Rightarrow> ?k < length fs \<and> (\<exists>s'. taskReceive (raws ! ?k) a (sv_session S) = Done s')"
    using rd assms(8) room arr d cr(3) i(2) by (cases "chanReader_Read n cr") (auto simp: streams_def)
  moreover have "length (ch_buf (cr_ch cr)) \<le> ?d" using cr(2) by (simp add: holds_def)
  moreover have "?k < length fs \<longrightarrow> (\<exists>s'. taskReceive (raws ! ?k) a (sv_session S) = Done s') \<or>
      taskReceive (raws ! ?k) a (sv_session S) = Stuck \<and> (\<exists>b cr'. chanReader_Read n cr = ReadBytes b cr')"
    using arr rd room d by (cases "chanReader_Read n cr") (auto split: if_splits)
  ultimately show ?thesis using cr(1) pre by blast
qed

section \<open>Witness\<close>

lemma sample_stream:
  "\<exists>a cr0 s0 S. SubmitStreaming False sampleRead sampleSession = Done (Inr (a, cr0), s0) \<and> sv_received S = 1 \<and>
     stream_run (map sampleRaw sampleFragments) a s0 S"
proof -
  let ?fs = "map carriedFragment sampleFragments" and ?raws = "map sampleRaw sampleFragments" and ?d = "streamDepth sampleSession"
  obtain a s0 where g: "submitGranted ?d sampleRead 1 (sampleSession\<lparr>ss_window := (ss_window sampleSession)\<lparr>cw_cmdSN := 2\<rparr>\<rparr>) = Done (Inr a, s0)"
    using submitGranted_read_succeeds [OF sample_session(7,8)] sample_session(2) by fastforce
  then have r: "SubmitStreaming False sampleRead sampleSession = Done (Inr (a, tk_dataReader (ss_objs s0 ! a)), s0)"
    using sample_session(1,5) by (simp add: SubmitStreaming_def submitWith_def acquire_def)
  let ?S = "\<lparr>sv_received = 0, sv_read = [], sv_session = s0\<rparr>"
  have "stream_inv ?fs (nat ?d) a ?S"
    using submitStreaming_streams [OF r sample_session(6,7,2) carried_sample(1)] by simp
  then have i: "a < length (ss_objs s0)" "streams ?fs (nat ?d) 0 [] (ss_objs s0 ! a)" by (simp_all add: stream_inv_def)
  then obtain cr where cr: "tk_dataReader (ss_objs s0 ! a) = Some cr" "concat (ch_buf (cr_ch cr)) = []" "[] \<notin> set (ch_buf (cr_ch cr))"
    by (auto simp: streams_def holds_def)
  have b: "ch_buf (cr_ch cr) = []" using cr(2,3) by (cases "ch_buf (cr_ch cr)") auto
  have l: "length sampleFragments = 3" by (simp add: sampleFragments_def)
  have c: "carries (?raws ! 0) (?fs ! 0)" using sampleRaw_carries [OF carried_sample(2), of 0] l by simp
  have "0 < nat ?d" by (simp add: streamDepth_def Let_def)
  then obtain s' where "taskReceive (?raws ! 0) a s0 = Done (True, s')"
    using receive_streams [OF carried_sample(1) i(1,2) _ c cr(1)] b l by auto
  then have "stream_step ?raws a ?S (?S\<lparr>sv_received := Suc (sv_received ?S), sv_session := s'\<rparr>)"
    by (intro sv_receive) (simp_all add: l)
  then have run: "stream_run ?raws a s0 (?S\<lparr>sv_received := Suc (sv_received ?S), sv_session := s'\<rparr>)" by (rule sr_step [OF sr_start])
  have "sv_received (?S\<lparr>sv_received := Suc (sv_received ?S), sv_session := s'\<rparr>) = 1" by simp
  with run r show ?thesis by blast
qed

theorem streaming_read_delivers_witness:
  "\<exists>a cr0 s0 S cr. SubmitStreaming False sampleRead sampleSession = Done (Inr (a, cr0), s0) \<and> sv_received S = 1 \<and>
     stream_run (map sampleRaw sampleFragments) a s0 S \<and> tk_dataReader (ss_objs (sv_session S) ! a) = Some cr \<and>
     chanReader_Read 1 cr \<noteq> ReadEnds None"
proof -
  obtain a cr0 s0 S where s: "SubmitStreaming False sampleRead sampleSession = Done (Inr (a, cr0), s0)" "sv_received S = 1"
    "stream_run (map sampleRaw sampleFragments) a s0 S" using sample_stream by blast
  have l: "length sampleFragments = 3" by (simp add: sampleFragments_def)
  have c: "list_all2 carries (map sampleRaw sampleFragments) (map carriedFragment sampleFragments)"
    using sampleRaw_carries [OF carried_sample(2)] by (simp add: list_all2_conv_all_nth)
  obtain cr where "tk_dataReader (ss_objs (sv_session S) ! a) = Some cr" "chanReader_Read 1 cr \<noteq> ReadEnds None"
    using streaming_read_delivers [OF s(1) sample_session(6,7,2) carried_sample(1) c s(3), of 1] s(2) l by fastforce
  then show ?thesis using s by blast
qed

end
