(* ===== verification/Session_Routes.thy ===== *)
theory Session_Routes
  imports Session_Steps
begin

text \<open>
  The router inside the session: every step of the session moves it by the router's own methods, so the
  router's invariant of theory Router holds in every reachable session.

  \<open>valid m P\<close> says that \<open>P\<close> holds of the result of \<open>m\<close>, if it has one; its simplification rules take a
  handler apart along its control flow.
\<close>

definition valid :: "'a Step \<Rightarrow> ('a \<Rightarrow> bool) \<Rightarrow> bool" where
  "valid m P \<longleftrightarrow> (\<forall>x. m = Done x \<longrightarrow> P x)"

lemma valid_simps [simp]:
  "valid (Done x) P \<longleftrightarrow> P x" "valid Stuck P" "valid Crash P" "valid (bindStep m f) P \<longleftrightarrow> valid m (\<lambda>x. valid (f x) P)"
  by (simp_all add: valid_def bindStep_Done) blast

lemma valid_any: "(\<And>x. P x) \<Longrightarrow> valid m P"
  by (simp add: valid_def)

lemma validD: "valid m P \<Longrightarrow> m = Done x \<Longrightarrow> P x"
  by (simp add: valid_def)

section \<open>Which operations touch the router\<close>

text \<open>The router is as before, or one tag less is registered in it.\<close>

definition shrinks :: "Router \<Rightarrow> Session \<Rightarrow> bool" where
  "shrinks r s \<longleftrightarrow> ss_router s = r \<or> (\<exists>itt. ss_router s = Unregister itt r)"

lemma router_same [simp]:
  "ss_router (setTask a t s) = ss_router s" "ss_router (noteWindow e m s) = ss_router s" "ss_router (updateStatSN n s) = ss_router s"
  "ss_router (sentPDUs ps s) = ss_router s" "ss_router (setErr er s) = ss_router s" "ss_router (fireStateChange st s) = ss_router s"
  "ss_router (snd (sendPDU raw s)) = ss_router s" "ss_router (dispatchAsyncEvent ev s) = ss_router s"
  by (simp_all add: setTask_def noteWindow_def updateStatSN_def sentPDUs_def setErr_def fireStateChange_def sendPDU_def dispatchAsyncEvent_def
      Let_def split: prod.split)

lemma sendPDU_router: "sendPDU raw s = (ok, s') \<Longrightarrow> ss_router s' = ss_router s"
  by (metis router_same(7) snd_conv)

lemma router_less [simp]:
  "ss_router (cleanupTask itt s) = Unregister itt (ss_router s)" "ss_router (forgetTask itt s) = Unregister itt (ss_router s)"
  "ss_router (endTask er a s) = Unregister (tk_itt (cancel er (ss_objs s ! a))) (ss_router s)"
  "ss_router (unregisterTag itt s) = Unregister itt (ss_router s)" "ss_router (cleanupAbortedTask itt s) = Unregister itt (ss_router s)"
  by (simp_all add: cleanupTask_def forgetTask_def endTask_def unregisterTag_def cleanupAbortedTask_def Let_def split: option.split)

lemma retry_shrinks: "valid (retrySameConnection a s) (shrinks (ss_router s))"
  by (auto simp: retrySameConnection_def Let_def shrinks_def intro!: valid_any split: sum.split prod.split bool.split dest!: sendPDU_router)

lemma taskReceive_shrinks: "valid (taskReceive raw a s) (\<lambda>(cont, s'). shrinks (ss_router s) s')"
proof -
  have r: "valid (retrySameConnection a u) (\<lambda>x. shrinks (ss_router s) x)" if "ss_router u = ss_router s" for u
    using retry_shrinks [of a u] that by simp
  have "valid (receiveDataIn p a s) (\<lambda>(cont, s'). shrinks (ss_router s) s')" for p
    by (auto simp: receiveDataIn_def Let_def shrinks_def intro!: valid_any split: prod.split)
  moreover have "valid (receiveR2T p a s) (\<lambda>(cont, s'). shrinks (ss_router s) s')" for p
    by (auto simp: receiveR2T_def Let_def shrinks_def intro!: valid_any split: prod.split option.split)
  moreover have "valid (receiveSCSIResponse p a s) (\<lambda>(cont, s'). shrinks (ss_router s) s')" for p
    by (auto simp: receiveSCSIResponse_def Let_def shrinks_def intro!: valid_any)
  moreover have "valid (receiveReject p a s) (\<lambda>(cont, s'). shrinks (ss_router s) s')" for p
    using r by (auto simp: receiveReject_def Let_def) (auto simp: shrinks_def)
  ultimately show ?thesis by (auto simp: taskReceive_def shrinks_def split: sum.split PDU.split)
qed

lemma unsolicited_shrinks: "valid (handleUnsolicited raw s) (\<lambda>(s', sp). shrinks (ss_router s) s')"
proof -
  have n: "ss_router (handleUnsolicitedNOPIn raw s) = ss_router s"
    by (simp add: handleUnsolicitedNOPIn_def Let_def split: sum.split)
  have a: "ss_router (fst (handleAsyncMsg raw s)) = ss_router s"
    by (simp add: handleAsyncMsg_def connectionLost_def triggerReconnect_def Let_def)
  have r: "valid (retrySameConnection b u) (\<lambda>x. shrinks (ss_router s) x)" if "ss_router u = ss_router s" for b u
    using retry_shrinks [of b u] that by simp
  have "valid (handleUnsolicitedReject p s) (shrinks (ss_router s))" for p
    using r by (auto simp: handleUnsolicitedReject_def Let_def split: option.split) (auto simp: shrinks_def)
  then show ?thesis using n a
    by (auto simp: handleUnsolicited_def Let_def split: sum.split PDU.split prod.split) (auto simp: shrinks_def)
qed

lemma submitCommand_shrinks: "valid (submitCommand a ch s) (\<lambda>(res, s'). shrinks (ss_router s) s')"
proof -
  have "valid (submitUnsolicited a ch u) (\<lambda>(res, s'). shrinks (ss_router u) s')" for u
    by (auto simp: submitUnsolicited_def Let_def shrinks_def intro!: valid_any split: option.split prod.split)
  then have u: "valid (submitUnsolicited a ch u) (\<lambda>(res, s'). shrinks (ss_router s) s')" if "ss_router u = ss_router s" for u
    using that by metis
  show ?thesis
    by (auto simp: submitCommand_def Let_def intro!: valid_any u split: sum.split prod.split bool.split option.split dest!: sendPDU_router)
      (auto simp: shrinks_def)
qed

section \<open>The router's invariant\<close>

abbreviation (input) router_ok :: "Router \<Rightarrow> bool" where
  "router_ok r \<equiv> router_inv r []"

lemma router_moves:
  assumes "router_ok r"
  shows "router_ok (snd (AllocateITT r))" "router_ok (snd (RegisterPersistent itt r))" "router_ok (snd (Register r))" "router_ok (Unregister itt r)"
    "receiveFrom ch r = Some (p, r') \<Longrightarrow> router_ok r'"
  using router_step_inv [OF st_allocate [of "\<lparr>rs_router = r, rs_inflight = []\<rparr>"]] router_step_inv [OF st_persistent [of "\<lparr>rs_router = r, rs_inflight = []\<rparr>"]]
    router_step_inv [OF st_register [of "\<lparr>rs_router = r, rs_inflight = []\<rparr>"]] router_step_inv [OF st_unregister [of "\<lparr>rs_router = r, rs_inflight = []\<rparr>"]]
    router_step_inv [OF st_receive [of ch "\<lparr>rs_router = r, rs_inflight = []\<rparr>"]] assms by simp_all

lemma router_dispatch:
  assumes "router_ok r" "Dispatch itt p r = Dispatched ok r'"
  shows "router_ok r'"
proof (cases "dispatchLookup itt r")
  case (Pair e r1)
  show ?thesis
  proof (cases e)
    case None
    then have "r1 = r" using Pair by (auto simp: dispatchLookup_def Let_def split: option.splits)
    then show ?thesis using assms Pair None by (simp add: Dispatch_def)
  next
    case (Some x)
    have "router_inv r1 [(x, p)]"
      using router_step_inv [OF st_lookup [of itt "\<lparr>rs_router = r, rs_inflight = []\<rparr>" x r1 p]] Pair Some assms(1) by simp
    then show ?thesis
      using router_step_inv [OF st_send [of "\<lparr>rs_router = r1, rs_inflight = [(x, p)]\<rparr>" "[]" x p "[]" ok r']] assms(2) Pair Some
      by (simp add: Dispatch_def)
  qed
qed

lemma shrinks_ok: "router_ok r \<Longrightarrow> shrinks r s \<Longrightarrow> router_ok (ss_router s)"
  using router_moves(4) by (auto simp: shrinks_def)

lemma submitGranted_router:
  assumes "submitGranted depth cmd sn s = Done (res, s')" "router_ok (ss_router s)"
  shows "router_ok (ss_router s')"
proof -
  obtain itt r0 where al: "AllocateITT (ss_router s) = (itt, r0)" by force
  obtain ch r where rp: "RegisterPersistent itt r0 = (ch, r)" by force
  have r: "router_ok r" using router_moves(1,2) assms(2) al rp by (metis snd_conv)
  let ?a = "length (ss_objs s)"
  let ?s = "s\<lparr>ss_router := r, ss_objs := ss_objs s @ [makeTask depth cmd itt sn (s\<lparr>ss_router := r\<rparr>)], ss_tasks := AList.update itt ?a (ss_tasks s)\<rparr>"
  have "submitCommand ?a ch ?s = Done (res, s')" using assms(1) by (simp add: submitGranted_def al rp Let_def)
  then have "shrinks r s'" using validD [OF submitCommand_shrinks [of ?a ch ?s]] by simp
  then show ?thesis by (rule shrinks_ok [OF r])
qed

lemma router_teardown: "router_ok (ss_router s) \<Longrightarrow> router_ok (ss_router (teardown s))"
proof -
  have "router_ok (ss_router (fold closeTask xs u))" if "router_ok (ss_router u)" for xs u
    using that by (induction xs arbitrary: u) (auto simp: closeTask_def Let_def router_moves(4))
  then show "router_ok (ss_router s) \<Longrightarrow> router_ok (ss_router (teardown s))" by (simp add: teardown_def Let_def)
qed

lemma step_router:
  assumes "session_step S S'" "router_ok (ss_router (sy_s S))"
  shows "router_ok (ss_router (sy_s S'))"
  using assms
proof (cases rule: session_step.cases)
  case (ss_submit depth cmd W s sn w res s')
  then show ?thesis using submitGranted_router [OF ss_submit(6)] assms(2) by simp
next
  case (ss_dispatch itt raw s ok r W)
  then show ?thesis using router_dispatch assms(2) by simp
next
  case (ss_task_pdu a ch s raw r cont s' W)
  then have "router_ok r" using router_moves(5) [OF _ ss_task_pdu(4)] assms(2) by simp
  moreover have "shrinks r s'" using validD [OF taskReceive_shrinks] ss_task_pdu(5) by (fastforce simp: taskLoop_def)
  ultimately show ?thesis using shrinks_ok ss_task_pdu(2) by simp
next
  case (ss_unsolicited raw s s' sp W)
  then show ?thesis using validD [OF unsolicited_shrinks ss_unsolicited(3)] shrinks_ok assms(2) by simp
next
  case (ss_request s W)
  then show ?thesis using router_moves(3) assms(2) by (auto simp: registerOne_def split: prod.split) (metis snd_conv)
next
  case (ss_drain s s' W)
  then show ?thesis using assms(2) by (auto simp: Drain_def split: if_splits)
qed (use assms(2) in \<open>auto simp: taskLoop_def drainExpires_def applyRenegotiatedParams_def intro: router_moves(4) router_teardown\<close>)

lemma session_router_inv: "session_reachable S \<Longrightarrow> router_inv (ss_router (sy_s S)) []"
proof (induction rule: session_reachable.induct)
  case (se_init conn params opts accepts)
  then show ?case by (simp add: NewSession_def Let_def NewRouter_def router_inv_def)
qed (rule step_router)

end
