(* ===== verification/Discovery.thy ===== *)
theory Discovery
  imports Session_IO
begin

text \<open>
  \<open>internal/session/discovery.go\<close>: SendTargets over a text exchange with continuations, the parser of
  its answer and the one-shot \<open>Discover\<close>.

  The portals of a target come as text in \<open>address:port,tag\<close> form, IPv6 addresses in brackets. The
  lemmas show that the parser reads back what a target prints, and that the exchange gives the parse of
  all the pieces of a text that was split at any places.
\<close>

section \<open>Text functions of the standard library\<close>

text \<open>\<open>strconv.Atoi\<close> on a 64-bit platform.\<close>

definition Atoi :: "string \<Rightarrow> ParseError + int" where
  "Atoi s =
     (let neg = (s \<noteq> [] \<and> hd s = CHR ''-'');
          body = (if s \<noteq> [] \<and> (hd s = CHR ''-'' \<or> hd s = CHR ''+'') then tl s else s)
      in case ParseUint body 64 of
           Inl e \<Rightarrow> Inl e
         | Inr n \<Rightarrow>
             if \<not> neg \<and> n \<ge> 2 ^ 63 then Inl ErrRange
             else if neg \<and> n > 2 ^ 63 then Inl ErrRange
             else Inr (if neg then - int n else int n))"

text \<open>The text before and after the last occurrence of a character, which \<open>strings.LastIndex\<close> finds.\<close>

fun cutLast :: "char \<Rightarrow> string \<Rightarrow> (string \<times> string) option" where
  "cutLast c [] = None"
| "cutLast c (x # xs) =
     (case cutLast c xs of
        Some (a, b) \<Rightarrow> Some (x # a, b)
      | None \<Rightarrow> if x = c then Some ([], xs) else None)"

section \<open>The parser\<close>

text \<open>The group tag, then the rest of the text.\<close>

definition splitTag :: "string \<Rightarrow> int \<times> string" where
  "splitTag s =
     (case cutLast (CHR '','') s of
        None \<Rightarrow> (1, s)
      | Some (addrPort, tag) \<Rightarrow> (case Atoi tag of Inr n \<Rightarrow> (n, addrPort) | Inl _ \<Rightarrow> (1, addrPort)))"

definition parsePortal :: "string \<Rightarrow> Portal" where
  "parsePortal s =
     (let (tag, addrPort) = splitTag s;
          p = \<lparr>pt_Address = '''', pt_Port = 3260, pt_GroupTag = tag\<rparr>
      in if hasPrefix addrPort ''[''
         then (case cutOn (CHR '']'') addrPort of
                 (_, _, False) \<Rightarrow> p\<lparr>pt_Address := addrPort\<rparr>
               | (address, rest, True) \<Rightarrow>
                   let p = p\<lparr>pt_Address := tl address\<rparr>
                   in if hasPrefix rest '':''
                      then (case Atoi (tl rest) of Inr port \<Rightarrow> p\<lparr>pt_Port := port\<rparr> | Inl _ \<Rightarrow> p)
                      else p)
         else (case cutLast (CHR '':'') addrPort of
                 None \<Rightarrow> p\<lparr>pt_Address := addrPort\<rparr>
               | Some (address, port) \<Rightarrow>
                   (case Atoi port of
                      Inr port \<Rightarrow> p\<lparr>pt_Port := port, pt_Address := address\<rparr>
                    | Inl _ \<Rightarrow> p\<lparr>pt_Address := addrPort\<rparr>)))"

text \<open>\<open>current\<close> is the last target, if there is one.\<close>

definition addTargetKV :: "DiscoveryTarget list \<Rightarrow> KeyValue \<Rightarrow> DiscoveryTarget list" where
  "addTargetKV targets kv =
     (if kv_Key kv = ''TargetName'' then targets @ [\<lparr>dt_Name = kv_Value kv, dt_Portals = []\<rparr>]
      else if kv_Key kv = ''TargetAddress'' \<and> targets \<noteq> []
      then butlast targets @ [(last targets)\<lparr>dt_Portals := dt_Portals (last targets) @ [parsePortal (kv_Value kv)]\<rparr>]
      else targets)"

definition parseSendTargetsResponse :: "bytes \<Rightarrow> DiscoveryTarget list" where
  "parseSendTargetsResponse data = foldl addTargetKV [] (DecodeTextKV data)"

section \<open>The exchange\<close>

text \<open>
  One element of the list for each round of the loop: what the other goroutines do while it waits, the
  case its \<open>select\<close> takes, and whether the context ends while it waits for a CmdSN or to send.
\<close>

type_synonym TextRound = "(Session \<Rightarrow> Session) \<times> Reply \<times> bool"

definition sendContinuation :: "bool \<Rightarrow> u32 \<Rightarrow> u32 \<Rightarrow> Session \<Rightarrow> (SessionError option \<times> Session) Step" where
  "sendContinuation ctxEnds itt ttt s =
     (case acquire ctxEnds (ss_window s) of
        WindowClosed \<Rightarrow> Done (Some ErrAcquire, s)
      | Canceled \<Rightarrow> Done (Some ErrAcquire, s)
      | MustWait \<Rightarrow> Stuck
      | Granted cmdSN w \<Rightarrow>
          let s = s\<lparr>ss_window := w\<rparr>
          in (case TextReq_MarshalBHS (textPDU ttt cmdSN itt [] s) of
                Inl e \<Rightarrow> Done (Some (ErrEncode e), s)
              | Inr bhs \<Rightarrow>
                  (case trySend (bareRaw bhs []) (ss_write s) of
                     (True, w) \<Rightarrow> Done (None, s\<lparr>ss_write := w\<rparr>)
                   | (False, w) \<Rightarrow> Done (Some ErrContext, s\<lparr>ss_write := w\<rparr>))))"

fun sendTargetsLoop :: "TextRound list \<Rightarrow> u32 \<Rightarrow> bytes \<Rightarrow> Session \<Rightarrow> ((SessionError + bytes) \<times> Session) Step" where
  "sendTargetsLoop [] itt accumulated s = Stuck"
| "sendTargetsLoop ((env, reply, ctxEnds) # rounds) itt accumulated s =
     (let s = env s
      in case reply of
           TimedOut \<Rightarrow> Done (Inl (ErrOther ''timeout waiting for TextResp''), s)
         | CtxEnds \<Rightarrow> Done (Inl ErrContext, s)
         | Response raw \<Rightarrow>
             (case receiveTextResp raw s of
                (Inl e, s) \<Rightarrow> Done (Inl e, s)
              | (Inr resp, s) \<Rightarrow>
                  let accumulated = accumulated @ te_Data resp
                  in if \<not> te_Continue resp then Done (Inr accumulated, s)
                     else bindStep (sendContinuation ctxEnds itt (te_TargetTransferTag resp) s) (\<lambda>(err, s).
                            case err of
                              Some e \<Rightarrow> Done (Inl e, s)
                            | None \<Rightarrow> sendTargetsLoop rounds itt accumulated s)))"

definition sendTargetsText :: bytes where
  "sendTargetsText = EncodeTextKV [KV ''SendTargets'' ''All'']"

definition SendTargets :: "bool \<Rightarrow> TextRound list \<Rightarrow> Session \<Rightarrow> ((SessionError + DiscoveryTarget list) \<times> Session) Step" where
  "SendTargets ctxEnds rounds s =
     (case acquire ctxEnds (ss_window s) of
        WindowClosed \<Rightarrow> Done (Inl ErrAcquire, s)
      | Canceled \<Rightarrow> Done (Inl ErrAcquire, s)
      | MustWait \<Rightarrow> Stuck
      | Granted cmdSN w \<Rightarrow>
          let (itt, r) = AllocateITT (ss_router s);
              (ch, r) = RegisterPersistent itt r;
              s = s\<lparr>ss_window := w, ss_router := r\<rparr>
          in (case TextReq_MarshalBHS (textPDU 0xFFFFFFFF cmdSN itt sendTargetsText s) of
                Inl e \<Rightarrow> Done (Inl (ErrEncode e), unregisterTag itt s)
              | Inr bhs \<Rightarrow>
                  (case sendPDU (bareRaw bhs sendTargetsText) s of
                     (False, s) \<Rightarrow> Done (Inl ErrContext, unregisterTag itt s)
                   | (True, s) \<Rightarrow>
                       bindStep (sendTargetsLoop rounds itt [] s) (\<lambda>(res, s).
                         Done (map_sum id parseSendTargetsResponse res, unregisterTag itt s)))))"

text \<open>
  The one-shot discovery; \<open>dialled\<close> is what the network does, \<open>None\<close> when the dial fails. The result
  of the closing logout is not looked at.
\<close>

datatype DiscoverError = DialFailed | DiscoverLogin LoginFailure | DiscoverTargets SessionError

definition Discover :: "LoginEnv option \<Rightarrow> LoginOption list \<Rightarrow> (nat \<Rightarrow> bool) \<Rightarrow> bool \<Rightarrow> TextRound list
    \<Rightarrow> (Session \<Rightarrow> Session) list \<Rightarrow> (Session \<Rightarrow> Session) \<Rightarrow> Reply \<Rightarrow> (DiscoverError + DiscoveryTarget list) Step" where
  "Discover dialled opts accepts ctxEnds rounds ticks env reply =
     (case dialled of
        None \<Rightarrow> Done (Inl DialFailed)
      | Some network \<Rightarrow>
          (case fst (Login network (WithSessionType ''Discovery'' # opts)) of
             Inl e \<Rightarrow> Done (Inl (DiscoverLogin e))
           | Inr (params, conn) \<Rightarrow>
               bindStep (SendTargets ctxEnds rounds (NewSession conn params [] accepts)) (\<lambda>(res, s).
                 case res of
                   Inl e \<Rightarrow> bindStep (Close env reply s) (\<lambda>s. Done (Inl (DiscoverTargets e)))
                 | Inr targets \<Rightarrow>
                     bindStep (Logout ticks ctxEnds env reply s) (\<lambda>(err, s).
                       bindStep (Close env reply s) (\<lambda>s. Done (Inr targets))))))"

section \<open>Round trip of the text\<close>

lemma cutLast_append: "c \<notin> set b \<Longrightarrow> cutLast c (a @ c # b) = Some (a, b)"
proof (induction a)
  case Nil
  have "c \<notin> set b \<Longrightarrow> cutLast c b = None" by (induction b) auto
  then show ?case using Nil by simp
qed simp

lemma FormatUint_chars: "c \<in> set (FormatUint n) \<Longrightarrow> digitVal c \<noteq> None"
proof (induction n rule: FormatUint.induct)
  case (1 n)
  then show ?case by (subst (asm) (2) FormatUint.simps) (auto simp: digitVal_char split: if_splits)
qed

lemma Atoi_FormatUint: "n < 2 ^ 63 \<Longrightarrow> Atoi (FormatUint n) = Inr (int n)"
proof -
  assume n: "n < 2 ^ 63"
  then have p: "ParseUint (FormatUint n) 64 = Inr n" by (intro num.parse_format) simp
  have "digitVal (hd (FormatUint n)) \<noteq> None" by (rule FormatUint_chars [of _ n]) simp
  then have "hd (FormatUint n) \<noteq> CHR ''-''" "hd (FormatUint n) \<noteq> CHR ''+''" by (auto simp: digitVal_def)
  then show ?thesis using p n by (simp add: Atoi_def Let_def)
qed

text \<open>What a target prints.\<close>

definition formatPortal :: "Portal \<Rightarrow> string" where
  "formatPortal p =
     (if CHR '':'' \<in> set (pt_Address p) then ''['' @ pt_Address p @ '']'' else pt_Address p)
       @ '':'' @ FormatUint (nat (pt_Port p)) @ '','' @ FormatUint (nat (pt_GroupTag p))"

definition wf_Portal :: "Portal \<Rightarrow> bool" where
  "wf_Portal p \<longleftrightarrow> 0 \<le> pt_Port p \<and> pt_Port p < 2 ^ 63 \<and> 0 \<le> pt_GroupTag p \<and> pt_GroupTag p < 2 ^ 63 \<and>
     CHR '']'' \<notin> set (pt_Address p) \<and> CHR ''['' \<notin> set (pt_Address p) \<and> NUL \<notin> set (bytes_of (pt_Address p))"

lemma FormatUint_punct: "CHR '':'' \<notin> set (FormatUint n)" "CHR '','' \<notin> set (FormatUint n)"
  using FormatUint_chars [of _ n] by (force simp: digitVal_def)+

lemma parsePortal_format: "wf_Portal p \<Longrightarrow> parsePortal (formatPortal p) = p"
proof -
  assume w: "wf_Portal p"
  let ?port = "FormatUint (nat (pt_Port p))" and ?tag = "FormatUint (nat (pt_GroupTag p))"
  have n: "Atoi ?port = Inr (pt_Port p)" "Atoi ?tag = Inr (pt_GroupTag p)"
    using w Atoi_FormatUint [of "nat (pt_Port p)"] Atoi_FormatUint [of "nat (pt_GroupTag p)"] by (simp_all add: wf_Portal_def nat_less_iff)
  have t: "splitTag (a @ CHR '','' # ?tag) = (pt_GroupTag p, a)" for a
    using cutLast_append [OF FormatUint_punct(2), of a "nat (pt_GroupTag p)"] n(2) by (simp add: splitTag_def)
  show ?thesis
  proof (cases "CHR '':'' \<in> set (pt_Address p)")
    case True
    have "cutOn (CHR '']'') (CHR ''['' # pt_Address p @ CHR '']'' # CHR '':'' # ?port) = (CHR ''['' # pt_Address p, CHR '':'' # ?port, True)"
      using cutOn_sep [of "CHR '']''" "CHR ''['' # pt_Address p"] w by (simp add: wf_Portal_def)
    then show ?thesis using True t [of "CHR ''['' # pt_Address p @ CHR '']'' # CHR '':'' # ?port"] n(1)
      by (simp add: formatPortal_def parsePortal_def hasPrefix_def)
  next
    case False
    have "\<not> hasPrefix (pt_Address p @ CHR '':'' # ?port) ''[''"
      using w by (cases "pt_Address p") (auto simp: hasPrefix_def wf_Portal_def)
    then show ?thesis using False t [of "pt_Address p @ CHR '':'' # ?port"] n(1)
        cutLast_append [OF FormatUint_punct(1), of "pt_Address p" "nat (pt_Port p)"]
      by (simp add: formatPortal_def parsePortal_def)
  qed
qed

section \<open>The targets of a text\<close>

definition targetKVs :: "DiscoveryTarget \<Rightarrow> KeyValue list" where
  "targetKVs t = KV ''TargetName'' (dt_Name t) # map (\<lambda>p. KV ''TargetAddress'' (formatPortal p)) (dt_Portals t)"

definition targetsText :: "DiscoveryTarget list \<Rightarrow> bytes" where
  "targetsText ts = EncodeTextKV (concat (map targetKVs ts))"

definition wf_Target :: "DiscoveryTarget \<Rightarrow> bool" where
  "wf_Target t \<longleftrightarrow> NUL \<notin> set (bytes_of (dt_Name t)) \<and> list_all wf_Portal (dt_Portals t)"

lemma foldl_portals:
  "list_all wf_Portal ps \<Longrightarrow> foldl addTargetKV (ts @ [t]) (map (\<lambda>p. KV ''TargetAddress'' (formatPortal p)) ps)
     = ts @ [t\<lparr>dt_Portals := dt_Portals t @ ps\<rparr>]"
  by (induction ps arbitrary: t) (simp_all add: addTargetKV_def parsePortal_format)

lemma foldl_targets: "list_all wf_Target ts \<Longrightarrow> foldl addTargetKV acc (concat (map targetKVs ts)) = acc @ ts"
  by (induction ts arbitrary: acc) (auto simp: targetKVs_def wf_Target_def addTargetKV_def foldl_portals)

lemma wf_formatPortal: "wf_Portal p \<Longrightarrow> NUL \<notin> set (bytes_of (formatPortal p))"
  using FormatUint_clean by (auto simp: formatPortal_def wf_Portal_def bytes_of_def byte_of_def)

lemma wf_targetKVs: "wf_Target t \<Longrightarrow> list_all wf_KV (targetKVs t)"
  using wf_formatPortal by (auto simp: targetKVs_def wf_Target_def wf_KV_def list_all_iff bytes_of_def byte_of_def)

lemma parse_targetsText: "list_all wf_Target ts \<Longrightarrow> parseSendTargetsResponse (targetsText ts) = ts"
proof -
  assume w: "list_all wf_Target ts"
  then have "list_all wf_KV (concat (map targetKVs ts))" using wf_targetKVs by (auto simp: list_all_iff)
  then show ?thesis using foldl_targets [OF w, of "[]"] by (simp add: parseSendTargetsResponse_def targetsText_def kv.dec_enc)
qed

section \<open>The exchange collects the text\<close>

text \<open>
  A target that answers each request, acknowledging it and keeping the window \<open>wdw\<close> wide, all answers but
  the last marked as continued; the other goroutines leave window and write channel alone.
\<close>

definition harmless :: "(Session \<Rightarrow> Session) \<Rightarrow> bool" where
  "harmless env \<longleftrightarrow> (\<forall>s. ss_window (env s) = ss_window s \<and> (accepting (ss_write s) \<longrightarrow> accepting (ss_write (env s))))"

fun textAnswers :: "u32 \<Rightarrow> u32 \<Rightarrow> TextRound list \<Rightarrow> bool" where
  "textAnswers wdw c [] = False"
| "textAnswers wdw c ((env, Response raw, _) # rounds) =
     (harmless env \<and>
      (case DecodeBHS (raw_BHS raw) of
         Inr (PTextResp p) \<Rightarrow> te_ExpCmdSN p = c \<and> te_MaxCmdSN p = c + wdw \<and>
           (if rounds = [] then \<not> te_Continue p else te_Continue p \<and> textAnswers wdw (c + 1) rounds)
       | _ \<Rightarrow> False))"
| "textAnswers wdw c _ = False"

definition answerData :: "TextRound \<Rightarrow> bytes" where
  "answerData = (\<lambda>(_, reply, _). case reply of Response raw \<Rightarrow> raw_DataSegment raw | _ \<Rightarrow> [])"

text \<open>The window after the request that used CmdSN \<open>c - 1\<close>.\<close>

definition requestSent :: "u32 \<Rightarrow> Session \<Rightarrow> bool" where
  "requestSent c s \<longleftrightarrow> cw_cmdSN (ss_window s) = c \<and> cw_expCmdSN (ss_window s) = c - 1 \<and> \<not> cw_closed (ss_window s) \<and> accepting (ss_write s)"

lemma window_reopens:
  assumes "requestSent c s" "unat wdw < 2 ^ 31 - 1"
  shows "\<exists>w. acquireFast (fst (updateWindow c (c + wdw) (ss_window s))) = Granted c w \<and> cw_cmdSN w = c + 1 \<and> cw_expCmdSN w = c \<and> \<not> cw_closed w"
proof -
  have d: "dist32 (c - 1) c = 1" using dist32_add [of 1 "c - 1"] by simp
  have w: "c + wdw = c + of_nat (unat wdw)" by simp
  have "dist32 c (c + wdw) = unat wdw" unfolding w by (rule dist32_add) (use unsigned_less [of wdw] in simp)
  then have e: "dist32 (c - 1) (c + wdw) = unat wdw + 1" "dist32 c (c + wdw) = unat wdw"
    using dist32_trans [of "c - 1" "c + wdw" c] d assms(2) by simp_all
  have "c - 1 \<noteq> c + wdw" using e(1) dist32_same [of "c - 1"] by (metis Suc_eq_plus1 nat.distinct(1))
  then have "\<not> LessThan (c + wdw) (c - 1)" "\<not> LessThan (c + wdw) c"
    using e assms(2) dist32_swap [of "c - 1" "c + wdw"] dist32_swap [of c "c + wdw"] by (auto simp: LessThan_dist)
  moreover have "GreaterThan c (c - 1)" using d by (simp add: GreaterThan_dist)
  ultimately show ?thesis
    using assms(1) by (auto simp: requestSent_def updateWindow_def Let_def acquireFast_def windowOpen_def InWindow_def takeSN_def Incr_def)
qed

lemma continuation_granted:
  assumes "acquireFast (ss_window s) = Granted c w" "accepting (ss_write s)"
  shows "\<exists>t. sendContinuation ctxEnds itt ttt s = Done (None, t) \<and> ss_window t = w \<and> accepting (ss_write t) \<and>
    (\<exists>bhs. wr_sent (ss_write t) = wr_sent (ss_write s) @ [bareRaw bhs []])"
proof -
  let ?p = "textPDU ttt c itt [] (s\<lparr>ss_window := w\<rparr>)"
  have "wf_TextReq ?p" by (simp add: textPDU_def wf_TextReq_def wf_Header_def zeroHeader_def)
  then obtain bhs where "TextReq_MarshalBHS ?p = Inr bhs" using textreq.marshal_total by blast
  then show ?thesis
    using assms by (auto simp: sendContinuation_def acquire_def Let_def trySend_def accepting_def split: if_splits)
qed

lemma loop_collects:
  assumes "unat wdw < 2 ^ 31 - 1" "textAnswers wdw c rounds" "requestSent c s"
  shows "\<exists>s'. sendTargetsLoop rounds itt acc s = Done (Inr (acc @ concat (map answerData rounds)), s')"
  using assms
proof (induction wdw c rounds arbitrary: acc s rule: textAnswers.induct)
  case (2 wdw c env raw x rounds)
  obtain p where p: "DecodeBHS (raw_BHS raw) = Inr (PTextResp p)" "te_ExpCmdSN p = c" "te_MaxCmdSN p = c + wdw"
    using 2(3) by (auto split: sum.splits PDU.splits)
  let ?u = "updateStatSN (te_StatSN p) (noteWindow c (c + wdw) (env s))"
  have h: "ss_window (env s) = ss_window s" "accepting (ss_write (env s))" using 2(3,4) by (auto simp: harmless_def requestSent_def)
  have u: "ss_window ?u = fst (updateWindow c (c + wdw) (ss_window s))" "ss_write ?u = ss_write (env s)"
    by (simp_all add: updateStatSN_def noteWindow_def Let_def h)
  have r: "receiveTextResp raw (env s) = (Inr (p\<lparr>te_Data := raw_DataSegment raw\<rparr>), ?u)" by (simp add: receiveTextResp_def p)
  show ?case
  proof (cases "rounds = []")
    case True
    then show ?thesis using r 2(3) p by (simp add: answerData_def)
  next
    case False
    obtain w where w: "acquireFast (ss_window ?u) = Granted c w" "cw_cmdSN w = c + 1" "cw_expCmdSN w = c" "\<not> cw_closed w"
      using window_reopens [OF 2(4) 2(2)] unfolding u(1) by blast
    obtain t where t: "sendContinuation x itt (te_TargetTransferTag p) ?u = Done (None, t)" "ss_window t = w" "accepting (ss_write t)"
      using continuation_granted [OF w(1)] u(2) h(2) by metis
    have "textAnswers wdw (c + 1) rounds" "te_Continue p" using 2(3) False p by auto
    moreover have "requestSent (c + 1) t" using t w by (simp add: requestSent_def)
    ultimately obtain s' where "sendTargetsLoop rounds itt (acc @ raw_DataSegment raw) t = Done (Inr ((acc @ raw_DataSegment raw) @ concat (map answerData rounds)), s')"
      using 2(1) [OF p(1) refl False 2(2)] by blast
    then show ?thesis using r t(1) \<open>te_Continue p\<close> by (simp add: answerData_def)
  qed
qed auto

lemma sendTargetsText_small: "length sendTargetsText \<le> 100"
  by (simp add: sendTargetsText_def bytes_of_def)

lemma SendTargets_starts:
  assumes "cw_cmdSN (ss_window s) = c" "acquireFast (ss_window s) = Granted c w" "accepting (ss_write s)"
  shows "\<exists>t. SendTargets ctxEnds rounds s = bindStep (sendTargetsLoop rounds (fst (AllocateITT (ss_router s))) [] t) (\<lambda>(res, u).
      Done (map_sum id parseSendTargetsResponse res, unregisterTag (fst (AllocateITT (ss_router s))) u)) \<and>
    ss_window t = w \<and> accepting (ss_write t)"
proof -
  obtain itt r0 where al: "AllocateITT (ss_router s) = (itt, r0)" by force
  obtain ch r where rp: "RegisterPersistent itt r0 = (ch, r)" by force
  let ?s = "s\<lparr>ss_window := w, ss_router := r\<rparr>"
  let ?p = "textPDU 0xFFFFFFFF c itt sendTargetsText ?s"
  have "wf_TextReq ?p"
    using sendTargetsText_small by (simp add: textPDU_def wf_TextReq_def wf_Header_def zeroHeader_def word_le_nat_alt unat_of_nat_u32)
  then obtain bhs where b: "TextReq_MarshalBHS ?p = Inr bhs" using textreq.marshal_total by blast
  obtain t where "sendPDU (bareRaw bhs sendTargetsText) ?s = (True, t)" "ss_window t = w" "accepting (ss_write t)"
    using trySend_accepting [OF assms(3), of "sessionStamp ?s (bareRaw bhs sendTargetsText)"] by (auto simp: sendPDU_def)
  then show ?thesis
    by (intro exI [of _ t]) (simp add: SendTargets_def acquire_def assms(2) al rp b)
qed

section \<open>Properties\<close>

text \<open>C15. A target list survives discovery: printed by a target as text and parsed back, with IPv4 and bracketed IPv6
  portals, and however the target splits the text over continued responses, SendTargets returns exactly the list and gives
  the tag back.\<close>

theorem send_targets_returns_targets:
  assumes "list_all wf_Target ts" "concat (map answerData rounds) = targetsText ts" "textAnswers wdw (c + 1) rounds" "unat wdw < 2 ^ 31 - 1"
    "ss_window s = newCmdWindow c c c" "accepting (ss_write s)"
  shows "\<exists>s'. SendTargets ctxEnds rounds s = Done (Inr ts, s') \<and> fst (AllocateITT (ss_router s)) \<notin> fst ` set (pending (ss_router s'))"
proof -
  let ?itt = "fst (AllocateITT (ss_router s))"
  have "cw_cmdSN (ss_window s) = c" "acquireFast (ss_window s) = Granted c ((newCmdWindow c c c)\<lparr>cw_cmdSN := c + 1\<rparr>)"
    using assms(5) by (simp_all add: newCmdWindow_def acquireFast_def windowOpen_def LessThan_def InWindow_def takeSN_def Incr_def)
  from SendTargets_starts [OF this assms(6), of ctxEnds rounds]
  obtain t where t: "SendTargets ctxEnds rounds s = bindStep (sendTargetsLoop rounds ?itt [] t) (\<lambda>(res, u).
      Done (map_sum id parseSendTargetsResponse res, unregisterTag ?itt u))"
    "ss_window t = (newCmdWindow c c c)\<lparr>cw_cmdSN := c + 1\<rparr>" "accepting (ss_write t)" by blast
  have "requestSent (c + 1) t" using t(2,3) by (simp add: requestSent_def newCmdWindow_def)
  then obtain s' where "sendTargetsLoop rounds ?itt [] t = Done (Inr (targetsText ts), s')"
    using loop_collects [OF assms(4,3), of t ?itt "[]"] assms(2) by auto
  then show ?thesis
    using t(1) parse_targetsText [OF assms(1)] by (simp add: unregisterTag_def unregistered)
qed

text \<open>Unlike the first request, a continuation is sent without digests, whatever was negotiated.\<close>

lemma continuation_has_no_digest:
  "acquireFast (ss_window s) = Granted c w \<Longrightarrow> accepting (ss_write s) \<Longrightarrow>
     \<exists>t bhs. sendContinuation ctxEnds itt ttt s = Done (None, t) \<and> wr_sent (ss_write t) = wr_sent (ss_write s) @ [bareRaw bhs []]"
  using continuation_granted by blast

section \<open>Witness\<close>

definition sampleTargets :: "DiscoveryTarget list" where
  "sampleTargets = [\<lparr>dt_Name = ''iqn.a'', dt_Portals = [\<lparr>pt_Address = ''10.0.0.1'', pt_Port = 3260, pt_GroupTag = 1\<rparr>,
     \<lparr>pt_Address = ''fe80::1'', pt_Port = 860, pt_GroupTag = 2\<rparr>]\<rparr>, \<lparr>dt_Name = ''iqn.b'', dt_Portals = []\<rparr>]"

definition sampleAnswer :: "bool \<Rightarrow> u32 \<Rightarrow> bytes \<Rightarrow> TextRound" where
  "sampleAnswer cont sn data =
     (let p = \<lparr>te_Header = zeroHeader, te_Continue = cont, te_TargetTransferTag = 7, te_StatSN = 0, te_ExpCmdSN = sn,
               te_MaxCmdSN = sn + 4, te_Data = []\<rparr>
      in (id, Response (bareRaw (case TextResp_MarshalBHS p of Inr b \<Rightarrow> b | Inl _ \<Rightarrow> []) data), False))"

lemma sampleAnswer_ok: "textAnswers 4 sn (sampleAnswer cont sn data # rounds) \<longleftrightarrow> (if rounds = [] then \<not> cont else cont \<and> textAnswers 4 (sn + 1) rounds)"
  "answerData (sampleAnswer cont sn data) = data"
proof -
  let ?p = "\<lparr>te_Header = zeroHeader, te_Continue = cont, te_TargetTransferTag = 7, te_StatSN = 0, te_ExpCmdSN = sn,
               te_MaxCmdSN = sn + 4, te_Data = []\<rparr>"
  have w: "wf_TextResp ?p" by (simp add: wf_TextResp_def wf_Header_def zeroHeader_def)
  then obtain b where b: "TextResp_MarshalBHS ?p = Inr b" using textresp.marshal_total by blast
  have "DecodeBHS b = Inr (PTextResp (norm_TextResp ?p))" using marshalled_header(2) [of "PTextResp ?p" b] w b by simp
  then show "textAnswers 4 sn (sampleAnswer cont sn data # rounds) \<longleftrightarrow> (if rounds = [] then \<not> cont else cont \<and> textAnswers 4 (sn + 1) rounds)"
    "answerData (sampleAnswer cont sn data) = data"
    by (simp_all add: sampleAnswer_def b bareRaw_def harmless_def norm_TextResp_def answerData_def)
qed

theorem send_targets_returns_targets_witness:
  "\<exists>s'. SendTargets False [sampleAnswer True 2 (take 20 (targetsText sampleTargets)), sampleAnswer False 3 (drop 20 (targetsText sampleTargets))]
      sampleSession = Done (Inr sampleTargets, s')"
proof -
  have "list_all wf_Target sampleTargets"
    by (simp add: sampleTargets_def wf_Target_def wf_Portal_def bytes_of_def byte_of_def)
  moreover have "ss_window sampleSession = newCmdWindow 1 1 1"
    by (simp add: sampleSession_def NewSession_def fireStateChange_def Let_def Defaults_def)
  ultimately show ?thesis
    using send_targets_returns_targets [of sampleTargets "[sampleAnswer True 2 (take 20 (targetsText sampleTargets)),
        sampleAnswer False 3 (drop 20 (targetsText sampleTargets))]" 4 1 sampleSession False] sample_session(2)
    by (auto simp: sampleAnswer_ok)
qed

end
