(* ===== verification/Recovery.thy ===== *)
theory Recovery
  imports Session_IO Session_Routes "HOL-Library.Multiset"
begin

text \<open>
  \<open>internal/session/recovery.go\<close> and \<open>connreplace.go\<close>: what the goroutine that \<open>triggerReconnect\<close>
  starts does. At error recovery level 0 and 1 it reinstates the session on a new connection and
  submits the tasks in flight again; at level 2 it replaces the connection and asks the target to
  reassign them.

  The network is an argument: for each attempt the two dials with what the target sends, and whether
  the session is found closed before it. \<open>env\<close> is what the other goroutines do while this one waits,
  and \<open>order\<close> the order in which Go ranges over the map of tasks.
  The task loops of the old connection end on their own, once they find their channel closed; they
  stay in \<open>ss_loops\<close> until then.
\<close>

section \<open>Stopping the old connection\<close>

text \<open>The channels of the tasks in flight are closed; \<open>None\<close> is the panic of closing one twice.\<close>

fun closeTags :: "u32 list \<Rightarrow> Router \<Rightarrow> Router option" where
  "closeTags [] r = Some r"
| "closeTags (itt # itts) r = (case UnregisterAndClose itt r of None \<Rightarrow> None | Some r \<Rightarrow> closeTags itts r)"

definition closeRouterTags :: "(u32 \<times> nat) list \<Rightarrow> Session \<Rightarrow> Session Step" where
  "closeRouterTags snapshot s =
     (case closeTags (map fst snapshot) (ss_router s) of
        None \<Rightarrow> Crash
      | Some r \<Rightarrow> Done (s\<lparr>ss_router := r\<rparr>))"

section \<open>The reconnect loop\<close>

text \<open>One attempt: the session is closed meanwhile, the dial, and the second dial for a fresh session.\<close>

record Attempt =
  at_closed :: bool
  at_dial :: "LoginEnv option"
  at_redial :: "LoginEnv option"

datatype RecoveryError = RecoveryDial | RecoveryLogin LoginFailure

definition attemptLogin :: "LoginOption list \<Rightarrow> bytes \<Rightarrow> u16 \<Rightarrow> Attempt \<Rightarrow> RecoveryError + NegotiatedParams \<times> Conn" where
  "attemptLogin opts isid tsih attempt =
     (case at_dial attempt of
        None \<Rightarrow> Inl RecoveryDial
      | Some net \<Rightarrow>
          (case fst (Login net (WithISID isid # WithTSIH tsih # opts)) of
             Inr x \<Rightarrow> Inr x
           | Inl (LoginError class detail msg) \<Rightarrow>
               if class = 2
               then (case at_redial attempt of
                       None \<Rightarrow> Inl RecoveryDial
                     | Some net \<Rightarrow>
                         (case fst (Login net (WithISID isid # opts)) of
                            Inr x \<Rightarrow> Inr x
                          | Inl e \<Rightarrow> Inl (RecoveryLogin e)))
               else Inl (RecoveryLogin (LoginError class detail msg))
           | Inl e \<Rightarrow> Inl (RecoveryLogin e)))"

text \<open>Nanoseconds to wait before an attempt: the product is a 64-bit integer.\<close>

definition reconnectDelay :: "int \<Rightarrow> nat \<Rightarrow> int" where
  "reconnectDelay backoff attempt =
     (if attempt > 0
      then let exponent = min (int attempt - 1) 30
           in sint (of_int (backoff * 2 ^ nat (max 0 exponent)) :: 64 word)
      else 0)"

datatype ReconnectEnd =
    SessionClosedMeanwhile
  | AttemptsExhausted "RecoveryError option"
  | Connected NegotiatedParams Conn

fun reconnectLoop :: "LoginOption list \<Rightarrow> bytes \<Rightarrow> u16 \<Rightarrow> RecoveryError option \<Rightarrow> Attempt list \<Rightarrow> ReconnectEnd" where
  "reconnectLoop opts isid tsih lastErr [] = AttemptsExhausted lastErr"
| "reconnectLoop opts isid tsih lastErr (attempt # attempts) =
     (if at_closed attempt then SessionClosedMeanwhile
      else case attemptLogin opts isid tsih attempt of
             Inr (params, conn) \<Rightarrow> Connected params conn
           | Inl e \<Rightarrow> reconnectLoop opts isid tsih (Some e) attempts)"

text \<open>The new connection in the session's state, with a fresh write channel and a running context.\<close>

definition installConnection :: "NegotiatedParams \<Rightarrow> Conn \<Rightarrow> (nat \<Rightarrow> bool) \<Rightarrow> Session \<Rightarrow> Session" where
  "installConnection params conn accepts s =
     s\<lparr>ss_conn := conn, ss_params := params, ss_tsih := np_TSIH params,
       ss_write := \<lparr>wr_sent = [], wr_tries = 0, wr_accepts = accepts\<rparr>, ss_cancelled := False,
       ss_window := newCmdWindow (np_CmdSN params) (np_CmdSN params) (np_CmdSN params),
       ss_expStatSN := np_ExpStatSN params, ss_err := None, ss_loggedIn := True\<rparr>"

definition recovered :: "Session \<Rightarrow> Session" where
  "recovered s = s\<lparr>ss_recovering := False\<rparr>"

section \<open>Submitting the tasks again\<close>

definition failTask :: "SessionError \<Rightarrow> nat \<Rightarrow> Session \<Rightarrow> Session" where
  "failTask e a s = setTask a (cancel e (ss_objs s ! a)) s"

text \<open>The reader of a write is rewound.\<close>

definition rewindTask :: "task \<Rightarrow> SessionError option \<times> task" where
  "rewindTask t =
     (case tk_reader t of
        Some r \<Rightarrow>
          if tk_isWrite t
          then (case seekStart r of
                  (Some e, r) \<Rightarrow> (Some e, t\<lparr>tk_reader := Some r\<rparr>)
                | (None, r) \<Rightarrow> (None, t\<lparr>tk_reader := Some r, tk_bytesSent := 0\<rparr>))
          else (None, t)
      | None \<Rightarrow> (None, t))"

definition retryUnsolicited :: "nat \<Rightarrow> nat \<Rightarrow> Session \<Rightarrow> Session Step" where
  "retryUnsolicited a ch s =
     (let t = ss_objs s ! a
      in if tk_isWrite t \<and> \<not> np_InitialR2T (ss_params s) \<and> tk_reader t \<noteq> None
         then bindStep (sendUnsolicitedDataOut (\<lambda>_. ss_expStatSN s) (ss_params s) (sessionStamp s) t) (\<lambda>burst.
                case burst of
                  None \<Rightarrow> Stuck
                | Some (err, t, ps) \<Rightarrow>
                    let s = sentPDUs ps (setTask a t s)
                    in (case err of
                          Some e \<Rightarrow> Done (failTask e a s)
                        | None \<Rightarrow> Done (s\<lparr>ss_loops := (a, ch) # ss_loops s\<rparr>)))
         else Done (s\<lparr>ss_loops := (a, ch) # ss_loops s\<rparr>))"

definition retryImmediate :: "NegotiatedParams \<Rightarrow> task \<Rightarrow> (SessionError + bytes) \<times> task" where
  "retryImmediate params t =
     (case tk_reader t of
        Some r \<Rightarrow> if tk_isWrite t \<and> np_ImmediateData params then readImmediate params r t else (Inr [], t)
      | None \<Rightarrow> (Inr [], t))"

text \<open>With the new tag \<open>itt\<close>, registered as \<open>ch\<close>, and the new CmdSN.\<close>

definition resubmit :: "nat \<Rightarrow> u32 \<Rightarrow> nat \<Rightarrow> u32 \<Rightarrow> Session \<Rightarrow> Session Step" where
  "resubmit a itt ch cmdSN s =
     (let (imm, t) = retryImmediate (ss_params s) (restartRead ((ss_objs s ! a)\<lparr>tk_itt := itt\<rparr>));
          s = setTask a t s
      in case imm of
           Inl e \<Rightarrow> Done (failTask e a s)
         | Inr immediateData \<Rightarrow>
             bindStep (buildSCSICommandPDU (tk_cmd t) itt cmdSN (ss_expStatSN s) immediateData) (\<lambda>built.
               case built of
                 Inl e \<Rightarrow> Done (failTask (ErrEncode e) a s)
               | Inr raw \<Rightarrow>
                   (case sendPDU raw (s\<lparr>ss_tasks := AList.update itt a (ss_tasks s)\<rparr>) of
                      (False, s) \<Rightarrow> Done (failTask ErrContext a s)
                    | (True, s) \<Rightarrow> retryUnsolicited a ch s)))"

text \<open>One round of the loop; \<open>env\<close> acts while it waits for a CmdSN, or else its context ends.\<close>

definition retryTask :: "(Session \<Rightarrow> Session) \<Rightarrow> bool \<Rightarrow> nat \<Rightarrow> Session \<Rightarrow> Session Step" where
  "retryTask env ctxEnds a s =
     (let t = ss_objs s ! a
      in if tk_streaming t then Done (failTask ErrStreamingNotRetriable a s)
         else
           let (err, t) = rewindTask t;
               s = setTask a t s
           in (case err of
                 Some e \<Rightarrow> Done (failTask e a s)
               | None \<Rightarrow>
                   let s = env s
                   in (case acquire ctxEnds (ss_window s) of
                         WindowClosed \<Rightarrow> Done (failTask ErrAcquire a s)
                       | Canceled \<Rightarrow> Done (failTask ErrAcquire a s)
                       | MustWait \<Rightarrow> Stuck
                       | Granted cmdSN w \<Rightarrow>
                           let (itt, r) = AllocateITT (ss_router s);
                               (ch, r) = RegisterPersistent itt r
                           in resubmit a itt ch cmdSN (s\<lparr>ss_window := w, ss_router := r\<rparr>))))"

fun retryTasks :: "((Session \<Rightarrow> Session) \<times> bool) list \<Rightarrow> nat list \<Rightarrow> Session \<Rightarrow> Session Step" where
  "retryTasks waits [] s = Done s"
| "retryTasks [] (a # as) s = bindStep (retryTask id False a s) (retryTasks [] as)"
| "retryTasks ((env, ctxEnds) # waits) (a # as) s = bindStep (retryTask env ctxEnds a s) (retryTasks waits as)"

section \<open>Session reinstatement\<close>

type_synonym Order = "(u32 \<times> nat) list \<Rightarrow> (u32 \<times> nat) list"

definition reconnect :: "LoginOption list \<Rightarrow> bool \<Rightarrow> Attempt list \<Rightarrow> (nat \<Rightarrow> bool) \<Rightarrow> Order
    \<Rightarrow> ((Session \<Rightarrow> Session) \<times> bool) list \<Rightarrow> Session \<Rightarrow> Session Step" where
  "reconnect opts closedMeanwhile attempts accepts order waits s =
     (if ss_closed s then Done (recovered s)
      else
        let s = s\<lparr>ss_cancelled := True\<rparr>
        in if closedMeanwhile then Done (recovered s)
           else
             let snapshot = ss_tasks s
             in bindStep (closeRouterTags snapshot (s\<lparr>ss_tasks := []\<rparr>)) (\<lambda>s.
                  case reconnectLoop opts (ss_isid s) (ss_tsih s) None (take (nat (sg_maxReconnectAttempts (ss_cfg s))) attempts) of
                    SessionClosedMeanwhile \<Rightarrow> Done (recovered s)
                  | AttemptsExhausted _ \<Rightarrow>
                      let s = recovered (s\<lparr>ss_err := Some (ErrOther ''reconnect failed'')\<rparr>)
                      in Done (fold (\<lambda>(_, a). failTask (ErrOther ''reconnect failed'') a) snapshot s)
                  | Connected params conn \<Rightarrow>
                      let s = fireStateChange SessionFullFeature (installConnection params conn accepts s)
                      in bindStep (retryTasks waits (map snd (order snapshot)) s) (\<lambda>s. Done (recovered s))))"

section \<open>Connection replacement\<close>

text \<open>One task is reassigned to the new connection, or failed.\<close>

definition reassignTask :: "(Session \<Rightarrow> Session) \<Rightarrow> Reply \<Rightarrow> u32 \<times> nat \<Rightarrow> Session \<Rightarrow> Session Step" where
  "reassignTask env reply = (\<lambda>(itt, a) s.
     let (newITT, r) = AllocateITT (ss_router s);
         (ch, r) = RegisterPersistent newITT r
     in bindStep (sendTMF env reply TMFTaskReassign itt (tk_lun (ss_objs s ! a)) (s\<lparr>ss_router := r\<rparr>)) (\<lambda>(res, s).
          case res of
            Inr result \<Rightarrow>
              if tf_Response result \<noteq> 0
              then Done (failTask (ErrOther ''task reassign failed'') a (unregisterTag itt (unregisterTag newITT s)))
              else
                let s = unregisterTag itt s;
                    s = setTask a ((ss_objs s ! a)\<lparr>tk_itt := newITT\<rparr>) s;
                    s = s\<lparr>ss_tasks := AList.delete itt (AList.update newITT a (ss_tasks s))\<rparr>
                in Done (s\<lparr>ss_loops := (a, ch) # ss_loops s\<rparr>)
          | Inl e \<Rightarrow> Done (failTask (ErrOther ''task reassign failed'') a (unregisterTag itt (unregisterTag newITT s)))))"

fun reassignTasks :: "((Session \<Rightarrow> Session) \<times> Reply) list \<Rightarrow> (u32 \<times> nat) list \<Rightarrow> Session \<Rightarrow> Session Step" where
  "reassignTasks replies [] s = Done s"
| "reassignTasks [] (p # ps) s = bindStep (reassignTask id TimedOut p s) (reassignTasks [] ps)"
| "reassignTasks ((env, reply) # replies) (p # ps) s = bindStep (reassignTask env reply p s) (reassignTasks replies ps)"

text \<open>The result tells whether the connection was replaced.\<close>

definition replaceConnection :: "LoginOption list \<Rightarrow> LoginEnv option \<Rightarrow> (nat \<Rightarrow> bool) \<Rightarrow> (Session \<Rightarrow> Session) \<Rightarrow> Reply
    \<Rightarrow> Order \<Rightarrow> ((Session \<Rightarrow> Session) \<times> Reply) list \<Rightarrow> Session \<Rightarrow> (RecoveryError option \<times> Session) Step" where
  "replaceConnection opts dialled accepts env reply order replies s =
     (let s = s\<lparr>ss_cancelled := True\<rparr>;
          snapshot = ss_tasks s
      in bindStep (closeRouterTags snapshot s) (\<lambda>s.
           case dialled of
             None \<Rightarrow> Done (Some RecoveryDial, s)
           | Some net \<Rightarrow>
               (case fst (Login net (WithISID (ss_isid s) # WithTSIH (ss_tsih s) # opts)) of
                  Inl e \<Rightarrow> Done (Some (RecoveryLogin e), s)
                | Inr (params, conn) \<Rightarrow>
                    let s = installConnection params conn accepts s
                    in bindStep (logout True env reply 2 s) (\<lambda>(_, s).
                         bindStep (reassignTasks replies (order snapshot) s) (\<lambda>s. Done (None, recovered s))))))"

text \<open>The goroutine of level 2, with the fall back to reinstatement.\<close>

definition recoverLevel2 :: "LoginOption list \<Rightarrow> LoginEnv option \<Rightarrow> (nat \<Rightarrow> bool) \<Rightarrow> (Session \<Rightarrow> Session) \<Rightarrow> Reply
    \<Rightarrow> Order \<Rightarrow> ((Session \<Rightarrow> Session) \<times> Reply) list \<Rightarrow> bool \<Rightarrow> Attempt list \<Rightarrow> (nat \<Rightarrow> bool)
    \<Rightarrow> ((Session \<Rightarrow> Session) \<times> bool) list \<Rightarrow> Session \<Rightarrow> Session Step" where
  "recoverLevel2 opts dialled accepts env reply order replies closedMeanwhile attempts accepts' waits s =
     bindStep (replaceConnection opts dialled accepts env reply order replies s) (\<lambda>(err, s).
       case err of
         None \<Rightarrow> Done (recovered s)
       | Some e \<Rightarrow> bindStep (reconnect opts closedMeanwhile attempts accepts' order waits s) (\<lambda>s. Done (recovered s)))"

section \<open>An interrupted read\<close>

text \<open>A read that has no result yet; what had arrived of it is in its buffer, and no PDU waits for an earlier one.\<close>

definition interruptedRead :: "task \<Rightarrow> bool" where
  "interruptedRead t \<longleftrightarrow> tk_isRead t \<and> \<not> tk_isWrite t \<and> \<not> tk_streaming t \<and> tk_reader t = None \<and> tk_buf t \<noteq> None \<and>
     tk_resultCh t = make_chan 1 \<and> pendingOf t = []"

lemma retryTask_read:
  assumes "interruptedRead (ss_objs s ! a)" "a < length (ss_objs s)" "acquireFast (ss_window s) = Granted sn w" "accepting (ss_write s)"
    "cm_LUN (tk_cmd (ss_objs s ! a)) \<le> 0xFFFF" "length (cm_CDB (tk_cmd (ss_objs s ! a))) = 16"
    "unat (cm_TaskAttributes (tk_cmd (ss_objs s ! a))) < 8" "wf_fragments fs"
  shows "\<exists>s' lun raw. retryTask id ctxEnds a s = Done s' \<and> reading fs {} (fst (AllocateITT (ss_router s))) a s' \<and>
    tk_erl (ss_objs s' ! a) = tk_erl (ss_objs s ! a) \<and> tk_done (ss_objs s' ! a) = tk_done (ss_objs s ! a) \<and> EncodeSAMLUN (cm_LUN (tk_cmd (ss_objs s ! a))) = Some lun \<and>
    wr_sent (ss_write s') = wr_sent (ss_write s) @ [sessionStamp s raw] \<and> raw_DataSegment raw = [] \<and>
    DecodeBHS (raw_BHS raw) = Inr (PSCSICommand (norm_SCSICommand
      (scsiCommand (tk_cmd (ss_objs s ! a)) lun (fst (AllocateITT (ss_router s))) sn (ss_expStatSN s) [])))"
proof -
  define t where "t = ss_objs s ! a"
  obtain itt r0 where al: "AllocateITT (ss_router s) = (itt, r0)" by force
  obtain ch r where rp: "RegisterPersistent itt r0 = (ch, r)" by force
  define u where "u = restartRead (t\<lparr>tk_itt := itt\<rparr>)"
  let ?s = "s\<lparr>ss_window := w, ss_router := r\<rparr>"
  have i: "tk_isRead t" "\<not> tk_isWrite t" "\<not> tk_streaming t" "tk_reader t = None" "tk_buf t \<noteq> None"
    "tk_resultCh t = make_chan 1" "pendingOf t = []"
    using assms(1) by (simp_all add: interruptedRead_def t_def)
  have u: "tk_reader u = None" "\<not> tk_isWrite u" "tk_cmd u = tk_cmd t" "tk_itt u = itt" "tk_erl u = tk_erl t" "tk_done u = tk_done t"
    using i by (simp_all add: u_def restartRead_def Let_def)
  have f: "refines fs {} u"
    using i assms(8) by (auto simp: refines_def assembled_def u_def restartRead_def Let_def pendingOf_def make_chan_def wf_fragments_def
        intro!: exI [of _ 0])
  obtain lun raw where raw: "EncodeSAMLUN (cm_LUN (tk_cmd t)) = Some lun" "buildSCSICommandPDU (tk_cmd t) itt sn (ss_expStatSN s) [] = Done (Inr raw)"
    "raw_DataSegment raw = []" "DecodeBHS (raw_BHS raw) = Inr (PSCSICommand (norm_SCSICommand (scsiCommand (tk_cmd t) lun itt sn (ss_expStatSN s) [])))"
    using build_command_succeeds [of "tk_cmd t" "[]" itt sn "ss_expStatSN s"] assms(5-7) by (auto simp: t_def)
  let ?v = "(setTask a u ?s)\<lparr>ss_tasks := AList.update itt a (ss_tasks s)\<rparr>"
  obtain x where x: "sendPDU raw ?v = (True, x)" "accepting (ss_write x)" "ss_objs x = (ss_objs s)[a := u]"
    "wr_sent (ss_write x) = wr_sent (ss_write s) @ [sessionStamp s raw]"
    using assms(4) by (auto simp: sendPDU_def trySend_def accepting_def setTask_def sessionStamp_def Let_def)
  let ?s' = "x\<lparr>ss_loops := (a, ch) # ss_loops x\<rparr>"
  have "retryUnsolicited a ch x = Done ?s'" using u(2) assms(2) by (simp add: retryUnsolicited_def Let_def x(3))
  then have "resubmit a itt ch sn ?s = Done ?s'"
    using raw(2) x(1) u(1,3) by (simp add: resubmit_def retryImmediate_def t_def [symmetric] u_def [symmetric] setTask_def Let_def)
  then have "retryTask id ctxEnds a s = Done ?s'"
    using i(3,4) assms(2,3) al rp
    by (simp add: retryTask_def rewindTask_def t_def [symmetric] setTask_def acquire_def Let_def) (simp add: t_def)
  moreover have "reading fs {} itt a ?s'" using f u(4) assms(2) x by (simp add: reading_def)
  ultimately show ?thesis using raw x u(5,6) assms(2) al by (auto simp: t_def)
qed

section \<open>Every task in flight is resolved\<close>

definition answered :: "task \<Rightarrow> bool" where
  "answered t \<longleftrightarrow> tk_done t \<and> ch_buf (tk_resultCh t) \<noteq> []"

text \<open>Tracked under its own tag, with a loop that receives what the router dispatches to that tag.\<close>

definition running :: "nat \<Rightarrow> Session \<Rightarrow> bool" where
  "running a s \<longleftrightarrow> map_of (ss_tasks s) (tk_itt (ss_objs s ! a)) = Some a \<and>
     (\<exists>ch. (a, ch) \<in> set (ss_loops s) \<and>
        map_of (pending (ss_router s)) (tk_itt (ss_objs s ! a)) = Some \<lparr>ent_ch = ch, ent_persistent = True\<rparr>)"

definition one_result :: "task \<Rightarrow> bool" where
  "one_result t \<longleftrightarrow> ch_cap (tk_resultCh t) = 1 \<and> \<not> ch_closed (tk_resultCh t)"

lemma one_result_kept: "keeps t t' \<Longrightarrow> one_result t \<Longrightarrow> one_result t'"
  by (simp add: keeps_def one_result_def)

lemma cancel_answers: "one_result t \<Longrightarrow> answered (cancel e t) \<and> one_result (cancel e t)"
  using cancel_result [of t e] keeps_cancel(1) [of t e] keeps_cancel(2) [of e t] one_result_kept [of t]
  by (auto simp: answered_def one_result_def)

text \<open>What one round of the retry loop may do to the task \<open>a\<close>; the other tasks stay as they are.\<close>

definition touches :: "nat \<Rightarrow> Session \<Rightarrow> Session \<Rightarrow> bool" where
  "touches a s s' \<longleftrightarrow> length (ss_objs s') = length (ss_objs s) \<and> (\<forall>b. b \<noteq> a \<longrightarrow> ss_objs s' ! b = ss_objs s ! b) \<and>
     (one_result (ss_objs s ! a) \<longrightarrow> one_result (ss_objs s' ! a)) \<and> set (ss_loops s) \<subseteq> set (ss_loops s')"

lemma touches_trans: "touches a s u \<Longrightarrow> touches a u s' \<Longrightarrow> touches a s s'"
  by (auto simp: touches_def)

lemma touches_setTask: "a < length (ss_objs s) \<Longrightarrow> (one_result (ss_objs s ! a) \<Longrightarrow> one_result t) \<Longrightarrow> touches a s (setTask a t s)"
  by (simp add: touches_def setTask_def)

lemma failTask_effect:
  assumes "a < length (ss_objs s)" "one_result (ss_objs s ! a)"
  shows "touches a s (failTask e a s) \<and> answered (ss_objs (failTask e a s) ! a) \<and> ss_tasks (failTask e a s) = ss_tasks s \<and>
    ss_router (failTask e a s) = ss_router s \<and> ss_loops (failTask e a s) = ss_loops s \<and>
    tk_itt (ss_objs (failTask e a s) ! a) = tk_itt (ss_objs s ! a)"
  using cancel_answers [OF assms(2), of e] keeps_cancel(1) [of "ss_objs s ! a" e] assms(1)
  by (simp add: failTask_def touches_def setTask_def keeps_def)

lemma keeps_retryImmediate: "retryImmediate ps t = (x, t') \<Longrightarrow> keeps t t'"
  by (auto simp: retryImmediate_def kept split: option.splits if_splits dest: keeps_readImmediate)

definition resubmitted :: "nat \<Rightarrow> u32 \<Rightarrow> nat \<Rightarrow> Session \<Rightarrow> Session \<Rightarrow> bool" where
  "resubmitted a itt ch s s' \<longleftrightarrow> touches a s s' \<and> ss_router s' = ss_router s \<and> tk_itt (ss_objs s' ! a) = itt \<and>
     (answered (ss_objs s' ! a) \<and> ss_loops s' = ss_loops s \<and>
        (ss_tasks s' = ss_tasks s \<or> ss_tasks s' = AList.update itt a (ss_tasks s)) \<or>
      ss_loops s' = (a, ch) # ss_loops s \<and> ss_tasks s' = AList.update itt a (ss_tasks s))"

lemma resubmitted_running:
  assumes "resubmitted a itt ch s s'" "map_of (pending (ss_router s)) itt = Some \<lparr>ent_ch = ch, ent_persistent = True\<rparr>"
  shows "(\<forall>i. i \<noteq> itt \<longrightarrow> map_of (ss_tasks s') i = map_of (ss_tasks s) i) \<and>
    (answered (ss_objs s' ! a) \<or> tk_itt (ss_objs s' ! a) = itt \<and> running a s')"
  using assms by (auto simp: resubmitted_def running_def update_conv')

lemma retryUnsolicited_effect:
  assumes "retryUnsolicited a ch s = Done s'" "a < length (ss_objs s)" "one_result (ss_objs s ! a)"
    "tk_itt (ss_objs s ! a) = itt"
  shows "touches a s s' \<and> ss_router s' = ss_router s \<and> ss_tasks s' = ss_tasks s \<and> tk_itt (ss_objs s' ! a) = itt \<and>
    (answered (ss_objs s' ! a) \<and> ss_loops s' = ss_loops s \<or> ss_loops s' = (a, ch) # ss_loops s)"
proof (cases "tk_isWrite (ss_objs s ! a) \<and> \<not> np_InitialR2T (ss_params s) \<and> tk_reader (ss_objs s ! a) \<noteq> None")
  case True
  let ?r = "sendUnsolicitedDataOut (\<lambda>_. ss_expStatSN s) (ss_params s) (sessionStamp s) (ss_objs s ! a)"
  obtain burst where b: "?r = Done burst" using assms(1) True by (cases ?r) (auto simp: retryUnsolicited_def Let_def)
  then obtain err t ps where p: "burst = Some (err, t, ps)" using assms(1) True by (cases burst) (auto simp: retryUnsolicited_def Let_def)
  have k: "keeps (ss_objs s ! a) t" using keeps_sendUnsolicited b p by blast
  let ?u = "sentPDUs ps (setTask a t s)"
  have u: "touches a s ?u" "ss_objs ?u ! a = t" "ss_tasks ?u = ss_tasks s" "ss_router ?u = ss_router s" "a < length (ss_objs ?u)"
    "ss_loops ?u = ss_loops s"
    using assms(2) one_result_kept [OF k] by (simp_all add: touches_def sentPDUs_def setTask_def)
  have o: "one_result t" "tk_itt t = itt" using one_result_kept [OF k assms(3)] k assms(4) by (simp_all add: keeps_def)
  have s': "s' = (case err of Some e \<Rightarrow> failTask e a ?u | None \<Rightarrow> ?u\<lparr>ss_loops := (a, ch) # ss_loops ?u\<rparr>)"
    using assms(1) True b p by (cases err) (auto simp: retryUnsolicited_def Let_def)
  show ?thesis
  proof (cases err)
    case None
    then show ?thesis using u o s' by (auto simp: touches_def)
  next
    case (Some e)
    then show ?thesis using failTask_effect [of a ?u e] u o s' touches_trans [OF u(1)] by simp
  qed
next
  case False
  then have "s' = s\<lparr>ss_loops := (a, ch) # ss_loops s\<rparr>" using assms(1) by (auto simp: retryUnsolicited_def Let_def)
  then show ?thesis using assms(2-4) by (auto simp: touches_def)
qed

lemma resubmit_effect:
  assumes "resubmit a itt ch sn s = Done s'" "a < length (ss_objs s)" "one_result (ss_objs s ! a)"
  shows "resubmitted a itt ch s s'"
proof -
  define t0 where "t0 = restartRead ((ss_objs s ! a)\<lparr>tk_itt := itt\<rparr>)"
  obtain imm t where i: "retryImmediate (ss_params s) t0 = (imm, t)" by force
  have "keeps ((ss_objs s ! a)\<lparr>tk_itt := itt\<rparr>) t" using keeps_trans [OF keeps_restart keeps_retryImmediate] i by (simp add: t0_def)
  then have o: "one_result t" "tk_itt t = itt" using assms(3) by (simp_all add: keeps_def one_result_def)
  let ?u = "setTask a t s"
  have u: "touches a s ?u" "ss_objs ?u ! a = t" "ss_tasks ?u = ss_tasks s" "ss_router ?u = ss_router s" "a < length (ss_objs ?u)"
    "ss_loops ?u = ss_loops s"
    using assms(2) o by (simp_all add: touches_def setTask_def)
  have fail: "resubmitted a itt ch s (failTask e a v)" if "touches a s v" "ss_objs v ! a = t" "ss_router v = ss_router s" "a < length (ss_objs v)"
    "ss_loops v = ss_loops s" "ss_tasks v = ss_tasks s \<or> ss_tasks v = AList.update itt a (ss_tasks s)" for e v
    using failTask_effect [of a v e] that o touches_trans [OF that(1)] by (auto simp: resubmitted_def)
  have run: "resubmit a itt ch sn s = (case imm of Inl e \<Rightarrow> Done (failTask e a ?u)
    | Inr d \<Rightarrow> bindStep (buildSCSICommandPDU (tk_cmd t) itt sn (ss_expStatSN ?u) d) (\<lambda>built.
        case built of Inl e \<Rightarrow> Done (failTask (ErrEncode e) a ?u)
        | Inr raw \<Rightarrow> (case sendPDU raw (?u\<lparr>ss_tasks := AList.update itt a (ss_tasks ?u)\<rparr>) of
            (False, s) \<Rightarrow> Done (failTask ErrContext a s) | (True, s) \<Rightarrow> retryUnsolicited a ch s)))"
    unfolding resubmit_def Let_def t0_def [symmetric] i by simp
  show ?thesis
  proof (cases imm)
    case (Inl e)
    then show ?thesis using run assms(1) fail [OF u(1,2,4-6)] u(3) by simp
  next
    case (Inr d)
    obtain built where b: "buildSCSICommandPDU (tk_cmd t) itt sn (ss_expStatSN ?u) d = Done built"
      using assms(1) run Inr by (cases "buildSCSICommandPDU (tk_cmd t) itt sn (ss_expStatSN ?u) d") auto
    show ?thesis
    proof (cases built)
      case (Inl e)
      then show ?thesis using run assms(1) Inr b fail [OF u(1,2,4-6)] u(3) by simp
    next
      case raw: (Inr raw)
      let ?v = "?u\<lparr>ss_tasks := AList.update itt a (ss_tasks ?u)\<rparr>"
      obtain ok v where v: "sendPDU raw ?v = (ok, v)" by force
      have e: "touches a s v" "ss_objs v ! a = t" "ss_router v = ss_router s" "a < length (ss_objs v)"
        "ss_loops v = ss_loops s" "ss_tasks v = AList.update itt a (ss_tasks s)"
        using u v by (auto simp: sendPDU_def touches_def split: prod.splits)
      show ?thesis
      proof (cases ok)
        case True
        then have "retryUnsolicited a ch v = Done s'" using run assms(1) Inr b raw v by simp
        from retryUnsolicited_effect [OF this e(4), of itt] show ?thesis
          using e o touches_trans [OF e(1)] by (auto simp: resubmitted_def)
      next
        case False
        then show ?thesis using run assms(1) Inr b raw v fail [OF e(1-5)] e(6) by simp
      qed
    qed
  qed
qed

text \<open>While it waits, the other goroutines only move the window and the sequence numbers and write.\<close>

definition quietEnv :: "(Session \<Rightarrow> Session) \<Rightarrow> bool" where
  "quietEnv env \<longleftrightarrow> (\<forall>s. ss_objs (env s) = ss_objs s \<and> ss_tasks (env s) = ss_tasks s \<and> ss_loops (env s) = ss_loops s \<and>
     ss_router (env s) = ss_router s)"

text \<open>One round: the task is failed, or one tag is allocated for it.\<close>

lemma retryTask_effect:
  assumes "retryTask env ctxEnds a s = Done s'" "quietEnv env" "a < length (ss_objs s)" "one_result (ss_objs s ! a)"
  shows "touches a s s' \<and>
    (answered (ss_objs s' ! a) \<and> ss_tasks s' = ss_tasks s \<and> ss_router s' = ss_router s \<and> ss_loops s' = ss_loops s \<or>
    (\<exists>itt r ch r'. AllocateITT (ss_router s) = (itt, r) \<and> RegisterPersistent itt r = (ch, r') \<and>
      resubmitted a itt ch (s\<lparr>ss_router := r'\<rparr>) s'))"
proof (cases "tk_streaming (ss_objs s ! a)")
  case True
  then show ?thesis using assms(1) failTask_effect [OF assms(3,4)] by (auto simp: retryTask_def Let_def)
next
  case False
  obtain err t where rw: "rewindTask (ss_objs s ! a) = (err, t)" by force
  have k: "keeps (ss_objs s ! a) t" using rw by (auto simp: rewindTask_def kept keeps_def split: option.splits if_splits prod.splits)
  let ?u = "setTask a t s"
  have u: "touches a s ?u" "a < length (ss_objs ?u)" "one_result (ss_objs ?u ! a)" "ss_tasks ?u = ss_tasks s" "ss_router ?u = ss_router s"
    "ss_loops ?u = ss_loops s"
    using assms(3) one_result_kept [OF k assms(4)] by (simp_all add: touches_def setTask_def)
  have e: "touches a s (env ?u)" "a < length (ss_objs (env ?u))" "one_result (ss_objs (env ?u) ! a)" "ss_tasks (env ?u) = ss_tasks s"
    "ss_router (env ?u) = ss_router s" "ss_loops (env ?u) = ss_loops s"
    using u assms(2) by (simp_all add: touches_def quietEnv_def)
  have fail: ?thesis if "s' = failTask x a v" "touches a s v" "a < length (ss_objs v)" "one_result (ss_objs v ! a)"
    "ss_tasks v = ss_tasks s" "ss_router v = ss_router s" "ss_loops v = ss_loops s" for x v
    using failTask_effect [OF that(3,4), of x] that touches_trans [OF that(2)] by auto
  show ?thesis
  proof (cases err)
    case (Some x)
    then have "s' = failTask x a ?u" using assms(1) False rw by (simp add: retryTask_def Let_def)
    then show ?thesis using u by (rule fail)
  next
    case None
    have run: "retryTask env ctxEnds a s = (case acquire ctxEnds (ss_window (env ?u)) of
        WindowClosed \<Rightarrow> Done (failTask ErrAcquire a (env ?u)) | Canceled \<Rightarrow> Done (failTask ErrAcquire a (env ?u)) | MustWait \<Rightarrow> Stuck
      | Granted cmdSN w \<Rightarrow> let (itt, r) = AllocateITT (ss_router (env ?u)); (ch, r) = RegisterPersistent itt r
          in resubmit a itt ch cmdSN ((env ?u)\<lparr>ss_window := w, ss_router := r\<rparr>))"
      using False None rw by (simp add: retryTask_def Let_def)
    show ?thesis
    proof (cases "acquire ctxEnds (ss_window (env ?u))")
      case (Granted sn w)
      obtain itt r where al: "AllocateITT (ss_router s) = (itt, r)" by force
      obtain ch r' where rp: "RegisterPersistent itt r = (ch, r')" by force
      let ?v = "(env ?u)\<lparr>ss_window := w, ss_router := r'\<rparr>"
      have "resubmit a itt ch sn ?v = Done s'" using assms(1) run Granted al rp e(5) by simp
      then have q: "resubmitted a itt ch ?v s'" using e by (intro resubmit_effect) simp_all
      have t: "touches a s ?v" using e(1) by (simp add: touches_def)
      have "resubmitted a itt ch (s\<lparr>ss_router := r'\<rparr>) s'"
        using q e(4,6) touches_trans [OF t, of s'] by (simp add: resubmitted_def touches_def)
      then show ?thesis using q al rp touches_trans [OF t, of s'] unfolding resubmitted_def by blast
    next
      case WindowClosed
      then have "s' = failTask ErrAcquire a (env ?u)" using assms(1) run by simp
      then show ?thesis using e by (rule fail)
    next
      case Canceled
      then have "s' = failTask ErrAcquire a (env ?u)" using assms(1) run by simp
      then show ?thesis using e by (rule fail)
    next
      case MustWait
      then show ?thesis using assms(1) run by simp
    qed
  qed
qed

text \<open>The tags given out since the loop began; fewer than \<open>2 ^ 32 - 1\<close> are different from each other.\<close>

abbreviation (input) tagCount :: nat where "tagCount \<equiv> 2 ^ 32 - 1"

definition resolved :: "nat \<Rightarrow> nat \<Rightarrow> nat \<Rightarrow> Session \<Rightarrow> bool" where
  "resolved i0 m b s \<longleftrightarrow> answered (ss_objs s ! b) \<or>
     running b s \<and> (\<exists>j<m. unat (tk_itt (ss_objs s ! b)) = (i0 + j) mod tagCount)"

lemma running_kept:
  assumes "running b s" "touches a s s'" "b \<noteq> a" "map_of (ss_tasks s') (tk_itt (ss_objs s ! b)) = map_of (ss_tasks s) (tk_itt (ss_objs s ! b))"
    "map_of (pending (ss_router s')) (tk_itt (ss_objs s ! b)) = map_of (pending (ss_router s)) (tk_itt (ss_objs s ! b))"
  shows "running b s'"
proof -
  have "ss_objs s' ! b = ss_objs s ! b" "set (ss_loops s) \<subseteq> set (ss_loops s')" using assms(2,3) by (simp_all add: touches_def)
  then show ?thesis using assms(1,4,5) unfolding running_def by auto
qed

lemma resolved_kept:
  assumes "resolved i0 m b s" "touches a s s'" "b \<noteq> a" "m \<le> m'"
    "\<And>j. j < m \<Longrightarrow> unat (tk_itt (ss_objs s ! b)) = (i0 + j) mod tagCount \<Longrightarrow> running b s \<Longrightarrow> running b s'"
  shows "resolved i0 m' b s'"
proof -
  have o: "ss_objs s' ! b = ss_objs s ! b" using assms(2,3) by (simp add: touches_def)
  show ?thesis
  proof (cases "answered (ss_objs s ! b)")
    case True
    then show ?thesis by (simp add: resolved_def o)
  next
    case False
    then obtain j where j: "running b s" "j < m" "unat (tk_itt (ss_objs s ! b)) = (i0 + j) mod tagCount"
      using assms(1) unfolding resolved_def by blast
    then have "running b s'" "j < m'" using assms(4,5) by simp_all
    then show ?thesis using j(3) unfolding resolved_def o by blast
  qed
qed

lemma resolved_other:
  assumes "resolved i0 m b s" "touches a s s'" "b \<noteq> a" "ss_router s' = ss_router s" "ss_tasks s' = ss_tasks s"
  shows "resolved i0 m b s'"
  by (rule resolved_kept [OF assms(1-3) order_refl]) (rule running_kept [OF _ assms(2,3)], simp_all add: assms(4,5))

lemma resolved_new_tag:
  assumes "resolved i0 m b s" "touches a s s'" "b \<noteq> a" "ittIndex (ss_router s) = (i0 + m) mod tagCount" "m < tagCount"
    "AllocateITT (ss_router s) = (itt, r)" "RegisterPersistent itt r = (ch, r')" "ss_router s' = r'"
    "\<forall>i. i \<noteq> itt \<longrightarrow> map_of (ss_tasks s') i = map_of (ss_tasks s) i"
  shows "resolved i0 (Suc m) b s'"
proof (rule resolved_kept [OF assms(1-3) le_SucI [OF order_refl]])
  fix j
  assume j: "j < m" "unat (tk_itt (ss_objs s ! b)) = (i0 + j) mod tagCount" "running b s"
  have i: "unat itt = (i0 + m) mod tagCount" using AllocateITT_index [of "ss_router s"] assms(4,6) by simp
  have n: "tk_itt (ss_objs s ! b) \<noteq> itt"
  proof
    assume "tk_itt (ss_objs s ! b) = itt"
    then have "(i0 + j) mod tagCount = (i0 + m) mod tagCount" using j(2) i by (simp only:)
    then show False using mod_window_le [of j m tagCount i0] j(1) assms(5) by linarith
  qed
  have p: "map_of (pending r') k = map_of (pending (ss_router s)) k" if "k \<noteq> itt" for k
    using routes.new_route [OF assms(6,7)] that by simp
  show "running b s'"
    using assms(8,9) n p [OF n] by (intro running_kept [OF j(3) assms(2,3)]) simp_all
qed

lemma ittIndex_register: "AllocateITT r0 = (itt, r) \<Longrightarrow> RegisterPersistent itt r = (ch, r') \<Longrightarrow> ittIndex r' = Suc (ittIndex r0) mod tagCount"
  using AllocateITT_index [of r0] by (auto simp: RegisterPersistent_def makeChan_def Let_def ittIndex_def)

lemma retryTask_resolved:
  assumes "retryTask env ctxEnds a s = Done s'" "quietEnv env" "a < length (ss_objs s)" "\<forall>b<length (ss_objs s). one_result (ss_objs s ! b)"
    "ittIndex (ss_router s) = (i0 + m) mod tagCount" "m < tagCount" "\<forall>b\<in>B. resolved i0 m b s" "a \<notin> B"
  shows "\<exists>m' \<le> Suc m. ittIndex (ss_router s') = (i0 + m') mod tagCount \<and> (\<forall>b\<in>insert a B. resolved i0 m' b s') \<and>
    length (ss_objs s') = length (ss_objs s) \<and> (\<forall>b<length (ss_objs s'). one_result (ss_objs s' ! b))"
proof -
  note e = retryTask_effect [OF assms(1-3) assms(4) [rule_format, OF assms(3)]]
  have t: "touches a s s'" using e ..
  have o: "length (ss_objs s') = length (ss_objs s)" "\<forall>b<length (ss_objs s'). one_result (ss_objs s' ! b)"
    using t assms(3,4) by (auto simp: touches_def)
  from e [THEN conjunct2] show ?thesis
  proof
    assume a: "answered (ss_objs s' ! a) \<and> ss_tasks s' = ss_tasks s \<and> ss_router s' = ss_router s \<and> ss_loops s' = ss_loops s"
    then have "\<forall>b\<in>B. resolved i0 m b s'" using resolved_other [OF _ t] assms(7,8) by blast
    then show ?thesis using a o assms(5) by (intro exI [of _ m]) (auto simp: resolved_def)
  next
    assume "\<exists>itt r ch r'. AllocateITT (ss_router s) = (itt, r) \<and> RegisterPersistent itt r = (ch, r') \<and>
      resubmitted a itt ch (s\<lparr>ss_router := r'\<rparr>) s'"
    then obtain itt r ch r' where al: "AllocateITT (ss_router s) = (itt, r)" "RegisterPersistent itt r = (ch, r')"
      and q: "resubmitted a itt ch (s\<lparr>ss_router := r'\<rparr>) s'" by blast
    have n: "AllocateITT (ss_router s) = (itt, r)" "RegisterPersistent itt r = (ch, r')" "ss_router s' = r'"
      "\<forall>i. i \<noteq> itt \<longrightarrow> map_of (ss_tasks s') i = map_of (ss_tasks s) i"
      "answered (ss_objs s' ! a) \<or> tk_itt (ss_objs s' ! a) = itt \<and> running a s'"
      using resubmitted_running [OF q] routes.new_route [OF al] al q by (simp_all add: resubmitted_def)
    have "ittIndex (ss_router s') = (i0 + Suc m) mod tagCount"
      using ittIndex_register [OF n(1,2)] assms(5) n(3) by (simp add: mod_simps)
    moreover have "resolved i0 (Suc m) a s'"
      using n(5) AllocateITT_index [of "ss_router s"] n(1) assms(5) by (auto simp: resolved_def)
    moreover have "\<forall>b\<in>B. resolved i0 (Suc m) b s'"
      using resolved_new_tag [OF _ t _ assms(5,6) n(1-4)] assms(7,8) by blast
    ultimately show ?thesis using o by (intro exI [of _ "Suc m"]) simp
  qed
qed

lemma retryTasks_resolved:
  assumes "retryTasks waits as s = Done s'" "\<forall>w\<in>set waits. quietEnv (fst w)" "distinct as" "set as \<subseteq> {..<length (ss_objs s)}"
    "\<forall>b<length (ss_objs s). one_result (ss_objs s ! b)" "ittIndex (ss_router s) = (i0 + m) mod tagCount" "m + length as < tagCount"
    "\<forall>b\<in>B. resolved i0 m b s" "set as \<inter> B = {}"
  shows "\<forall>b\<in>set as \<union> B. answered (ss_objs s' ! b) \<or> running b s'"
  using assms
proof (induction waits as s arbitrary: m B rule: retryTasks.induct)
  case (1 waits s)
  then show ?case by (auto simp: resolved_def)
next
  case (2 a as s)
  obtain u where u: "retryTask id False a s = Done u" "retryTasks [] as u = Done s'" using 2(2) by (auto simp: bindStep_Done)
  have "quietEnv id" by (simp add: quietEnv_def)
  with u(1) obtain m' where m: "m' \<le> Suc m" "ittIndex (ss_router u) = (i0 + m') mod tagCount" "\<forall>b\<in>insert a B. resolved i0 m' b u"
    "length (ss_objs u) = length (ss_objs s)" "\<forall>b<length (ss_objs u). one_result (ss_objs u ! b)"
    using retryTask_resolved [of id False a s u i0 m B] 2(5-10) by auto
  have "\<forall>b\<in>set as \<union> insert a B. answered (ss_objs s' ! b) \<or> running b s'"
    by (rule 2(1) [OF u(2), of m']) (use m 2(3-10) in auto)
  then show ?case by simp
next
  case (3 env c waits a as s)
  obtain u where u: "retryTask env c a s = Done u" "retryTasks waits as u = Done s'" using 3(2) by (auto simp: bindStep_Done)
  have "quietEnv env" using 3(3) by simp
  with u(1) obtain m' where m: "m' \<le> Suc m" "ittIndex (ss_router u) = (i0 + m') mod tagCount" "\<forall>b\<in>insert a B. resolved i0 m' b u"
    "length (ss_objs u) = length (ss_objs s)" "\<forall>b<length (ss_objs u). one_result (ss_objs u ! b)"
    using retryTask_resolved [of env c a s u i0 m B] 3(5-10) by auto
  have "\<forall>b\<in>set as \<union> insert a B. answered (ss_objs s' ! b) \<or> running b s'"
    by (rule 3(1) [OF u(2), of m']) (use m 3(3-10) in auto)
  then show ?case by simp
qed

section \<open>Reinstatement as a whole\<close>

lemma closeTags_succeeds: "router_inv r [] \<Longrightarrow> \<exists>r'. closeTags itts r = Some r' \<and> router_inv r' []"
proof (induction itts arbitrary: r)
  case (Cons itt itts)
  have "UnregisterAndClose itt r \<noteq> None"
    using router_invD(2) [OF Cons.prems, of itt]
    by (auto simp: UnregisterAndClose_def Let_def chan_close_def entry_ok_def split: option.splits)
  then obtain r1 where r1: "UnregisterAndClose itt r = Some r1" by auto
  have "router_inv r1 []"
    using router_step_inv [OF st_close [of "\<lparr>rs_router = r, rs_inflight = []\<rparr>" itt r1]] r1 Cons.prems by simp
  then show ?case using Cons.IH r1 by simp
qed simp

lemma distinct_addresses: "session_inv s \<Longrightarrow> distinct (map snd (ss_tasks s))"
proof -
  assume i: "session_inv s"
  have "inj_on snd (set (ss_tasks s))" by (rule inj_onI) (metis session_invD(4) [OF i] prod.collapse)
  then show ?thesis using session_invD(1) [OF i] by (simp add: distinct_map)
qed

lemma fold_failTask:
  assumes "\<forall>b<length (ss_objs s). one_result (ss_objs s ! b)" "snd ` set ps \<subseteq> {..<length (ss_objs s)}" "\<forall>b\<in>B. answered (ss_objs s ! b)"
  shows "let s' = fold (\<lambda>(_, a). failTask e a) ps s in (\<forall>b\<in>B \<union> snd ` set ps. answered (ss_objs s' ! b)) \<and> ss_tasks s' = ss_tasks s \<and>
    ss_recovering s' = ss_recovering s \<and> ss_err s' = ss_err s"
  using assms
proof (induction ps arbitrary: s B)
  case (Cons p ps)
  obtain i a where p: "p = (i, a)" by force
  let ?u = "failTask e a s"
  have a: "a < length (ss_objs s)" "one_result (ss_objs s ! a)" using Cons.prems p by auto
  note f = failTask_effect [OF a, of e]
  have "\<forall>b<length (ss_objs ?u). one_result (ss_objs ?u ! b)" "length (ss_objs ?u) = length (ss_objs s)"
    using f Cons.prems(1) a by (auto simp: touches_def)
  moreover have "\<forall>b\<in>insert a B. answered (ss_objs ?u ! b)" using f Cons.prems(3) by (auto simp: touches_def)
  moreover have "ss_recovering ?u = ss_recovering s" "ss_err ?u = ss_err s" by (simp_all add: failTask_def setTask_def)
  ultimately show ?case using Cons.IH [of ?u "insert a B"] Cons.prems(2) f p by (auto simp: Let_def)
qed simp

lemma session_one_result: "session_inv s \<Longrightarrow> b < length (ss_objs s) \<Longrightarrow> one_result (ss_objs s ! b)"
  using session_invD(10) [of s "ss_objs s ! b"] by (simp add: one_result_def)

lemma failAll:
  assumes "session_inv s" "ss_objs v = ss_objs s" "s' = fold (\<lambda>(_, a). failTask e a) (ss_tasks s) v"
  shows "list_all (\<lambda>(itt, a). answered (ss_objs s' ! a)) (ss_tasks s)" "ss_tasks s' = ss_tasks v"
    "ss_recovering s' = ss_recovering v" "ss_err s' = ss_err v"
proof -
  have "\<forall>b<length (ss_objs v). one_result (ss_objs v ! b)" "snd ` set (ss_tasks s) \<subseteq> {..<length (ss_objs v)}"
    using session_one_result [OF assms(1)] session_invD(3) [OF assms(1)] assms(2) by auto
  from fold_failTask [OF this, of "{}" e]
  have f: "\<forall>b\<in>{} \<union> snd ` set (ss_tasks s). answered (ss_objs s' ! b)" "ss_tasks s' = ss_tasks v"
    "ss_recovering s' = ss_recovering v" "ss_err s' = ss_err v" unfolding Let_def assms(3) by blast+
  then show "list_all (\<lambda>(itt, a). answered (ss_objs s' ! a)) (ss_tasks s)" "ss_tasks s' = ss_tasks v"
    "ss_recovering s' = ss_recovering v" "ss_err s' = ss_err v" by (force simp: list_all_iff)+
qed

text \<open>No task is forgotten.\<close>

lemma reconnect_resolves:
  assumes "session_inv s" "reconnect opts False attempts accepts order waits s = Done s'" "\<not> ss_closed s"
    "\<forall>x\<in>set attempts. \<not> at_closed x" "\<forall>w\<in>set waits. quietEnv (fst w)" "length (ss_tasks s) < 2 ^ 32 - 1"
    "mset (order (ss_tasks s)) = mset (ss_tasks s)"
  shows "\<not> ss_recovering s' \<and> list_all (\<lambda>(itt, a). answered (ss_objs s' ! a) \<or> running a s') (ss_tasks s)"
proof -
  define u where "u = s\<lparr>ss_cancelled := True, ss_tasks := []\<rparr>"
  note i = assms(1)
  let ?loop = "reconnectLoop opts (ss_isid s) (ss_tsih s) None (take (nat (sg_maxReconnectAttempts (ss_cfg s))) attempts)"
  obtain v where v: "closeRouterTags (ss_tasks s) u = Done v"
    using assms(2,3) by (cases "closeRouterTags (ss_tasks s) u") (auto simp: reconnect_def Let_def u_def)
  then have vs: "ss_objs v = ss_objs s" "ss_isid v = ss_isid s" "ss_tsih v = ss_tsih s" "ss_cfg v = ss_cfg s"
    by (auto simp: closeRouterTags_def u_def split: option.splits)
  have run: "reconnect opts False attempts accepts order waits s = (case ?loop of
      SessionClosedMeanwhile \<Rightarrow> Done (recovered v)
    | AttemptsExhausted _ \<Rightarrow> Done (fold (\<lambda>(_, a). failTask (ErrOther ''reconnect failed'') a) (ss_tasks s)
        (recovered (v\<lparr>ss_err := Some (ErrOther ''reconnect failed'')\<rparr>)))
    | Connected params conn \<Rightarrow> bindStep (retryTasks waits (map snd (order (ss_tasks s)))
        (fireStateChange SessionFullFeature (installConnection params conn accepts v))) (\<lambda>s. Done (recovered s)))"
    using v vs assms(3) unfolding u_def by (simp add: reconnect_def Let_def split: ReconnectEnd.split)
  have range: "snd ` set (ss_tasks s) \<subseteq> {..<length (ss_objs s)}" using session_invD(3) [OF i] by auto
  show ?thesis
  proof (cases ?loop)
    case SessionClosedMeanwhile
    have "reconnectLoop opts isid tsih e xs \<noteq> SessionClosedMeanwhile" if "\<forall>x\<in>set xs. \<not> at_closed x" for isid tsih e xs
      using that by (induction xs arbitrary: e) (auto split: sum.split)
    then show ?thesis using SessionClosedMeanwhile assms(4) by (meson in_set_takeD)
  next
    case (AttemptsExhausted x)
    let ?v = "recovered (v\<lparr>ss_err := Some (ErrOther ''reconnect failed'')\<rparr>)"
    have s': "s' = fold (\<lambda>(_, a). failTask (ErrOther ''reconnect failed'') a) (ss_tasks s) ?v" using assms(2) run AttemptsExhausted by simp
    have "ss_objs ?v = ss_objs s" "\<not> ss_recovering ?v" by (simp_all add: recovered_def vs)
    then show ?thesis using failAll [OF i _ s'] by (auto simp: list_all_iff)
  next
    case (Connected params conn)
    let ?v = "fireStateChange SessionFullFeature (installConnection params conn accepts v)"
    obtain t where t: "retryTasks waits (map snd (order (ss_tasks s))) ?v = Done t" "s' = recovered t"
      using assms(2) run Connected by (auto simp: bindStep_Done)
    have o: "ss_objs ?v = ss_objs s" by (simp add: fireStateChange_def installConnection_def vs)
    have m: "set (order (ss_tasks s)) = set (ss_tasks s)" "length (order (ss_tasks s)) = length (ss_tasks s)"
      "distinct (map snd (order (ss_tasks s)))"
      using assms(7) distinct_addresses [OF i] mset_eq_setD mset_eq_length mset_eq_imp_distinct_iff [of "map snd (order (ss_tasks s))" "map snd (ss_tasks s)"]
      by (simp_all, blast+)
    have "\<forall>b\<in>set (map snd (order (ss_tasks s))) \<union> {}. answered (ss_objs t ! b) \<or> running b t"
      by (rule retryTasks_resolved [OF t(1) assms(5) m(3), where ?i0.0 = "ittIndex (ss_router ?v)" and m = 0])
        (use o range session_one_result [OF i] assms(6) m in \<open>auto simp: ittIndex_def\<close>)
    then show ?thesis using t(2) m(1) by (auto simp: list_all_iff recovered_def running_def)
  qed
qed

lemma reconnect_failure_answers:
  assumes "session_inv s" "\<not> ss_closed s"
    "\<forall>x\<in>set attempts. \<not> at_closed x \<and> (\<exists>e. attemptLogin opts (ss_isid s) (ss_tsih s) x = Inl e)" "router_ok (ss_router s)"
  shows "\<exists>s'. reconnect opts False attempts accepts order waits s = Done s' \<and> ss_tasks s' = [] \<and> ss_err s' \<noteq> None \<and>
    \<not> ss_recovering s' \<and> list_all (\<lambda>(itt, a). answered (ss_objs s' ! a)) (ss_tasks s)"
proof -
  note i = assms(1)
  obtain r where r: "closeTags (map fst (ss_tasks s)) (ss_router s) = Some r" using closeTags_succeeds [OF assms(4)] by blast
  let ?v = "recovered (s\<lparr>ss_cancelled := True, ss_tasks := [], ss_router := r, ss_err := Some (ErrOther ''reconnect failed'')\<rparr>)"
  let ?s' = "fold (\<lambda>(_, a). failTask (ErrOther ''reconnect failed'') a) (ss_tasks s) ?v"
  have "\<exists>e'. reconnectLoop opts isid tsih e xs = AttemptsExhausted e'"
    if "\<forall>x\<in>set xs. \<not> at_closed x \<and> (\<exists>e. attemptLogin opts isid tsih x = Inl e)" for isid tsih e xs
    using that by (induction xs arbitrary: e) (auto split: sum.split)
  then obtain e where "reconnectLoop opts (ss_isid s) (ss_tsih s) None (take (nat (sg_maxReconnectAttempts (ss_cfg s))) attempts)
      = AttemptsExhausted e"
    using assms(3) by (meson in_set_takeD)
  then have "reconnect opts False attempts accepts order waits s = Done ?s'"
    using r assms(2) by (simp add: reconnect_def closeRouterTags_def Let_def)
  moreover have "ss_objs ?v = ss_objs s" "ss_tasks ?v = []" "\<not> ss_recovering ?v" "ss_err ?v \<noteq> None" by (simp_all add: recovered_def)
  ultimately show ?thesis using failAll [OF i _ refl, of ?v "ErrOther ''reconnect failed''"] by (intro exI [of _ ?s']) simp
qed

section \<open>What goes wrong\<close>

text \<open>
  Closing the session while it reconnects loses the tasks: they have left the task map, the reconnect
  gives up without failing them, and the teardown of \<open>Close\<close> does not find them.
\<close>

lemma close_during_reconnect_loses_tasks:
  assumes "session_reachable S" "\<not> ss_closed (sy_s S)" "at_closed x" "sg_maxReconnectAttempts (ss_cfg (sy_s S)) > 0"
  shows "\<exists>s'. reconnect opts False (x # xs) accepts order waits (sy_s S) = Done s' \<and> ss_tasks s' = [] \<and>
    ss_objs (teardown s') = ss_objs (sy_s S)"
proof -
  let ?s = "sy_s S"
  obtain r where r: "closeTags (map fst (ss_tasks ?s)) (ss_router ?s) = Some r"
    using closeTags_succeeds [OF session_router_inv [OF assms(1)]] by blast
  have "take (nat (sg_maxReconnectAttempts (ss_cfg ?s))) (x # xs) = x # take (nat (sg_maxReconnectAttempts (ss_cfg ?s)) - 1) xs"
    using assms(4) by (cases "nat (sg_maxReconnectAttempts (ss_cfg ?s))") simp_all
  then show ?thesis
    using r assms(2,3) by (simp add: reconnect_def closeRouterTags_def recovered_def teardown_def fireStateChange_def Let_def)
qed

text \<open>
  A read that is submitted again keeps the CmdSN of the old connection, which a retry after a Reject then
  sends, and the out-of-order PDUs of its first attempt.
\<close>

lemma resubmit_keeps_old_attempt:
  assumes "resubmit a itt ch sn s = Done s'" "a < length (ss_objs s)" "\<not> tk_isWrite (ss_objs s ! a)" "tk_reader (ss_objs s ! a) = None"
  shows "tk_cmdSN (ss_objs s' ! a) = tk_cmdSN (ss_objs s ! a) \<and> pendingOf (ss_objs s' ! a) = pendingOf (ss_objs s ! a)"
proof -
  define t where "t = restartRead ((ss_objs s ! a)\<lparr>tk_itt := itt\<rparr>)"
  have t: "tk_cmdSN t = tk_cmdSN (ss_objs s ! a)" "tk_snack t = tk_snack (ss_objs s ! a)" "\<not> tk_isWrite t" "retryImmediate ps t = (Inr [], t)" for ps
    using assms(3,4) by (simp_all add: t_def restartRead_def retryImmediate_def Let_def)
  have c: "tk_cmdSN (cancel e u) = tk_cmdSN u" "tk_snack (cancel e u) = tk_snack u" for e u
    by (simp_all add: cancel_def closeReaderWithError_def Let_def split: SendResult.split)
  have "valid (resubmit a itt ch sn s) (\<lambda>s'. tk_cmdSN (ss_objs s' ! a) = tk_cmdSN t \<and> tk_snack (ss_objs s' ! a) = tk_snack t)"
    using assms(2) t(3) c
    by (auto simp: resubmit_def Let_def t_def [symmetric] t(4) failTask_def setTask_def sendPDU_def retryUnsolicited_def
        intro!: valid_any split: sum.split prod.split bool.split)
  then show ?thesis using assms(1) t(1,2) by (simp add: valid_def pendingOf_def)
qed

text \<open>A task whose reassignment fails is answered, but stays in the task map, so that a drain never ends.\<close>

lemma failed_reassign_leaks_task:
  assumes "reassignTask env TimedOut (itt, a) s = Done s'" "quietEnv env" "(itt, a) \<in> set (ss_tasks s)" "a < length (ss_objs s)"
  shows "(itt, a) \<in> set (ss_tasks s') \<and> tk_done (ss_objs s' ! a)"
proof -
  obtain new r0 where al: "AllocateITT (ss_router s) = (new, r0)" by force
  obtain ch r where rp: "RegisterPersistent new r0 = (ch, r)" by force
  have q: "ss_tasks (env u) = ss_tasks u" "ss_objs (env u) = ss_objs u" for u using assms(2) by (simp_all add: quietEnv_def)
  have same: "ss_tasks u = ss_tasks v \<and> ss_objs u = ss_objs v" if "sendPDU p v = (ok, u)" for p u v ok
    using that by (auto simp: sendPDU_def split: prod.splits)
  have tmf: "valid (sendTMF env TimedOut TMFTaskReassign itt lun u) (\<lambda>(res, v). (\<exists>e. res = Inl e) \<and> ss_tasks v = ss_tasks u \<and> ss_objs v = ss_objs u)" for lun u
    by (auto simp: sendTMF_def registerOne_def sendRequest_def awaitReply_def unregisterTag_def q Let_def
        split: prod.split option.split sum.split bool.split dest!: same)
  let ?run = "sendTMF env TimedOut TMFTaskReassign itt (tk_lun (ss_objs s ! a)) (s\<lparr>ss_router := r\<rparr>)"
  obtain x where x: "?run = Done x" using assms(1) by (cases ?run) (simp_all add: reassignTask_def al rp Let_def)
  from validD [OF tmf x] obtain e v where v: "?run = Done (Inl e, v)" "ss_tasks v = ss_tasks s" "ss_objs v = ss_objs s"
    using x by (cases x) auto
  then have "s' = failTask (ErrOther ''task reassign failed'') a (unregisterTag itt (unregisterTag new v))"
    using assms(1) by (simp add: reassignTask_def al rp Let_def)
  then show ?thesis
    using v(2,3) assms(3,4) keeps_cancel(2) by (simp add: failTask_def setTask_def unregisterTag_def)
qed

text \<open>
  The cap on the exponent keeps the delay from overflowing for a backoff of up to eight seconds; with ten
  seconds the 32nd attempt gets a negative delay and runs at once.
\<close>

lemma reconnect_delay:
  assumes "0 \<le> backoff" "backoff \<le> 8 * second"
  shows "reconnectDelay backoff n = (if n = 0 then 0 else backoff * 2 ^ min (n - 1) 30)"
proof (cases n)
  case (Suc k)
  have p: "(2::int) ^ min k 30 \<le> 2 ^ 30" by (rule power_increasing) simp_all
  have "backoff * 2 ^ min k 30 \<le> 8 * second * 2 ^ 30" using assms p by (intro mult_mono) simp_all
  moreover have "0 \<le> backoff * 2 ^ min k 30" using assms(1) by simp
  ultimately have "sint (of_int (backoff * 2 ^ min k 30) :: 64 word) = backoff * 2 ^ min k 30"
    by (subst signed_of_int, subst signed_take_bit_int_eq_self) simp_all
  moreover have "nat (max 0 (min (int (Suc k) - 1) 30)) = min k 30" by simp
  ultimately show ?thesis by (simp add: reconnectDelay_def Suc Let_def)
qed (simp add: reconnectDelay_def)

lemma backoff_overflows: "reconnectDelay (10 * second) 31 < 0"
  by (simp add: reconnectDelay_def Let_def)

text \<open>A keepalive that gets no answer cancels the session's context, so that the read pump's error starts no recovery.\<close>

lemma keepalive_failure_prevents_recovery:
  "keepaliveTick env reply s = (False, s') \<Longrightarrow> readPumpLoop ex s' = (s', []) \<and> ss_cancelled s'"
  by (auto simp: keepaliveTick_def readPumpLoop_def split: prod.splits option.splits if_splits)

section \<open>Properties\<close>


section \<open>Witnesses\<close>

text \<open>A read whose first Data-In PDU arrived before the connection was lost, and one that nothing arrived for.\<close>

definition brokenRead :: Session where
  "brokenRead = sampleSession\<lparr>ss_objs := [(makeTask 0 sampleRead 0 1 sampleSession)\<lparr>tk_buf := Some [9], tk_nextDataSN := 1, tk_nextOffset := 1\<rparr>]\<rparr>"

lemma interrupted_sample: "interruptedRead (makeTask 0 sampleRead itt 1 sampleSession)"
  by (simp add: interruptedRead_def makeTask_def newTask_def Let_def sampleRead_def Read10_def zeroCommand_def applyOptions_def pendingOf_def)

lemma broken_read:
  "interruptedRead (ss_objs brokenRead ! 0)" "tk_cmd (ss_objs brokenRead ! 0) = sampleRead"
  "acquireFast (ss_window brokenRead) = Granted 1 ((ss_window brokenRead)\<lparr>cw_cmdSN := 2\<rparr>)" "accepting (ss_write brokenRead)"
  using interrupted_sample [of 0] sample_session(2,5-7)
  by (simp_all add: brokenRead_def interruptedRead_def pendingOf_def sampleSession_def NewSession_def fireStateChange_def Let_def makeTask_def newTask_def)


text \<open>The options name the ISID again, so the login is the same for every session.\<close>

abbreviation sampleOpts :: "LoginOption list" where "sampleOpts \<equiv> [WithISID (replicate 6 0)]"

definition sampleAttempt :: Attempt where
  "sampleAttempt = \<lparr>at_closed = False, at_dial = Some (sampleEnv plainStream), at_redial = None\<rparr>"

lemma sample_attempt:
  "\<exists>conn. attemptLogin sampleOpts isid tsih sampleAttempt = Inr (Defaults\<lparr>np_TSIH := 9, np_TargetName := [], np_CmdSN := 1,
     np_ExpStatSN := 42, np_ISID := [0x40, 1, 2, 3, 4, 5]\<rparr>, conn)"
proof -
  have "\<exists>conn tx. Login (sampleEnv plainStream) (WithISID isid # WithTSIH tsih # sampleOpts) = (Inr (Defaults\<lparr>np_TSIH := 9, np_TargetName := [],
      np_CmdSN := 1, np_ExpStatSN := 42, np_ISID := [0x40, 1, 2, 3, 4, 5]\<rparr>, conn), tx)"
    using login_ok [of "WithISID isid # WithTSIH tsih # sampleOpts" "sampleEnv plainStream" "[0x40, 1, 2, 3, 4, 5]"
        "sampleResp 0 []" "sampleResp 0 []" "[]" "buildInitiatorKeys [''None''] [''None''] None" Defaults]
      sampleResp_ok [of "[]" 0] sample_sizes sample_params
    by (simp add: sampleEnv_def chooseISID_def defaultLoginConfig_def securityKeys_def WithISID_def WithTSIH_def)
  then show ?thesis by (auto simp: attemptLogin_def sampleAttempt_def)
qed

end
