(* ===== verification/Session_Lifecycle.thy ===== *)
theory Session_Lifecycle
  imports Recovery
begin

text \<open>
  A session over its whole life: any interleaving of the steps of theory Session_Steps, with any number
  of reinstatements between them. The invariants of one connection hold across all of them.
\<close>

section \<open>Restarted tasks\<close>

lemma inv_same:
  assumes "session_inv s" "ss_objs s' = ss_objs s" "ss_tasks s' = ss_tasks s" "ss_loops s' = ss_loops s"
    "pending (ss_router s') = pending (ss_router s)"
  shows "session_inv s'"
  using assms(1) by (rule inv_quiet) (simp add: quiet_def assms(2-5) list_all2_refl keeps_refl)

text \<open>A task that is neither tracked nor served may change, as long as the routes of the loops stay.\<close>

lemma inv_untracked:
  assumes "session_inv s" "a \<notin> fst ` set (ss_loops s)" "a \<notin> snd ` set (ss_tasks s)"
    "length (ss_objs s') = length (ss_objs s)" "\<forall>b. b \<noteq> a \<longrightarrow> ss_objs s' ! b = ss_objs s ! b" "one_result (ss_objs s' ! a)"
    "ss_tasks s' = ss_tasks s" "ss_loops s' = ss_loops s"
    "\<And>b c. (b, c) \<in> set (ss_loops s) \<Longrightarrow>
      map_of (pending (ss_router s')) (tk_itt (ss_objs s ! b)) = map_of (pending (ss_router s)) (tk_itt (ss_objs s ! b))"
  shows "session_inv s'"
proof -
  note d = session_invD [OF assms(1)]
  have o: "ss_objs s' ! b = ss_objs s ! b" if "(b, c) \<in> set (ss_loops s) \<or> (i, b) \<in> set (ss_tasks s)" for b c i
    using that assms(2,3,5) by force
  show ?thesis
  proof (rule session_invI, unfold assms(4,7,8))
    show "b < length (ss_objs s) \<and> tk_itt (ss_objs s' ! b) = i \<and> (\<not> tk_done (ss_objs s' ! b) \<longrightarrow> b \<in> fst ` set (ss_loops s))"
      if "(i, b) \<in> set (ss_tasks s)" for i b
      using d(3-5) [OF that] o [of b undefined i] that by simp
    show "b < length (ss_objs s) \<and> (\<not> tk_done (ss_objs s' ! b) \<longrightarrow> (tk_itt (ss_objs s' ! b), b) \<in> set (ss_tasks s) \<and>
        map_of (pending (ss_router s')) (tk_itt (ss_objs s' ! b)) = Some \<lparr>ent_ch = c, ent_persistent = True\<rparr>)"
      if "(b, c) \<in> set (ss_loops s)" for b c
      using d(6-8) [OF that] o [of b c undefined] that assms(9) [OF that] by simp
    show "b = b'" if "(b, c) \<in> set (ss_loops s)" "(b', c') \<in> set (ss_loops s)" "tk_itt (ss_objs s' ! b) = tk_itt (ss_objs s' ! b')" for b c b' c'
      using d(9) [OF that(1,2)] that(3) o [of b c undefined] o [of b' c' undefined] that(1,2) by simp
    show "ch_cap (tk_resultCh t) = 1 \<and> \<not> ch_closed (tk_resultCh t)" if "t \<in> set (ss_objs s')" for t
    proof -
      obtain b where b: "b < length (ss_objs s')" "t = ss_objs s' ! b" using \<open>t \<in> set (ss_objs s')\<close> by (auto simp: in_set_conv_nth)
      show ?thesis
        using b assms(4,5,6) d(10) [of "ss_objs s ! b"] by (cases "b = a") (simp_all add: one_result_def)
    qed
  qed (use d(1,2) in simp_all)
qed

text \<open>The task enters the task map, answered or with a loop of its own.\<close>

lemma inv_tracked:
  assumes "session_inv s" "a < length (ss_objs s)" "a \<notin> fst ` set (ss_loops s)" "a \<notin> snd ` set (ss_tasks s)"
    "tag_free itt s" "tk_itt (ss_objs s ! a) = itt"
    "ls = [] \<and> tk_done (ss_objs s ! a) \<or>
     ls = [(a, ch)] \<and> map_of (pending (ss_router s)) itt = Some \<lparr>ent_ch = ch, ent_persistent = True\<rparr>"
  shows "session_inv (s\<lparr>ss_tasks := AList.update itt a (ss_tasks s), ss_loops := ls @ ss_loops s\<rparr>)" (is "session_inv ?s")
proof -
  note d = session_invD [OF assms(1)]
  have nt: "itt \<notin> fst ` set (ss_tasks s)" and nl: "(b, c) \<in> set (ss_loops s) \<Longrightarrow> tk_itt (ss_objs s ! b) \<noteq> itt" for b c
    using assms(5) by (auto simp: tag_free_def)
  have up: "set (AList.update itt a (ss_tasks s)) = insert (itt, a) (set (ss_tasks s))" by (rule set_update_fresh [OF nt])
  have dt: "distinct (map fst (AList.update itt a (ss_tasks s)))" using d(1) by (rule distinct_update)
  show ?thesis
  proof (rule session_invI)
    show "b < length (ss_objs ?s) \<and> tk_itt (ss_objs ?s ! b) = i \<and> (\<not> tk_done (ss_objs ?s ! b) \<longrightarrow> b \<in> fst ` set (ss_loops ?s))"
      if "(i, b) \<in> set (ss_tasks ?s)" for i b
      using that d(3,4,5) [of i b] assms(2,6,7) by (auto simp: up)
    show "b < length (ss_objs ?s) \<and> (\<not> tk_done (ss_objs ?s ! b) \<longrightarrow> (tk_itt (ss_objs ?s ! b), b) \<in> set (ss_tasks ?s) \<and>
        map_of (pending (ss_router ?s)) (tk_itt (ss_objs ?s ! b)) = Some \<lparr>ent_ch = c, ent_persistent = True\<rparr>)"
      if "(b, c) \<in> set (ss_loops ?s)" for b c
      using that d(6,7,8) [of b c] assms(2,6,7) by (auto simp: up)
    show "b = b'" if "(b, c) \<in> set (ss_loops ?s)" "(b', c') \<in> set (ss_loops ?s)" "tk_itt (ss_objs ?s ! b) = tk_itt (ss_objs ?s ! b')" for b c b' c'
    proof -
      have c: "(b, c) \<in> set (ss_loops s) \<or> b = a" "(b', c') \<in> set (ss_loops s) \<or> b' = a" using that(1,2) assms(7) by auto
      have e: "tk_itt (ss_objs s ! b) = tk_itt (ss_objs s ! b')" using that(3) by simp
      show ?thesis using c d(9) [OF _ _ e] nl [of b c] nl [of b' c'] e assms(6) by metis
    qed
    show "distinct (map fst (ss_loops ?s))" using d(2) assms(3,7) by (auto simp: image_iff)
    show "ch_cap (tk_resultCh t) = 1 \<and> \<not> ch_closed (tk_resultCh t)" if "t \<in> set (ss_objs ?s)" for t
      using that d(10) [of t] by simp
  qed (use dt in simp)
qed

section \<open>One round of the retry loop\<close>

definition used :: "nat \<Rightarrow> nat \<Rightarrow> u32 \<Rightarrow> bool" where
  "used i0 m itt \<longleftrightarrow> (\<exists>j<m. unat itt = (i0 + j) mod tagCount)"

lemma used_more: "used i0 m itt \<Longrightarrow> used i0 (Suc m) itt"
  unfolding used_def using less_SucI by blast

lemma next_unused:
  assumes "AllocateITT r = (itt, r')" "ittIndex r = (i0 + m) mod tagCount" "m < tagCount"
  shows "\<not> used i0 m itt" "used i0 (Suc m) itt"
proof -
  have i: "unat itt = (i0 + m) mod tagCount" using AllocateITT_index [of r] assms(1,2) by simp
  show "\<not> used i0 m itt"
  proof
    assume "used i0 m itt"
    then obtain j where "j < m" "(i0 + j) mod tagCount = (i0 + m) mod tagCount" using i by (auto simp: used_def)
    then show False using mod_window_le [of j m tagCount i0] assms(3) by linarith
  qed
  show "used i0 (Suc m) itt" using i unfolding used_def by blast
qed

text \<open>Between two rounds: \<open>old\<close> are the loops of the old connection, and the tasks in \<open>B\<close> have had their turn.\<close>

definition reinstating :: "(nat \<times> nat) list \<Rightarrow> nat \<Rightarrow> nat \<Rightarrow> nat set \<Rightarrow> Session \<Rightarrow> bool" where
  "reinstating old i0 m B s \<longleftrightarrow> ittIndex (ss_router s) = (i0 + m) mod tagCount \<and>
     (\<exists>new. ss_loops s = new @ old \<and> session_inv (s\<lparr>ss_loops := new\<rparr>) \<and> fst ` set new \<subseteq> B \<and> snd ` set (ss_tasks s) \<subseteq> B \<and>
       (\<forall>itt\<in>fst ` set (ss_tasks s). used i0 m itt) \<and> (\<forall>(b, c)\<in>set new. used i0 m (tk_itt (ss_objs s ! b))))"

lemma retryTask_reinstating:
  assumes "retryTask env ctxEnds a s = Done s'" "quietEnv env" "a < length (ss_objs s)" "reinstating old i0 m B s" "m < tagCount" "a \<notin> B"
  shows "\<exists>m' \<le> Suc m. reinstating old i0 m' (insert a B) s' \<and> length (ss_objs s') = length (ss_objs s)"
proof -
  obtain new where "ss_loops s = new @ old \<and> session_inv (s\<lparr>ss_loops := new\<rparr>) \<and> fst ` set new \<subseteq> B \<and> snd ` set (ss_tasks s) \<subseteq> B \<and>
      (\<forall>itt\<in>fst ` set (ss_tasks s). used i0 m itt) \<and> (\<forall>(b, c)\<in>set new. used i0 m (tk_itt (ss_objs s ! b)))"
    by (rule exE [OF assms(4) [unfolded reinstating_def, THEN conjunct2]])
  moreover have "ittIndex (ss_router s) = (i0 + m) mod tagCount" by (rule assms(4) [unfolded reinstating_def, THEN conjunct1])
  ultimately have n: "ittIndex (ss_router s) = (i0 + m) mod tagCount" "ss_loops s = new @ old" "session_inv (s\<lparr>ss_loops := new\<rparr>)"
    "fst ` set new \<subseteq> B" "snd ` set (ss_tasks s) \<subseteq> B" "\<forall>itt\<in>fst ` set (ss_tasks s). used i0 m itt"
    "\<forall>(b, c)\<in>set new. used i0 m (tk_itt (ss_objs s ! b))"
    by blast+
  have one: "one_result (ss_objs s ! a)" using session_invD(10) [OF n(3)] assms(3) by (simp add: one_result_def)
  note e = retryTask_effect [OF assms(1-3) one]
  have t: "length (ss_objs s') = length (ss_objs s)" "\<forall>b. b \<noteq> a \<longrightarrow> ss_objs s' ! b = ss_objs s ! b" "one_result (ss_objs s' ! a)"
    using e one by (simp_all add: touches_def)
  have away: "a \<notin> fst ` set new" "a \<notin> snd ` set (ss_tasks s)" using n(4,5) assms(6) by auto
  have tags: "\<forall>(b, c)\<in>set new. used i0 m (tk_itt (ss_objs s' ! b))"
    using n(7) t(2) away(1) by (auto simp: image_iff) (metis fst_conv prod.case)
  from e [THEN conjunct2] show ?thesis
  proof
    assume s': "answered (ss_objs s' ! a) \<and> ss_tasks s' = ss_tasks s \<and> ss_router s' = ss_router s \<and> ss_loops s' = ss_loops s"
    have "session_inv (s'\<lparr>ss_loops := new\<rparr>)"
      by (rule inv_untracked [OF n(3), of a]) (use away t s' in auto)
    then have "reinstating old i0 m (insert a B) s'"
      using n(1-6) tags s' unfolding reinstating_def by (intro conjI exI [of _ new]) auto
    then show ?thesis using t(1) by (intro exI [of _ m]) simp
  next
    assume "\<exists>itt r ch r'. AllocateITT (ss_router s) = (itt, r) \<and> RegisterPersistent itt r = (ch, r') \<and>
      resubmitted a itt ch (s\<lparr>ss_router := r'\<rparr>) s'"
    then obtain itt r ch r' where al: "AllocateITT (ss_router s) = (itt, r)" "RegisterPersistent itt r = (ch, r')"
      and q: "resubmitted a itt ch (s\<lparr>ss_router := r'\<rparr>) s'" by blast
    note f = next_unused [OF al(1) n(1) assms(5)]
    have rt: "map_of (pending r') = (map_of (pending (ss_router s)))(itt \<mapsto> \<lparr>ent_ch = ch, ent_persistent = True\<rparr>)"
      by (rule routes.new_route [OF al])
    have r: "ss_router s' = r'" "tk_itt (ss_objs s' ! a) = itt" using q by (simp_all add: resubmitted_def)
    have ix: "ittIndex r' = (i0 + Suc m) mod tagCount" using ittIndex_register [OF al] n(1) by (simp add: mod_simps)
    let ?u = "s'\<lparr>ss_tasks := ss_tasks s, ss_loops := new\<rparr>"
    have u: "session_inv ?u"
    proof (rule inv_untracked [OF n(3), of a])
      show "map_of (pending (ss_router ?u)) (tk_itt (ss_objs (s\<lparr>ss_loops := new\<rparr>) ! b)) =
          map_of (pending (ss_router (s\<lparr>ss_loops := new\<rparr>))) (tk_itt (ss_objs (s\<lparr>ss_loops := new\<rparr>) ! b))"
        if "(b, c) \<in> set (ss_loops (s\<lparr>ss_loops := new\<rparr>))" for b c
        using that n(7) f(1) by (auto simp: r(1) rt)
    qed (use away t in simp_all)
    have free: "tag_free itt ?u" using n(4,6,7) f(1) t(2) assms(6) unfolding tag_free_def by fastforce
    have more: "\<forall>i\<in>fst ` set (ss_tasks s). used i0 (Suc m) i" "\<forall>(b, c)\<in>set new. used i0 (Suc m) (tk_itt (ss_objs s' ! b))"
      using n(6) tags used_more by fast+
    have up: "set (AList.update itt a (ss_tasks s)) = insert (itt, a) (set (ss_tasks s))"
      using n(6) f(1) by (intro set_update_fresh) auto
    consider (failed) "answered (ss_objs s' ! a)" "ss_loops s' = ss_loops s" "ss_tasks s' = ss_tasks s"
      | (dropped) "answered (ss_objs s' ! a)" "ss_loops s' = ss_loops s" "ss_tasks s' = AList.update itt a (ss_tasks s)"
      | (sent) "ss_loops s' = (a, ch) # ss_loops s" "ss_tasks s' = AList.update itt a (ss_tasks s)"
      using q by (auto simp: resubmitted_def)
    then have "reinstating old i0 (Suc m) (insert a B) s'"
    proof cases
      case failed
      then have "session_inv (s'\<lparr>ss_loops := new\<rparr>)" using inv_same [OF u] by simp
      with failed show ?thesis using u n(2,4,5) more ix r(1) unfolding reinstating_def by (intro conjI exI [of _ new]) auto
    next
      case dropped
      have "session_inv (?u\<lparr>ss_tasks := AList.update itt a (ss_tasks ?u), ss_loops := [] @ ss_loops ?u\<rparr>)"
        by (rule inv_tracked [OF u _ _ _ free]) (use away t assms(3) r dropped in \<open>simp_all add: answered_def\<close>)
      from inv_same [OF this, of "s'\<lparr>ss_loops := new\<rparr>"] dropped have "session_inv (s'\<lparr>ss_loops := new\<rparr>)" by simp
      then show ?thesis
        using dropped n(2,4,5) more ix r(1) f(2) up unfolding reinstating_def by (intro conjI exI [of _ new]) auto
    next
      case sent
      have "session_inv (?u\<lparr>ss_tasks := AList.update itt a (ss_tasks ?u), ss_loops := [(a, ch)] @ ss_loops ?u\<rparr>)"
        by (rule inv_tracked [OF u _ _ _ free]) (use away t assms(3) r rt in simp_all)
      from inv_same [OF this, of "s'\<lparr>ss_loops := (a, ch) # new\<rparr>"] sent have "session_inv (s'\<lparr>ss_loops := (a, ch) # new\<rparr>)" by simp
      then show ?thesis
        using sent n(2,4,5) more ix r f(2) up unfolding reinstating_def by (intro conjI exI [of _ "(a, ch) # new"]) auto
    qed
    then show ?thesis using t(1) by (intro exI [of _ "Suc m"]) simp
  qed
qed

lemma retryTasks_reinstating:
  assumes "retryTasks waits as s = Done s'" "\<forall>w\<in>set waits. quietEnv (fst w)" "distinct as" "set as \<subseteq> {..<length (ss_objs s)}"
    "reinstating old i0 m B s" "m + length as < tagCount" "set as \<inter> B = {}"
  shows "\<exists>m' B'. reinstating old i0 m' B' s'"
  using assms
proof (induction waits as s arbitrary: m B rule: retryTasks.induct)
  case (1 waits s)
  then show ?case by auto
next
  case (2 a as s)
  obtain u where u: "retryTask id False a s = Done u" "retryTasks [] as u = Done s'" using 2(2) by (auto simp: bindStep_Done)
  have "quietEnv id" by (simp add: quietEnv_def)
  with u(1) obtain m' where m: "m' \<le> Suc m" "reinstating old i0 m' (insert a B) u" "length (ss_objs u) = length (ss_objs s)"
    using retryTask_reinstating [of id False a s u old i0 m B] 2(5-8) by auto
  show ?case by (rule 2(1) [OF u(2) _ _ _ m(2)]) (use m 2(3-8) in auto)
next
  case (3 env c waits a as s)
  obtain u where u: "retryTask env c a s = Done u" "retryTasks waits as u = Done s'" using 3(2) by (auto simp: bindStep_Done)
  have "quietEnv env" using 3(3) by simp
  with u(1) obtain m' where m: "m' \<le> Suc m" "reinstating old i0 m' (insert a B) u" "length (ss_objs u) = length (ss_objs s)"
    using retryTask_reinstating [of env c a s u old i0 m B] 3(5-8) by auto
  show ?case by (rule 3(1) [OF u(2) _ _ _ m(2)]) (use m 3(3-8) in auto)
qed

section \<open>Reinstatement keeps the invariants\<close>

text \<open>The loops that were started since; those of the old connection find their channels closed and end.\<close>

definition startedSince :: "Session \<Rightarrow> Session \<Rightarrow> (nat \<times> nat) list" where
  "startedSince s s' = take (length (ss_loops s') - length (ss_loops s)) (ss_loops s')"

lemma inv_idle: "\<forall>t\<in>set (ss_objs s). one_result t \<Longrightarrow> ss_tasks s = [] \<Longrightarrow> ss_loops s = [] \<Longrightarrow> session_inv s"
  by (rule session_invI) (simp_all add: one_result_def)

lemma inv_one_result: "session_inv s \<Longrightarrow> \<forall>t\<in>set (ss_objs s). one_result t"
  using session_invD(10) by (auto simp: one_result_def)

lemma fold_failTask_keeps:
  assumes "\<forall>t\<in>set (ss_objs s). one_result t"
  shows "let s' = fold (\<lambda>(_, a). failTask e a) ps s in (\<forall>t\<in>set (ss_objs s'). one_result t) \<and> ss_tasks s' = ss_tasks s \<and>
    ss_loops s' = ss_loops s \<and> ss_router s' = ss_router s"
  using assms
proof (induction ps arbitrary: s)
  case (Cons p ps)
  obtain i a where p: "p = (i, a)" by force
  have "\<forall>t\<in>set (ss_objs (failTask e a s)). one_result t"
  proof (cases "a < length (ss_objs s)")
    case True
    then show ?thesis
      using Cons.prems cancel_answers [of "ss_objs s ! a" e] by (auto simp: failTask_def setTask_def dest!: set_update_subset_insert [THEN subsetD])
  qed (use Cons.prems in \<open>simp add: failTask_def setTask_def list_update_beyond\<close>)
  from Cons.IH [OF this] show ?case by (simp add: p failTask_def setTask_def Let_def)
qed simp

lemma reconnect_cases:
  assumes "reconnect opts False attempts accepts order waits s = Done s'" "\<not> ss_closed s"
  obtains (idle) v e where "ss_objs v = ss_objs s" "ss_tasks v = []" "ss_loops v = ss_loops s" "closeTags (map fst (ss_tasks s)) (ss_router s) = Some (ss_router v)"
      "s' = v \<or> s' = fold (\<lambda>(_, a). failTask e a) (ss_tasks s) v"
    | (connected) v u where "ss_objs v = ss_objs s" "ss_tasks v = []" "ss_loops v = ss_loops s" "closeTags (map fst (ss_tasks s)) (ss_router s) = Some (ss_router v)"
      "retryTasks waits (map snd (order (ss_tasks s))) v = Done u" "s' = recovered u"
proof -
  obtain r where r: "closeTags (map fst (ss_tasks s)) (ss_router s) = Some r"
    using assms by (cases "closeTags (map fst (ss_tasks s)) (ss_router s)") (auto simp: reconnect_def closeRouterTags_def)
  let ?v = "s\<lparr>ss_cancelled := True, ss_tasks := [], ss_router := r\<rparr>"
  let ?loop = "reconnectLoop opts (ss_isid s) (ss_tsih s) None (take (nat (sg_maxReconnectAttempts (ss_cfg s))) attempts)"
  show ?thesis
  proof (cases ?loop)
    case SessionClosedMeanwhile
    then have "s' = recovered ?v" using assms r by (simp add: reconnect_def closeRouterTags_def)
    then show ?thesis using r by (intro idle [of "recovered ?v"]) (simp_all add: recovered_def)
  next
    case (AttemptsExhausted x)
    let ?w = "recovered (?v\<lparr>ss_err := Some (ErrOther ''reconnect failed'')\<rparr>)"
    have "s' = fold (\<lambda>(_, a). failTask (ErrOther ''reconnect failed'') a) (ss_tasks s) ?w"
      using AttemptsExhausted assms r by (simp add: reconnect_def closeRouterTags_def)
    then show ?thesis using r by (intro idle [of ?w "ErrOther ''reconnect failed''"]) (simp_all add: recovered_def)
  next
    case (Connected params conn)
    let ?w = "fireStateChange SessionFullFeature (installConnection params conn accepts ?v)"
    obtain u where u: "retryTasks waits (map snd (order (ss_tasks s))) ?w = Done u" "s' = recovered u"
      using Connected assms r by (auto simp: reconnect_def closeRouterTags_def Let_def bindStep_Done)
    show ?thesis
      by (rule connected [OF _ _ _ _ u]) (use r in \<open>simp_all add: fireStateChange_def installConnection_def\<close>)
  qed
qed

lemma inv_reconnect:
  assumes "session_inv s" "reconnect opts False attempts accepts order waits s = Done s'" "\<not> ss_closed s"
    "\<forall>w\<in>set waits. quietEnv (fst w)" "length (ss_tasks s) < 2 ^ 32 - 1" "mset (order (ss_tasks s)) = mset (ss_tasks s)"
  shows "session_inv (s'\<lparr>ss_loops := startedSince s s'\<rparr>)"
  using assms(2,3)
proof (cases rule: reconnect_cases)
  case (idle v e)
  have "(\<forall>t\<in>set (ss_objs s'). one_result t) \<and> ss_tasks s' = [] \<and> ss_loops s' = ss_loops s"
    using idle(5) fold_failTask_keeps [of v e "ss_tasks s"] inv_one_result [OF assms(1)] idle(1-3) by (auto simp: Let_def)
  then show ?thesis by (intro inv_idle) (simp_all add: startedSince_def)
next
  case (connected v u)
  have i: "session_inv (v\<lparr>ss_loops := []\<rparr>)" by (rule inv_idle) (use inv_one_result [OF assms(1)] connected(1,2) in simp_all)
  have x: "ittIndex (ss_router v) = (ittIndex (ss_router v) + 0) mod tagCount" by (simp add: ittIndex_def)
  have re: "reinstating (ss_loops s) (ittIndex (ss_router v)) 0 {} v"
    unfolding reinstating_def by (intro conjI exI [of _ "[]"]) (use i x connected(2,3) in simp_all)
  have "mset (map snd (order (ss_tasks s))) = mset (map snd (ss_tasks s))" using assms(6) by simp
  then have di: "distinct (map snd (order (ss_tasks s)))"
    using distinct_addresses [OF assms(1)] mset_eq_imp_distinct_iff by blast
  have su: "set (map snd (order (ss_tasks s))) \<subseteq> {..<length (ss_objs v)}"
    using mset_eq_setD [OF assms(6)] session_invD(3) [OF assms(1)] connected(1) by (force simp: image_subset_iff)
  have le: "0 + length (map snd (order (ss_tasks s))) < tagCount" using assms(5) mset_eq_length [OF assms(6)] by simp
  from retryTasks_reinstating [OF connected(5) assms(4) di su re le] obtain m B
    where "reinstating (ss_loops s) (ittIndex (ss_router v)) m B u" by auto
  then obtain new where "ss_loops u = new @ ss_loops s" "session_inv (u\<lparr>ss_loops := new\<rparr>)" by (auto simp: reinstating_def)
  then show ?thesis using connected(6) inv_same [of "u\<lparr>ss_loops := new\<rparr>"] by (simp add: startedSince_def recovered_def)
qed

lemma retryTask_router:
  assumes "retryTask env ctxEnds a s = Done s'" "quietEnv env" "a < length (ss_objs s)" "\<forall>t\<in>set (ss_objs s). one_result t"
    "router_ok (ss_router s)"
  shows "router_ok (ss_router s') \<and> length (ss_objs s') = length (ss_objs s) \<and> (\<forall>t\<in>set (ss_objs s'). one_result t)"
proof -
  have one: "one_result (ss_objs s ! b)" if "b < length (ss_objs s)" for b using assms(4) that by simp
  note e = retryTask_effect [OF assms(1-3) one [OF assms(3)]]
  have "router_ok (ss_router s')"
    using e [THEN conjunct2] assms(5) router_moves(1) [OF assms(5)] router_moves(2)
    by (auto simp: resubmitted_def) (metis snd_conv)+
  moreover have l: "length (ss_objs s') = length (ss_objs s)" using e by (simp add: touches_def)
  moreover have "one_result (ss_objs s' ! b)" if "b < length (ss_objs s)" for b
    using e one [OF that] by (cases "b = a") (simp_all add: touches_def)
  ultimately show ?thesis by (auto simp: in_set_conv_nth)
qed

lemma retryTasks_router:
  assumes "retryTasks waits as s = Done s'" "\<forall>w\<in>set waits. quietEnv (fst w)" "set as \<subseteq> {..<length (ss_objs s)}"
    "\<forall>t\<in>set (ss_objs s). one_result t" "router_ok (ss_router s)"
  shows "router_ok (ss_router s')"
  using assms
proof (induction waits as s rule: retryTasks.induct)
  case (2 a as s)
  obtain u where u: "retryTask id False a s = Done u" "retryTasks [] as u = Done s'" using 2(2) by (auto simp: bindStep_Done)
  have "quietEnv id" by (simp add: quietEnv_def)
  from retryTask_router [OF u(1) this _ 2(5,6)] show ?case using 2(1) [OF u(2)] 2(3,4) by simp
next
  case (3 env c waits a as s)
  obtain u where u: "retryTask env c a s = Done u" "retryTasks waits as u = Done s'" using 3(2) by (auto simp: bindStep_Done)
  from retryTask_router [OF u(1) _ _ 3(5,6)] show ?case using 3(1) [OF u(2)] 3(3,4) by simp
qed simp

lemma router_reconnect:
  assumes "session_inv s" "router_ok (ss_router s)" "reconnect opts False attempts accepts order waits s = Done s'" "\<not> ss_closed s"
    "\<forall>w\<in>set waits. quietEnv (fst w)" "mset (order (ss_tasks s)) = mset (ss_tasks s)"
  shows "router_ok (ss_router s')"
  using assms(3,4)
proof (cases rule: reconnect_cases)
  case (idle v e)
  have "router_ok (ss_router v)" using closeTags_succeeds [OF assms(2)] idle(4) by (metis option.inject)
  then show ?thesis
    using idle(5) fold_failTask_keeps [of v e "ss_tasks s"] inv_one_result [OF assms(1)] idle(1) by (auto simp: Let_def)
next
  case (connected v u)
  have r: "router_ok (ss_router v)" using closeTags_succeeds [OF assms(2)] connected(4) by (metis option.inject)
  have "set (map snd (order (ss_tasks s))) \<subseteq> {..<length (ss_objs v)}" "\<forall>t\<in>set (ss_objs v). one_result t"
    using mset_eq_setD [OF assms(6)] session_invD(3) [OF assms(1)] inv_one_result [OF assms(1)] connected(1) by auto
  from retryTasks_router [OF connected(5) assms(5) this r] show ?thesis by (simp add: connected(6) recovered_def)
qed

section \<open>The life of a session\<close>

text \<open>
  A reinstatement, seen as one step: what the other goroutines do while it waits is in \<open>waits\<close>, and the loops of the
  old connection have ended when it is over. Submissions that waited on the old command window are not granted
  anything any more, as the window has been replaced.
\<close>

inductive life_step :: "SessSys \<Rightarrow> SessSys \<Rightarrow> bool" where
  lf_step: "session_step S S' \<Longrightarrow> life_step S S'"
| lf_reconnect: "\<not> ss_closed s \<Longrightarrow> length (ss_tasks s) < 2 ^ 32 - 1 \<Longrightarrow> mset (order (ss_tasks s)) = mset (ss_tasks s) \<Longrightarrow>
    \<forall>w\<in>set waits. quietEnv (fst w) \<Longrightarrow> reconnect opts False attempts accepts order waits s = Done s' \<Longrightarrow>
    life_step \<lparr>sy_s = s, sy_waiting = W\<rparr> \<lparr>sy_s = s'\<lparr>ss_loops := startedSince s s'\<rparr>, sy_waiting = []\<rparr>"
| lf_no_reconnect: "ss_closed s \<or> closed \<Longrightarrow> reconnect opts closed attempts accepts order waits s = Done s' \<Longrightarrow>
    life_step \<lparr>sy_s = s, sy_waiting = W\<rparr> \<lparr>sy_s = s', sy_waiting = W\<rparr>"

inductive life_reachable :: "SessSys \<Rightarrow> bool" where
  lr_init: "life_reachable \<lparr>sy_s = NewSession conn params opts accepts, sy_waiting = []\<rparr>"
| lr_step: "life_reachable S \<Longrightarrow> life_step S S' \<Longrightarrow> life_reachable S'"

lemma session_life: "session_reachable S \<Longrightarrow> life_reachable S"
  by (induction rule: session_reachable.induct) (auto intro: lr_init lr_step lf_step)

lemma life_inv: "life_reachable S \<Longrightarrow> session_inv (sy_s S) \<and> router_ok (ss_router (sy_s S))"
proof (induction rule: life_reachable.induct)
  case (lr_init conn params opts accepts)
  then show ?case using session_reachable_inv [OF se_init] session_router_inv [OF se_init] by fastforce
next
  case (lr_step S S')
  from lr_step.hyps(2) show ?case
  proof cases
    case lf_step
    then show ?thesis using inv_step step_router lr_step.IH by blast
  next
    case (lf_reconnect s order waits opts attempts accepts s' W)
    then show ?thesis
      using inv_reconnect [OF _ lf_reconnect(7,3,6,4,5)] router_reconnect [OF _ _ lf_reconnect(7,3,6,5)] lr_step.IH by simp
  next
    case (lf_no_reconnect s closed opts attempts accepts order waits s' W)
    then have "s' = recovered s \<or> s' = recovered (s\<lparr>ss_cancelled := True\<rparr>)" by (auto simp: reconnect_def split: if_splits)
    then show ?thesis using lf_no_reconnect(1,2) lr_step.IH inv_same [of s s'] by (auto simp: recovered_def)
  qed
qed

section \<open>What goes wrong\<close>

text \<open>
  The loops of the old connection are not waited for. PDUs that were in the channel of one when it was closed are still
  received by it after the reinstatement, for the task that has been reset and submitted again meanwhile.
\<close>

definition keepsPDUs :: "Router \<Rightarrow> Router \<Rightarrow> bool" where
  "keepsPDUs r r' \<longleftrightarrow> (\<forall>ch<length (chans r). ch < length (chans r') \<and> ch_buf (chans r' ! ch) = ch_buf (chans r ! ch))"

lemma keepsPDUs_trans: "keepsPDUs r r' \<Longrightarrow> keepsPDUs r' r'' \<Longrightarrow> keepsPDUs r r''"
  by (simp add: keepsPDUs_def)

lemma receiveFrom_iff: "(\<exists>r'. receiveFrom ch r = Some (p, r')) \<longleftrightarrow> ch < length (chans r) \<and> (\<exists>q. ch_buf (chans r ! ch) = p # q)"
  by (auto simp: receiveFrom_def chan_recv_def split: list.splits)

lemma closeTags_keeps: "closeTags itts r = Some r' \<Longrightarrow> keepsPDUs r r'"
proof (induction itts arbitrary: r)
  case (Cons itt itts)
  then obtain r1 where r1: "UnregisterAndClose itt r = Some r1" "closeTags itts r1 = Some r'" by (auto split: option.splits)
  have "keepsPDUs r r1"
    using r1(1) by (auto simp: UnregisterAndClose_def chan_close_def Let_def keepsPDUs_def nth_list_update split: option.splits if_splits)
      (metis Chan.select_convs(1) Chan.surjective Chan.update_convs(3) nth_list_update_eq nth_list_update_neq)
  then show ?case using Cons.IH [OF r1(2)] keepsPDUs_trans by blast
qed (simp add: keepsPDUs_def)

lemma newTag_keeps: "AllocateITT r = (itt, r0) \<Longrightarrow> RegisterPersistent itt r0 = (ch, r') \<Longrightarrow> keepsPDUs r r'"
  by (auto simp: AllocateITT_def RegisterPersistent_def makeChan_def keepsPDUs_def nth_append Let_def split: if_splits)

lemma retryTask_keeps:
  assumes "retryTask env ctxEnds a s = Done s'" "quietEnv env" "a < length (ss_objs s)" "\<forall>t\<in>set (ss_objs s). one_result t"
  shows "keepsPDUs (ss_router s) (ss_router s') \<and> set (ss_loops s) \<subseteq> set (ss_loops s') \<and> length (ss_objs s') = length (ss_objs s) \<and>
    (\<forall>t\<in>set (ss_objs s'). one_result t)"
proof -
  have one: "one_result (ss_objs s ! b)" if "b < length (ss_objs s)" for b using assms(4) that by simp
  note e = retryTask_effect [OF assms(1-3) one [OF assms(3)]]
  have "keepsPDUs (ss_router s) (ss_router s')"
    using e [THEN conjunct2] newTag_keeps [of "ss_router s"] by (auto simp: resubmitted_def) (auto simp: keepsPDUs_def)
  moreover have "set (ss_loops s) \<subseteq> set (ss_loops s')" "length (ss_objs s') = length (ss_objs s)" using e by (simp_all add: touches_def)
  moreover have "one_result (ss_objs s' ! b)" if "b < length (ss_objs s)" for b
    using e one [OF that] by (cases "b = a") (simp_all add: touches_def)
  ultimately show ?thesis by (auto simp: in_set_conv_nth)
qed

lemma retryTasks_keep:
  assumes "retryTasks waits as s = Done s'" "\<forall>w\<in>set waits. quietEnv (fst w)" "set as \<subseteq> {..<length (ss_objs s)}" "\<forall>t\<in>set (ss_objs s). one_result t"
  shows "keepsPDUs (ss_router s) (ss_router s') \<and> set (ss_loops s) \<subseteq> set (ss_loops s')"
  using assms
proof (induction waits as s rule: retryTasks.induct)
  case (1 waits s)
  then show ?case by (simp add: keepsPDUs_def)
next
  case (2 a as s)
  obtain u where u: "retryTask id False a s = Done u" "retryTasks [] as u = Done s'" using 2(2) by (auto simp: bindStep_Done)
  have "quietEnv id" by (simp add: quietEnv_def)
  from retryTask_keeps [OF u(1) this _ 2(5)] show ?case using 2(1) [OF u(2)] 2(3,4) keepsPDUs_trans by auto
next
  case (3 env c waits a as s)
  obtain u where u: "retryTask env c a s = Done u" "retryTasks waits as u = Done s'" using 3(2) by (auto simp: bindStep_Done)
  from retryTask_keeps [OF u(1) _ _ 3(5)] show ?case using 3(1) [OF u(2)] 3(3,4) keepsPDUs_trans by auto
qed

lemma old_loop_still_receives:
  assumes "session_inv s" "reconnect opts False attempts accepts order waits s = Done s'" "\<not> ss_closed s"
    "\<forall>w\<in>set waits. quietEnv (fst w)" "mset (order (ss_tasks s)) = mset (ss_tasks s)"
    "(a, ch) \<in> set (ss_loops s)" "receiveFrom ch (ss_router s) = Some (p, r)"
  shows "(a, ch) \<in> set (ss_loops s') \<and> (\<exists>r'. receiveFrom ch (ss_router s') = Some (p, r'))"
proof -
  have "keepsPDUs (ss_router s) (ss_router s') \<and> set (ss_loops s) \<subseteq> set (ss_loops s')"
    using assms(2,3)
  proof (cases rule: reconnect_cases)
    case (idle v e)
    then show ?thesis
      using closeTags_keeps [OF idle(4)] fold_failTask_keeps [of v e "ss_tasks s"] inv_one_result [OF assms(1)] by (auto simp: Let_def)
  next
    case (connected v u)
    have "set (map snd (order (ss_tasks s))) \<subseteq> {..<length (ss_objs v)}" "\<forall>t\<in>set (ss_objs v). one_result t"
      using mset_eq_setD [OF assms(5)] session_invD(3) [OF assms(1)] inv_one_result [OF assms(1)] connected(1) by auto
    from retryTasks_keep [OF connected(5) assms(4) this] show ?thesis
      using closeTags_keeps [OF connected(4)] keepsPDUs_trans connected(3,6) by (auto simp: recovered_def)
  qed
  moreover have "ch < length (chans (ss_router s)) \<and> (\<exists>q. ch_buf (chans (ss_router s) ! ch) = p # q)"
    using assms(7) receiveFrom_iff by blast
  ultimately show ?thesis using assms(6) by (auto simp: receiveFrom_iff keepsPDUs_def)
qed

section \<open>Properties\<close>





section \<open>Witnesses\<close>

lemma sample_reconnect:
  "\<exists>S s' itt. session_reachable S \<and> ss_tasks (sy_s S) \<noteq> [] \<and> length (ss_tasks (sy_s S)) = 1 \<and> \<not> ss_closed (sy_s S) \<and> length (wr_sent (ss_write s')) = 1 \<and>
    reconnect sampleOpts False [sampleAttempt] (\<lambda>_. True) rev [] (sy_s S) = Done s' \<and> reading (map carriedFragment sampleFragments) {} itt 0 s' \<and>
    \<not> tk_done (ss_objs s' ! 0)"
proof -
  obtain S itt where S: "session_reachable S" "ss_tasks (sy_s S) = [(itt, 0)]"
    "ss_objs (sy_s S) = [makeTask 0 sampleRead itt 1 sampleSession]" "\<not> ss_closed (sy_s S)" "ss_cfg (sy_s S) = defaultConfig"
    using sample_running by blast
  let ?s = "sy_s S"
  obtain r where r: "closeTags [itt] (ss_router ?s) = Some r" using closeTags_succeeds [OF session_router_inv [OF S(1)]] by blast
  define v where "v = ?s\<lparr>ss_cancelled := True, ss_tasks := [], ss_router := r\<rparr>"
  let ?p = "Defaults\<lparr>np_TSIH := 9, np_TargetName := [], np_CmdSN := 1, np_ExpStatSN := 42, np_ISID := [0x40, 1, 2, 3, 4, 5]\<rparr>"
  obtain conn where at: "attemptLogin sampleOpts (ss_isid v) (ss_tsih v) sampleAttempt = Inr (?p, conn)" using sample_attempt by blast
  define u where "u = fireStateChange SessionFullFeature (installConnection ?p conn (\<lambda>_. True) v)"
  have t: "ss_objs u = [makeTask 0 sampleRead itt 1 sampleSession]" by (simp add: u_def v_def fireStateChange_def installConnection_def S(3))
  have w: "acquireFast (ss_window u) = Granted 1 ((ss_window u)\<lparr>cw_cmdSN := 2\<rparr>)" "accepting (ss_write u)" "wr_sent (ss_write u) = []"
    by (simp_all add: u_def fireStateChange_def installConnection_def accepting_def acquireFast_def takeSN_def newCmdWindow_def
        windowOpen_def InWindow_def LessThan_def Incr_def)
  have c: "tk_cmd (makeTask 0 sampleRead itt 1 sampleSession) = sampleRead" using sample_session(7) by (simp add: makeTask_def newTask_def Let_def)
  have nd: "\<not> tk_done (makeTask 0 sampleRead itt 1 sampleSession)" by (simp add: makeTask_def newTask_def Let_def)
  obtain s' raw where s': "retryTask id False 0 u = Done s'" "wr_sent (ss_write s') = [sessionStamp u raw]"
    and f: "reading (map carriedFragment sampleFragments) {} (fst (AllocateITT (ss_router u))) 0 s'" "\<not> tk_done (ss_objs s' ! 0)"
    using retryTask_read [of u 0, OF _ _ w(1,2) _ _ _ carried_sample(1), of False] sample_session(8-10) interrupted_sample
    by (auto simp: t c w(3) nd)
  have run: "reconnect sampleOpts False [sampleAttempt] (\<lambda>_. True) rev [] ?s = Done (recovered s')"
  proof -
    have "take (nat (sg_maxReconnectAttempts (ss_cfg ?s))) [sampleAttempt] = [sampleAttempt]" by (simp add: S(5) defaultConfig_def)
    then show ?thesis using r S(2,4) at s'(1) unfolding v_def u_def
      by (simp add: reconnect_def closeRouterTags_def sampleAttempt_def Let_def)
  qed
  have "reading (map carriedFragment sampleFragments) {} (fst (AllocateITT (ss_router u))) 0 (recovered s')" "\<not> tk_done (ss_objs (recovered s') ! 0)"
    using f by (simp_all add: reading_def recovered_def)
  then show ?thesis using S(1,2,4) run s'(2) w(3) by (intro exI [of _ S] exI [of _ "recovered s'"]) (auto simp: recovered_def)
qed


text \<open>A session after a reinstatement, with a read that was submitted again.\<close>

lemma sample_reinstated: "\<exists>S. life_reachable S \<and> 0 < length (ss_objs (sy_s S)) \<and> \<not> tk_done (ss_objs (sy_s S) ! 0) \<and> wr_sent (ss_write (sy_s S)) \<noteq> []"
proof -
  obtain S s' itt where S: "session_reachable S" "length (ss_tasks (sy_s S)) = 1" "\<not> ss_closed (sy_s S)" "length (wr_sent (ss_write s')) = 1"
    "reconnect sampleOpts False [sampleAttempt] (\<lambda>_. True) rev [] (sy_s S) = Done s'" "reading (map carriedFragment sampleFragments) {} itt 0 s'" "\<not> tk_done (ss_objs s' ! 0)"
    using sample_reconnect by blast
  obtain s W where s: "S = \<lparr>sy_s = s, sy_waiting = W\<rparr>" by (cases S) auto
  have "life_step \<lparr>sy_s = s, sy_waiting = W\<rparr> \<lparr>sy_s = s'\<lparr>ss_loops := startedSince s s'\<rparr>, sy_waiting = []\<rparr>"
    by (rule lf_reconnect [of _ rev "[]" sampleOpts "[sampleAttempt]"]) (use S s in simp_all)
  from lr_step [OF session_life [OF S(1), unfolded s] this] show ?thesis
    using S(4,6,7) by (intro exI [of _ "\<lparr>sy_s = s'\<lparr>ss_loops := startedSince s s'\<rparr>, sy_waiting = []\<rparr>"])
      (auto simp: reading_def)
qed





end
