(* ===== verification/Session_Requests.thy ===== *)
theory Session_Requests
  imports Discovery Recovery
begin

text \<open>
  The requests the session builds, as one relation with a rule for every place that builds one. Each is
  a well-formed PDU, so that its encoding exists, has the length of a header and decodes to the same
  request: the \<open>ErrEncode\<close> branches of the operations are not reached.
\<close>

inductive session_request :: "Session \<Rightarrow> PDU \<Rightarrow> bool" for s :: Session where
  sr_ping: "session_request s (PNOPOut (pingPDU itt s))"
| sr_answer: "length (raw_BHS (raw::RawPDU)) = BHSLength \<Longrightarrow> length (raw_DataSegment raw) \<le> 0xFFFFFF \<Longrightarrow>
    session_request s (PNOPOut (nopResponse (NOPIn_UnmarshalBHS (raw_BHS raw)) (raw_DataSegment raw) s))"
| sr_task_management: "EncodeSAMLUN lun = Some l \<Longrightarrow>
    fn \<in> {TMFAbortTask, TMFAbortTaskSet, TMFClearTaskSet, TMFLogicalUnitReset, TMFTargetWarmReset, TMFTargetColdReset, TMFTaskReassign} \<Longrightarrow>
    session_request s (PTaskMgmtReq (tmfPDU fn refTaskTag l itt s))"
| sr_logout: "reasonCode \<le> 2 \<Longrightarrow> session_request s (PLogoutReq (logoutPDU reasonCode cmdSN itt s))"
| sr_renegotiate: "session_request s (PTextReq (textPDU 0xFFFFFFFF cmdSN itt (EncodeTextKV (renegotiationKeys (ss_params s))) s))"
| sr_send_targets: "session_request s (PTextReq (textPDU 0xFFFFFFFF cmdSN itt sendTargetsText s))"
| sr_continue: "session_request s (PTextReq (textPDU ttt cmdSN itt [] s))"
| sr_snack: "snackType \<in> {SNACKTypeDataR2T, SNACKTypeStatus, SNACKTypeDataACK} \<Longrightarrow>
    session_request s (PSNACKReq (snackRequest t snackType ttt begRun runLength (ss_expStatSN s)))"
| sr_command: "EncodeSAMLUN (cm_LUN cmd) = Some l \<Longrightarrow> length (cm_CDB cmd) = 16 \<Longrightarrow> unat (cm_TaskAttributes cmd) < 8 \<Longrightarrow>
    length data \<le> 0xFFFFFF \<Longrightarrow> session_request s (PSCSICommand (scsiCommand cmd l itt cmdSN (ss_expStatSN s) data))"
| sr_data_out: "length data \<le> 0xFFFFFF \<Longrightarrow>
    session_request s (PDataOut (dataOutPDU itt ttt isFinal (ss_expStatSN s) dataSN bufferOffset data))"

lemma EncodeSAMLUN_length: "EncodeSAMLUN lun = Some l \<Longrightarrow> length l = 8"
  by (auto simp: EncodeSAMLUN_def wire Let_def split: if_splits)

lemma FormatUint_short: "n < 10 ^ Suc k \<Longrightarrow> length (FormatUint n) \<le> Suc k"
proof (induction k arbitrary: n)
  case (Suc k)
  then have "n div 10 < 10 ^ Suc k" by (simp add: div_less_iff_less_mult)
  then have "length (FormatUint (n div 10)) \<le> Suc k" by (rule Suc.IH)
  then show ?case by (subst FormatUint.simps) simp
qed (subst FormatUint.simps, simp)

lemma FormatUint_u32: "length (FormatUint (unat (x::u32))) \<le> 10"
  using FormatUint_short [of "unat x" 9] unsigned_less [of x, where 'a = nat] by simp

lemma segment_fits: "n \<le> 0xFFFFFF \<Longrightarrow> (of_nat n :: u32) \<le> 0xFFFFFF"
  by (simp add: word_le_nat_alt unat_of_nat_u32)

lemma renegotiation_fits: "length (EncodeTextKV (renegotiationKeys ps)) \<le> 0xFFFFFF"
  using FormatUint_u32 [of "np_MaxRecvDataSegmentLength ps"] FormatUint_u32 [of "np_MaxBurstLength ps"]
    FormatUint_u32 [of "np_FirstBurstLength ps"]
  by (simp add: renegotiationKeys_def bytes_of_def)

lemma session_request_wf: "session_request s p \<Longrightarrow> wf_PDU p"
proof (induction rule: session_request.induct)
  case (sr_answer raw)
  then show ?case
    by (simp add: nopResponse_def immediateHeader_def zeroHeader_def wf_NOPOut_def wf_Header_def segment_fits NOPIn_UnmarshalBHS_def unmarshalHeader_def Let_def wire
        split: prod.split)
next
  case sr_ping
  then show ?case by (simp add: pingPDU_def immediateHeader_def zeroHeader_def wf_NOPOut_def wf_Header_def)
next
  case (sr_task_management lun l fn)
  then show ?case using EncodeSAMLUN_length [of lun l]
    by (auto simp: tmfPDU_def immediateHeader_def zeroHeader_def wf_TaskMgmtReq_def wf_Header_def)
next
  case (sr_logout reasonCode)
  then show ?case by (simp add: logoutPDU_def zeroHeader_def wf_LogoutReq_def wf_Header_def word_le_nat_alt)
next
  case sr_renegotiate
  then show ?case
    using segment_fits [OF renegotiation_fits] by (simp add: textPDU_def zeroHeader_def wf_TextReq_def wf_Header_def)
next
  case sr_send_targets
  then show ?case by (simp add: textPDU_def zeroHeader_def wf_TextReq_def wf_Header_def sendTargetsText_def bytes_of_def)
next
  case sr_continue
  then show ?case by (simp add: textPDU_def zeroHeader_def wf_TextReq_def wf_Header_def)
next
  case sr_snack
  then show ?case by (auto simp: snackRequest_def zeroHeader_def wf_SNACKReq_def wf_Header_def)
next
  case (sr_command cmd l)
  then show ?case using EncodeSAMLUN_length [of "cm_LUN cmd" l]
    by (simp add: scsiCommand_def zeroHeader_def wf_SCSICommand_def wf_Header_def segment_fits)
next
  case sr_data_out
  then show ?case by (simp add: dataOutPDU_def zeroHeader_def wf_DataOut_def wf_Header_def segment_fits)
qed

section \<open>Properties\<close>

text \<open>C28. Every request the session builds is well typed: pings and their answers, task management, logout, text, SNACK, SCSI
  command and Data-Out PDUs all encode to 48 bytes, which decode to the request that was meant.\<close>

theorem session_requests_encode:
  assumes "session_request s p"
  shows "\<exists>b. MarshalBHS p = Inr b \<and> length b = BHSLength \<and> DecodeBHS b = Inr (norm_PDU p)"
  using MarshalBHS_roundtrip [OF session_request_wf [OF assms]] by (auto simp: bhs_ok_def)

theorem session_requests_encode_witness:
  "\<exists>b. TextReq_MarshalBHS (textPDU 0xFFFFFFFF 1 0 (EncodeTextKV (renegotiationKeys Defaults)) sampleSession) = Inr b \<and> length b = BHSLength"
proof -
  have "ss_params sampleSession = Defaults"
    by (simp add: sampleSession_def NewSession_def fireStateChange_def Let_def)
  then show ?thesis using session_requests_encode [OF sr_renegotiate [of sampleSession 1 0]] by auto
qed

end
