(* ===== verification/Public_Types.thy ===== *)
theory Public_Types
  imports Discovery Scsi_Command Scsi_Parse
begin

text \<open>
  The public package: \<open>types.go\<close> (results and their conversion from the internal types),
  \<open>errors.go\<close>, \<open>sense.go\<close> and \<open>options.go\<close>. Options that install a logger or a hook are left out: they
  only observe.
\<close>

section \<open>LUNs and device types\<close>

definition DecodeLUN :: "u64 \<Rightarrow> u64" where
  "DecodeLUN raw =
     (let meth = drop_bit 62 raw AND 0x03
      in if meth = 0x00 then drop_bit 48 raw AND 0xFF
         else if meth = 0x01 then drop_bit 48 raw AND 0x3FFF
         else drop_bit 48 raw AND 0xFFFF)"

definition deviceTypeNames :: "string list" where
  "deviceTypeNames =
     [''disk'', ''tape'', ''printer'', ''processor'', ''worm'', ''cd/dvd'', ''scanner'', ''optical'',
      ''media changer'', ''communications'', '''', '''', ''storage'', ''enclosure'', ''disk'', ''osd'',
      '''', ''osd'', '''', '''', '''', '''', '''', '''', '''', '''', '''', '''', '''', '''', ''wlun'', ''unknown'']"

definition DeviceTypeName :: "u8 \<Rightarrow> string" where
  "DeviceTypeName code =
     (if unat code \<ge> length deviceTypeNames then ''unknown''
      else let name = deviceTypeNames ! unat code in if name = '''' then ''unknown'' else name)"

section \<open>Results\<close>

text \<open>The public copies of internal records have their own names here.\<close>

record PublicPortal =
  po_Address :: string
  po_Port :: int
  po_GroupTag :: int

record Target =
  tg_Name :: string
  tg_Portals :: "PublicPortal list"

record RawResult =
  rr_Status :: u8
  rr_Data :: bytes
  rr_SenseData :: bytes

record InquiryData =
  id_DeviceType :: u8
  id_VendorID :: string
  id_ProductID :: string
  id_Revision :: string

record Capacity =
  ca_LBA :: u64
  ca_BlockSize :: u32
  ca_LogicalBlocks :: u64

record SenseInfo =
  si_Key :: u8
  si_ASC :: u8
  si_ASCQ :: u8
  si_Description :: string
  si_Filemark :: bool
  si_EOM :: bool
  si_ILI :: bool
  si_Information :: u64
  si_InformationValid :: bool

record PublicTMFResult =
  pr_Response :: u8

record PublicAsyncEvent =
  pa_EventCode :: u8
  pa_VendorCode :: u8
  pa_Parameter1 :: u16
  pa_Parameter2 :: u16
  pa_Parameter3 :: u16
  pa_Data :: bytes

record PublicUnmapDescriptor =
  pu_LBA :: u64
  pu_Blocks :: u32

definition convertTarget :: "DiscoveryTarget \<Rightarrow> Target" where
  "convertTarget dt =
     \<lparr>tg_Name = dt_Name dt,
      tg_Portals = map (\<lambda>p. \<lparr>po_Address = pt_Address p, po_Port = pt_Port p, po_GroupTag = pt_GroupTag p\<rparr>) (dt_Portals dt)\<rparr>"

definition convertInquiry :: "InquiryResponse \<Rightarrow> InquiryData" where
  "convertInquiry r =
     \<lparr>id_DeviceType = iq_PeripheralDeviceType r, id_VendorID = iq_Vendor r, id_ProductID = iq_Product r, id_Revision = iq_Revision r\<rparr>"

definition convertCapacity16 :: "ReadCapacity16Response \<Rightarrow> Capacity" where
  "convertCapacity16 r = \<lparr>ca_LBA = r16_LastLBA r, ca_BlockSize = r16_BlockSize r, ca_LogicalBlocks = r16_LastLBA r + 1\<rparr>"

definition convertCapacity10 :: "ReadCapacity10Response \<Rightarrow> Capacity" where
  "convertCapacity10 r =
     \<lparr>ca_LBA = ucast (r10_LastLBA r), ca_BlockSize = r10_BlockSize r, ca_LogicalBlocks = ucast (r10_LastLBA r) + 1\<rparr>"

definition convertSense :: "SenseData \<Rightarrow> SenseInfo" where
  "convertSense sd =
     \<lparr>si_Key = sd_Key sd, si_ASC = sd_ASC sd, si_ASCQ = sd_ASCQ sd, si_Description = SenseData_String sd, si_Filemark = sd_Filemark sd,
      si_EOM = sd_EOM sd, si_ILI = sd_ILI sd, si_Information = sd_Information sd, si_InformationValid = sd_Valid sd\<rparr>"

definition convertTMFResult :: "TMFResult \<Rightarrow> PublicTMFResult" where
  "convertTMFResult r = \<lparr>pr_Response = tf_Response r\<rparr>"

definition convertAsyncEvent :: "AsyncEvent \<Rightarrow> PublicAsyncEvent" where
  "convertAsyncEvent ae =
     \<lparr>pa_EventCode = ae_EventCode ae, pa_VendorCode = ae_VendorCode ae, pa_Parameter1 = ae_Parameter1 ae, pa_Parameter2 = ae_Parameter2 ae,
      pa_Parameter3 = ae_Parameter3 ae, pa_Data = ae_Data ae\<rparr>"

section \<open>Errors\<close>

record SCSIError =
  se_Status :: u8
  se_SenseKey :: u8
  se_ASC :: u8
  se_ASCQ :: u8
  se_Message :: string

text \<open>What a \<open>TransportError\<close> wraps.\<close>

datatype Cause = CauseDial | CauseLogin LoginFailure | CauseDiscover DiscoverError | CauseSession SessionError | CauseRead IOError

datatype ApiError =
    SCSIFailure SCSIError
  | TransportFailure string Cause
  | AuthFailure u8 u8 string
  | ContextEnded
  | ReadFailure IOError
  | SenseFailure SenseError
  | ParserFailure ScsiError
  | SessionFailure SessionError
  | EmptyCDB
  | LongCDB nat

definition SCSIError_Error :: "SCSIError \<Rightarrow> string" where
  "SCSIError_Error e =
     (if se_Message e \<noteq> '''' then ''scsi: status 0x'' @ upperHex (se_Status e) @ '': '' @ se_Message e
      else ''scsi: status 0x'' @ upperHex (se_Status e))"

definition statusOnly :: "u8 \<Rightarrow> SCSIError" where
  "statusOnly status = \<lparr>se_Status = status, se_SenseKey = 0, se_ASC = 0, se_ASCQ = 0, se_Message = ''''\<rparr>"

definition wrapSCSIError :: "ScsiError \<Rightarrow> ApiError" where
  "wrapSCSIError err =
     (case err of
        CommandError status sense \<Rightarrow>
          SCSIFailure (case sense of
                         None \<Rightarrow> statusOnly status
                       | Some sd \<Rightarrow> (statusOnly status)\<lparr>se_SenseKey := sd_Key sd, se_ASC := sd_ASC sd, se_ASCQ := sd_ASCQ sd,
                                                     se_Message := SenseData_String sd\<rparr>)
      | _ \<Rightarrow> ParserFailure err)"

definition wrapAuthError :: "LoginFailure \<Rightarrow> ApiError" where
  "wrapAuthError err =
     (case err of
        LoginError class detail msg \<Rightarrow> AuthFailure class detail msg
      | _ \<Rightarrow> TransportFailure ''login'' (CauseLogin err))"

text \<open>The text of the error that \<open>ParseSense\<close> returns for \<open>data\<close>.\<close>

definition senseErrorText :: "bytes \<Rightarrow> SenseError \<Rightarrow> string" where
  "senseErrorText data e =
     (case e of
        SenseTooShort n \<Rightarrow>
          if n < 2 then ''scsi: sense data too short ('' @ FormatUint n @ '' bytes)''
          else if data ! 0 AND 0x7F \<in> {0x70, 0x71}
          then ''scsi: fixed-format sense data too short ('' @ FormatUint n @ '' bytes, need 18)''
          else ''scsi: descriptor-format sense data too short ('' @ FormatUint n @ '' bytes, need 8)''
      | UnknownResponseCode code \<Rightarrow> ''scsi: unknown sense response code 0x'' @ upperHex code)"

definition senseFailure :: "u8 \<Rightarrow> bytes \<Rightarrow> SCSIError" where
  "senseFailure status senseData =
     (let se = statusOnly status
      in if length senseData > 0
         then (case ParseSense senseData of
                 Inr sd \<Rightarrow> se\<lparr>se_SenseKey := sd_Key sd, se_ASC := sd_ASC sd, se_ASCQ := sd_ASCQ sd, se_Message := SenseData_String sd\<rparr>
               | Inl e \<Rightarrow> se\<lparr>se_Message := ''sense data present but unparseable: '' @ senseErrorText senseData e\<rparr>)
         else se)"

definition CheckStatus :: "u8 \<Rightarrow> bytes \<Rightarrow> ApiError option" where
  "CheckStatus status senseData = (if status = 0 then None else Some (SCSIFailure (senseFailure status senseData)))"

definition ParseSenseData :: "bytes \<Rightarrow> ApiError + SenseInfo option" where
  "ParseSenseData raw =
     (if raw = [] then Inr None
      else case ParseSense raw of Inl e \<Rightarrow> Inl (SenseFailure e) | Inr sd \<Rightarrow> Inr (Some (convertSense sd)))"

section \<open>Options of Dial and Discover\<close>

record dialConfig =
  dc_loginOpts :: "LoginOption list"
  dc_sessionOpts :: "SessionOption list"
  dc_dialTimeout :: int

type_synonym DialOption = "dialConfig \<Rightarrow> dialConfig"

definition loginOpt :: "LoginOption \<Rightarrow> DialOption" where
  "loginOpt o' c = c\<lparr>dc_loginOpts := dc_loginOpts c @ [o']\<rparr>"

definition sessionOpt :: "SessionOption \<Rightarrow> DialOption" where
  "sessionOpt o' c = c\<lparr>dc_sessionOpts := dc_sessionOpts c @ [o']\<rparr>"

definition WithTarget_opt :: "string \<Rightarrow> DialOption" where "WithTarget_opt iqn = loginOpt (WithTarget iqn)"

definition WithDialTimeout_opt :: "int \<Rightarrow> DialOption" where "WithDialTimeout_opt d c = c\<lparr>dc_dialTimeout := d\<rparr>"

definition WithCHAP_opt :: "string \<Rightarrow> string \<Rightarrow> DialOption" where "WithCHAP_opt user secret = loginOpt (WithCHAP user secret)"

definition WithMutualCHAP_opt :: "string \<Rightarrow> string \<Rightarrow> string \<Rightarrow> DialOption" where
  "WithMutualCHAP_opt user secret targetSecret = loginOpt (WithMutualCHAP user secret targetSecret)"

definition WithInitiatorName_opt :: "string \<Rightarrow> DialOption" where "WithInitiatorName_opt iqn = loginOpt (WithInitiatorName iqn)"

definition WithHeaderDigest_opt :: "string list \<Rightarrow> DialOption" where "WithHeaderDigest_opt prefs = loginOpt (WithHeaderDigest prefs)"

definition WithDataDigest_opt :: "string list \<Rightarrow> DialOption" where "WithDataDigest_opt prefs = loginOpt (WithDataDigest prefs)"

definition WithKeepaliveInterval_opt :: "int \<Rightarrow> DialOption" where "WithKeepaliveInterval_opt d = sessionOpt (WithKeepaliveInterval d)"

definition WithKeepaliveTimeout_opt :: "int \<Rightarrow> DialOption" where "WithKeepaliveTimeout_opt d = sessionOpt (WithKeepaliveTimeout d)"

definition WithMaxRecvDataSegmentLength_opt :: "u32 \<Rightarrow> DialOption" where
  "WithMaxRecvDataSegmentLength_opt n =
     loginOpt (WithOperationalOverrides (Some [''MaxRecvDataSegmentLength'' \<mapsto> FormatUint (unat n)]))"

definition WithOperationalOverrides_opt :: "(string \<rightharpoonup> string) option \<Rightarrow> DialOption" where
  "WithOperationalOverrides_opt overrides = loginOpt (WithOperationalOverrides overrides)"

definition WithDigestByteOrder_opt :: "ByteOrder \<Rightarrow> DialOption" where "WithDigestByteOrder_opt bo = sessionOpt (WithDigestByteOrder bo)"

definition WithMaxBurstLength_opt :: "u32 \<Rightarrow> DialOption" where
  "WithMaxBurstLength_opt n = loginOpt (WithOperationalOverrides (Some [''MaxBurstLength'' \<mapsto> FormatUint (unat n)]))"

definition WithFirstBurstLength_opt :: "u32 \<Rightarrow> DialOption" where
  "WithFirstBurstLength_opt n = loginOpt (WithOperationalOverrides (Some [''FirstBurstLength'' \<mapsto> FormatUint (unat n)]))"

definition WithStreamBufDepth_opt :: "int \<Rightarrow> DialOption" where "WithStreamBufDepth_opt depth = sessionOpt (WithStreamBufDepth depth)"

definition WithRouterBufDepth_opt :: "int \<Rightarrow> DialOption" where "WithRouterBufDepth_opt depth = sessionOpt (WithRouterBufDepth depth)"

definition WithMaxReconnectAttempts_opt :: "int \<Rightarrow> DialOption" where "WithMaxReconnectAttempts_opt n = sessionOpt (WithMaxReconnectAttempts n)"

definition WithReconnectBackoff_opt :: "int \<Rightarrow> DialOption" where "WithReconnectBackoff_opt base = sessionOpt (WithReconnectBackoff base)"

definition WithSNACKTimeout_opt :: "int \<Rightarrow> DialOption" where "WithSNACKTimeout_opt d = sessionOpt (WithSNACKTimeout d)"

definition dialOptions :: "DialOption list \<Rightarrow> dialConfig" where
  "dialOptions opts = foldl (\<lambda>c o'. o' c) \<lparr>dc_loginOpts = [], dc_sessionOpts = [], dc_dialTimeout = 0\<rparr> opts"

text \<open>
  \<open>WithOperationalOverrides\<close> replaces the overrides of the options before it, so that the options for
  single parameters, which are built on it, undo each other.
\<close>

lemma burst_option_drops_segment_length:
  "lc_operationalOverrides (loginCfg (dc_loginOpts (dialOptions [WithMaxRecvDataSegmentLength_opt m, WithMaxBurstLength_opt b])))
    = Some [''MaxBurstLength'' \<mapsto> FormatUint (unat b)]"
  by (simp add: dialOptions_def WithMaxRecvDataSegmentLength_opt_def WithMaxBurstLength_opt_def loginOpt_def WithOperationalOverrides_def)

text \<open>\<open>ReportLuns\<close> decodes its entries already: \<open>DecodeLUN\<close> of one of them is 0, whatever the LUN.\<close>

lemma reported_lun_decodes_to_zero:
  assumes "raw \<le> 0xFFFF"
  shows "DecodeLUN raw = 0"
proof -
  have "unat raw < 2 ^ 48" "unat raw < 2 ^ 62" using assms by (simp_all add: word_le_nat_alt)
  then have "drop_bit 48 raw = 0" "drop_bit 62 raw = 0"
    by (simp_all add: word_unat_eq_iff drop_bit_eq_div unat_div)
  then show ?thesis by (simp add: DecodeLUN_def)
qed

end
