(* ===== verification/Public_Ops.thy ===== *)
theory Public_Ops
  imports Session_IO Public_Types
begin

text \<open>
  The operations of the public package: \<open>Dial\<close> and \<open>Discover\<close> (\<open>uiscsi.go\<close>), the helpers of
  \<open>session.go\<close>, and the methods of \<open>scsi_ops.go\<close>, \<open>tmf_ops.go\<close>, \<open>raw_ops.go\<close> and \<open>protocol_ops.go\<close>.

  A command method submits and waits; its record \<open>Call\<close> says how the two contexts and the other
  goroutines behave. \<open>Stuck\<close> is waiting for ever and \<open>Crash\<close> a panic, as in the session.
  When reading the data of a result fails, the error is kept and not the bytes read before it.
\<close>

section \<open>Submitting and waiting\<close>

record Call =
  cl_submitEnds :: bool
  cl_env :: "Session \<Rightarrow> Session"
  cl_waitEnds :: bool

text \<open>The receive from the result channel of task \<open>a\<close>.\<close>

definition takeResult :: "nat \<Rightarrow> Session \<Rightarrow> (Result \<times> Session) Step" where
  "takeResult a s =
     (let t = ss_objs s ! a
      in case chan_recv (tk_resultCh t) of
           Received result c \<Rightarrow> Done (result, setTask a (t\<lparr>tk_resultCh := c\<rparr>) s)
         | RecvClosed \<Rightarrow> Done (zeroResult, s)
         | RecvBlocks \<Rightarrow> Stuck)"

definition submitAndWait :: "Call \<Rightarrow> Command \<Rightarrow> Session \<Rightarrow> ((ApiError + Result) \<times> Session) Step" where
  "submitAndWait call cmd s =
     bindStep (Submit (cl_submitEnds call) cmd s) (\<lambda>(res, s).
       case res of
         Inl e \<Rightarrow> Done (Inl (TransportFailure ''submit'' (CauseSession e)), s)
       | Inr a \<Rightarrow>
           let s = cl_env call s
           in if cl_waitEnds call then Done (Inl ContextEnded, s)
              else bindStep (takeResult a s) (\<lambda>(result, s). Done (Inr result, s)))"

definition checkedResult :: "Result \<Rightarrow> ApiError + bytes" where
  "checkedResult result =
     (case rs_Err result of
        Some e \<Rightarrow> Inl (TransportFailure ''command'' (CauseSession e))
      | None \<Rightarrow>
          if rs_Status result \<noteq> 0 then Inl (SCSIFailure (senseFailure (rs_Status result) (rs_SenseData result)))
          else if rs_Overflow result
          then Inl (SCSIFailure ((statusOnly (rs_Status result))
                 \<lparr>se_Message := ''residual overflow: '' @ FormatUint (unat (rs_ResidualCount result)) @ '' bytes''\<rparr>))
          else (case rs_Data result of
                  None \<Rightarrow> Inr []
                | Some r \<Rightarrow> (case io_ReadAll r of Inl e \<Rightarrow> Inl (ReadFailure e) | Inr d \<Rightarrow> Inr d)))"

definition submitAndCheck :: "Call \<Rightarrow> Command \<Rightarrow> Session \<Rightarrow> ((ApiError + bytes) \<times> Session) Step" where
  "submitAndCheck call cmd s =
     bindStep (submitAndWait call cmd s) (\<lambda>(res, s).
       Done (case res of Inl e \<Rightarrow> Inl e | Inr result \<Rightarrow> checkedResult result, s))"

text \<open>The methods that return only an error.\<close>

definition submitForError :: "Call \<Rightarrow> Command \<Rightarrow> Session \<Rightarrow> (ApiError option \<times> Session) Step" where
  "submitForError call cmd s =
     bindStep (submitAndCheck call cmd s) (\<lambda>(res, s). Done (case res of Inl e \<Rightarrow> Some e | Inr _ \<Rightarrow> None, s))"

section \<open>Typed SCSI commands\<close>

definition SCSIOps_ReadBlocks :: "Call \<Rightarrow> u64 \<Rightarrow> u64 \<Rightarrow> u32 \<Rightarrow> u32 \<Rightarrow> Session \<Rightarrow> ((ApiError + bytes) \<times> Session) Step" where
  "SCSIOps_ReadBlocks call lun lba blocks blockSize s = submitAndCheck call (Read16 lun lba blocks blockSize []) s"

definition SCSIOps_WriteBlocks :: "Call \<Rightarrow> u64 \<Rightarrow> u64 \<Rightarrow> u32 \<Rightarrow> u32 \<Rightarrow> bytes \<Rightarrow> Session \<Rightarrow> (ApiError option \<times> Session) Step" where
  "SCSIOps_WriteBlocks call lun lba blocks blockSize data s =
     submitForError call (Write16 lun lba blocks blockSize (Some (bytes_NewReader data)) []) s"

text \<open>A parser applied to the result of a command: its panic is the program's.\<close>

definition submitAndParse :: "Call \<Rightarrow> Command \<Rightarrow> (Result \<Rightarrow> (ScsiError + 'a) Outcome) \<Rightarrow> ('a \<Rightarrow> 'b) \<Rightarrow> Session
    \<Rightarrow> ((ApiError + 'b) \<times> Session) Step" where
  "submitAndParse call cmd parse convert s =
     bindStep (submitAndWait call cmd s) (\<lambda>(res, s).
       case res of
         Inl e \<Rightarrow> Done (Inl e, s)
       | Inr result \<Rightarrow>
           (case parse result of
              Panics \<Rightarrow> Crash
            | Returns (Inl e) \<Rightarrow> Done (Inl (wrapSCSIError e), s)
            | Returns (Inr x) \<Rightarrow> Done (Inr (convert x), s)))"

definition SCSIOps_Inquiry :: "Call \<Rightarrow> u64 \<Rightarrow> Session \<Rightarrow> ((ApiError + InquiryData) \<times> Session) Step" where
  "SCSIOps_Inquiry call lun s = submitAndParse call (Inquiry lun 255) ParseInquiry convertInquiry s"

definition SCSIOps_ReadCapacity :: "Call \<Rightarrow> Call \<Rightarrow> u64 \<Rightarrow> Session \<Rightarrow> ((ApiError + Capacity) \<times> Session) Step" where
  "SCSIOps_ReadCapacity call16 call10 lun s =
     bindStep (submitAndWait call16 (ReadCapacity16 lun 32) s) (\<lambda>(res, s).
       case res of
         Inl e \<Rightarrow> Done (Inl e, s)
       | Inr result \<Rightarrow>
           (case ParseReadCapacity16 result of
              Panics \<Rightarrow> Crash
            | Returns (Inr resp16) \<Rightarrow> Done (Inr (convertCapacity16 resp16), s)
            | Returns (Inl e) \<Rightarrow> submitAndParse call10 (ReadCapacity10 lun) ParseReadCapacity10 convertCapacity10 s))"

definition SCSIOps_TestUnitReady :: "Call \<Rightarrow> u64 \<Rightarrow> Session \<Rightarrow> (ApiError option \<times> Session) Step" where
  "SCSIOps_TestUnitReady call lun s = submitForError call (TestUnitReady lun) s"

definition SCSIOps_RequestSense :: "Call \<Rightarrow> u64 \<Rightarrow> Session \<Rightarrow> ((ApiError + SenseInfo option) \<times> Session) Step" where
  "SCSIOps_RequestSense call lun s =
     bindStep (submitAndCheck call (RequestSense lun 252) s) (\<lambda>(res, s).
       Done (case res of
               Inl e \<Rightarrow> Inl e
             | Inr data \<Rightarrow>
                 if length data = 0 then Inr None
                 else (case ParseSense data of Inl e \<Rightarrow> Inl (SenseFailure e) | Inr sd \<Rightarrow> Inr (Some (convertSense sd))), s))"

definition SCSIOps_ReportLuns :: "Call \<Rightarrow> Session \<Rightarrow> ((ApiError + u64 list) \<times> Session) Step" where
  "SCSIOps_ReportLuns call s = submitAndParse call (ReportLuns 1024) ParseReportLuns (\<lambda>luns. luns) s"

definition SCSIOps_ModeSense6 :: "Call \<Rightarrow> u64 \<Rightarrow> u8 \<Rightarrow> u8 \<Rightarrow> Session \<Rightarrow> ((ApiError + bytes) \<times> Session) Step" where
  "SCSIOps_ModeSense6 call lun pageCode subPageCode s = submitAndCheck call (ModeSense6 lun pageCode subPageCode 255 []) s"

definition SCSIOps_ModeSense10 :: "Call \<Rightarrow> u64 \<Rightarrow> u8 \<Rightarrow> u8 \<Rightarrow> Session \<Rightarrow> ((ApiError + bytes) \<times> Session) Step" where
  "SCSIOps_ModeSense10 call lun pageCode subPageCode s = submitAndCheck call (ModeSense10 lun pageCode subPageCode 1024 []) s"

definition SCSIOps_ModeSelect6 :: "Call \<Rightarrow> u64 \<Rightarrow> bytes \<Rightarrow> Session \<Rightarrow> (ApiError option \<times> Session) Step" where
  "SCSIOps_ModeSelect6 call lun data s = submitForError call (ModeSelect6 lun data) s"

definition SCSIOps_ModeSelect10 :: "Call \<Rightarrow> u64 \<Rightarrow> bytes \<Rightarrow> Session \<Rightarrow> (ApiError option \<times> Session) Step" where
  "SCSIOps_ModeSelect10 call lun data s = submitForError call (ModeSelect10 lun data) s"

definition SCSIOps_SynchronizeCache :: "Call \<Rightarrow> u64 \<Rightarrow> Session \<Rightarrow> (ApiError option \<times> Session) Step" where
  "SCSIOps_SynchronizeCache call lun s = submitForError call (SynchronizeCache16 lun 0 0 []) s"

definition SCSIOps_Verify :: "Call \<Rightarrow> u64 \<Rightarrow> u64 \<Rightarrow> u32 \<Rightarrow> Session \<Rightarrow> (ApiError option \<times> Session) Step" where
  "SCSIOps_Verify call lun lba blocks s = submitForError call (Verify16 lun lba blocks []) s"

definition SCSIOps_WriteSame :: "Call \<Rightarrow> u64 \<Rightarrow> u64 \<Rightarrow> u32 \<Rightarrow> u32 \<Rightarrow> bytes \<Rightarrow> Session \<Rightarrow> (ApiError option \<times> Session) Step" where
  "SCSIOps_WriteSame call lun lba blocks blockSize data s =
     submitForError call (WriteSame16 lun lba blocks blockSize (Some (bytes_NewReader data)) []) s"

definition SCSIOps_Unmap :: "Call \<Rightarrow> u64 \<Rightarrow> PublicUnmapDescriptor list \<Rightarrow> Session \<Rightarrow> (ApiError option \<times> Session) Step" where
  "SCSIOps_Unmap call lun descriptors s =
     submitForError call (Unmap lun (map (\<lambda>d. \<lparr>ub_LBA = pu_LBA d, ub_BlockCount = pu_Blocks d\<rparr>) descriptors) []) s"

definition SCSIOps_CompareAndWrite :: "Call \<Rightarrow> u64 \<Rightarrow> u64 \<Rightarrow> u8 \<Rightarrow> u32 \<Rightarrow> bytes \<Rightarrow> Session \<Rightarrow> (ApiError option \<times> Session) Step" where
  "SCSIOps_CompareAndWrite call lun lba blocks blockSize data s =
     submitForError call (CompareAndWrite lun lba blocks blockSize (Some (bytes_NewReader data))) s"

definition SCSIOps_StartStopUnit :: "Call \<Rightarrow> u64 \<Rightarrow> u8 \<Rightarrow> bool \<Rightarrow> bool \<Rightarrow> Session \<Rightarrow> (ApiError option \<times> Session) Step" where
  "SCSIOps_StartStopUnit call lun powerCondition start loadEject s =
     submitForError call (StartStopUnit lun powerCondition start loadEject []) s"

definition SCSIOps_PersistReserveIn :: "Call \<Rightarrow> u64 \<Rightarrow> u8 \<Rightarrow> Session \<Rightarrow> ((ApiError + bytes) \<times> Session) Step" where
  "SCSIOps_PersistReserveIn call lun serviceAction s = submitAndCheck call (PersistReserveIn lun serviceAction 1024) s"

definition SCSIOps_PersistReserveOut :: "Call \<Rightarrow> u64 \<Rightarrow> u8 \<Rightarrow> u8 \<Rightarrow> u64 \<Rightarrow> u64 \<Rightarrow> Session \<Rightarrow> (ApiError option \<times> Session) Step" where
  "SCSIOps_PersistReserveOut call lun serviceAction scopeType key saKey s =
     submitForError call (PersistReserveOut lun serviceAction scopeType key saKey) s"

section \<open>Task management and protocol operations\<close>

definition wrapTMF :: "((SessionError + TMFResult) \<times> Session) Step \<Rightarrow> ((ApiError + PublicTMFResult) \<times> Session) Step" where
  "wrapTMF r =
     bindStep r (\<lambda>(res, s).
       Done (case res of Inl e \<Rightarrow> Inl (TransportFailure ''tmf'' (CauseSession e)) | Inr result \<Rightarrow> Inr (convertTMFResult result), s))"

definition TMFOps_AbortTask :: "(Session \<Rightarrow> Session) \<Rightarrow> Reply \<Rightarrow> u32 \<Rightarrow> Session \<Rightarrow> ((ApiError + PublicTMFResult) \<times> Session) Step" where
  "TMFOps_AbortTask env reply taskTag s = wrapTMF (AbortTask env reply taskTag s)"

definition TMFOps_AbortTaskSet :: "(Session \<Rightarrow> Session) \<Rightarrow> Reply \<Rightarrow> u64 \<Rightarrow> Session \<Rightarrow> ((ApiError + PublicTMFResult) \<times> Session) Step" where
  "TMFOps_AbortTaskSet env reply lun s = wrapTMF (AbortTaskSet env reply lun s)"

definition TMFOps_ClearTaskSet :: "(Session \<Rightarrow> Session) \<Rightarrow> Reply \<Rightarrow> u64 \<Rightarrow> Session \<Rightarrow> ((ApiError + PublicTMFResult) \<times> Session) Step" where
  "TMFOps_ClearTaskSet env reply lun s = wrapTMF (ClearTaskSet env reply lun s)"

definition TMFOps_LUNReset :: "(Session \<Rightarrow> Session) \<Rightarrow> Reply \<Rightarrow> u64 \<Rightarrow> Session \<Rightarrow> ((ApiError + PublicTMFResult) \<times> Session) Step" where
  "TMFOps_LUNReset env reply lun s = wrapTMF (LUNReset env reply lun s)"

definition TMFOps_TargetWarmReset :: "(Session \<Rightarrow> Session) \<Rightarrow> Reply \<Rightarrow> Session \<Rightarrow> ((ApiError + PublicTMFResult) \<times> Session) Step" where
  "TMFOps_TargetWarmReset env reply s = wrapTMF (TargetWarmReset env reply s)"

definition TMFOps_TargetColdReset :: "(Session \<Rightarrow> Session) \<Rightarrow> Reply \<Rightarrow> Session \<Rightarrow> ((ApiError + PublicTMFResult) \<times> Session) Step" where
  "TMFOps_TargetColdReset env reply s = wrapTMF (TargetColdReset env reply s)"

definition ProtocolOps_Logout :: "(Session \<Rightarrow> Session) list \<Rightarrow> bool \<Rightarrow> (Session \<Rightarrow> Session) \<Rightarrow> Reply \<Rightarrow> Session
    \<Rightarrow> (SessionError option \<times> Session) Step" where
  "ProtocolOps_Logout ticks ctxEnds env reply s = Logout ticks ctxEnds env reply s"

definition ProtocolOps_SendExpStatSNConfirmation :: "Session \<Rightarrow> SessionError option \<times> Session" where
  "ProtocolOps_SendExpStatSNConfirmation s = SendExpStatSNConfirmation s"

section \<open>Raw commands\<close>

record executeConfig =
  ex_dataInLen :: u32
  ex_dataOut :: "Reader option"
  ex_dataOutLen :: u32

type_synonym ExecuteOption = "executeConfig \<Rightarrow> executeConfig"

definition WithDataIn :: "u32 \<Rightarrow> ExecuteOption" where
  "WithDataIn allocLen c = c\<lparr>ex_dataInLen := allocLen\<rparr>"

definition WithDataOut :: "Reader option \<Rightarrow> u32 \<Rightarrow> ExecuteOption" where
  "WithDataOut r n c = c\<lparr>ex_dataOut := r, ex_dataOutLen := n\<rparr>"

definition rawCommand :: "u64 \<Rightarrow> bytes \<Rightarrow> ExecuteOption list \<Rightarrow> ApiError + Command" where
  "rawCommand lun cdb opts =
     (let cfg = foldl (\<lambda>c o'. o' c) \<lparr>ex_dataInLen = 0, ex_dataOut = None, ex_dataOutLen = 0\<rparr> opts
      in if length cdb = 0 then Inl EmptyCDB
         else if length cdb > 16 then Inl (LongCDB (length cdb))
         else
           let cmd = zeroCommand\<lparr>cm_CDB := cdb @ replicate (16 - length cdb) 0, cm_LUN := lun\<rparr>;
               cmd = (if ex_dataInLen cfg > 0 then cmd\<lparr>cm_Read := True, cm_ExpectedDataTransferLen := ex_dataInLen cfg\<rparr> else cmd);
               cmd = (if ex_dataOut cfg \<noteq> None
                      then cmd\<lparr>cm_Write := True, cm_Data := ex_dataOut cfg, cm_ExpectedDataTransferLen := ex_dataOutLen cfg\<rparr>
                      else cmd)
           in Inr cmd)"

definition execute :: "Call \<Rightarrow> u64 \<Rightarrow> bytes \<Rightarrow> ExecuteOption list \<Rightarrow> Session \<Rightarrow> ((ApiError + RawResult) \<times> Session) Step" where
  "execute call lun cdb opts s =
     (case rawCommand lun cdb opts of
        Inl e \<Rightarrow> Done (Inl e, s)
      | Inr cmd \<Rightarrow>
          bindStep (submitAndWait call cmd s) (\<lambda>(res, s).
            Done (case res of
                    Inl e \<Rightarrow> Inl e
                  | Inr result \<Rightarrow>
                      (case rs_Err result of
                         Some e \<Rightarrow> Inl (TransportFailure ''execute'' (CauseSession e))
                       | None \<Rightarrow>
                           let rr = \<lparr>rr_Status = rs_Status result, rr_Data = [], rr_SenseData = rs_SenseData result\<rparr>
                           in (case rs_Data result of
                                 None \<Rightarrow> Inr rr
                               | Some r \<Rightarrow>
                                   (case io_ReadAll r of
                                      Inl e \<Rightarrow> Inl (TransportFailure ''read'' (CauseRead e))
                                    | Inr d \<Rightarrow> Inr (rr\<lparr>rr_Data := d\<rparr>)))), s)))"

text \<open>A stream result is the reader of the task and the task whose result \<open>Wait\<close> receives.\<close>

record StreamResult =
  sr_Data :: "chanReader option"
  sr_task :: nat

definition streamExecute :: "bool \<Rightarrow> u64 \<Rightarrow> bytes \<Rightarrow> ExecuteOption list \<Rightarrow> Session \<Rightarrow> ((ApiError + StreamResult) \<times> Session) Step" where
  "streamExecute ctxEnds lun cdb opts s =
     (case rawCommand lun cdb opts of
        Inl e \<Rightarrow> Done (Inl e, s)
      | Inr cmd \<Rightarrow>
          bindStep (SubmitStreaming ctxEnds cmd s) (\<lambda>(res, s).
            Done (case res of
                    Inl e \<Rightarrow> Inl (TransportFailure ''submit'' (CauseSession e))
                  | Inr (a, dataReader) \<Rightarrow> Inr \<lparr>sr_Data = dataReader, sr_task = a\<rparr>, s)))"

definition StreamResult_Wait :: "StreamResult \<Rightarrow> Session \<Rightarrow> ((ApiError + u8 \<times> bytes) \<times> Session) Step" where
  "StreamResult_Wait sr s =
     bindStep (takeResult (sr_task sr) s) (\<lambda>(r, s).
       Done (case rs_Err r of Some e \<Rightarrow> Inl (SessionFailure e) | None \<Rightarrow> Inr (rs_Status r, rs_SenseData r), s))"

definition StreamResult_WaitResidual :: "StreamResult \<Rightarrow> Session \<Rightarrow> ((ApiError + u8 \<times> bytes \<times> u32 \<times> bool) \<times> Session) Step" where
  "StreamResult_WaitResidual sr s =
     bindStep (takeResult (sr_task sr) s) (\<lambda>(r, s).
       Done (case rs_Err r of
               Some e \<Rightarrow> Inl (SessionFailure e)
             | None \<Rightarrow> Inr (rs_Status r, rs_SenseData r, rs_ResidualCount r, rs_Underflow r), s))"

section \<open>Connecting\<close>

text \<open>\<open>net.SplitHostPort\<close>: whether the address has a port, and \<open>net.JoinHostPort\<close>.\<close>

definition hasPort :: "string \<Rightarrow> bool" where
  "hasPort hostport =
     (case cutLast (CHR '':'') hostport of
        None \<Rightarrow> False
      | Some (host, port) \<Rightarrow>
          if hasPrefix hostport ''[''
          then (case cutOn (CHR '']'') hostport of
                  (before, after, found) \<Rightarrow>
                    found \<and> length before + 1 = length host \<and> CHR ''['' \<notin> set (tl hostport) \<and> CHR '']'' \<notin> set after)
          else CHR '':'' \<notin> set host \<and> CHR ''['' \<notin> set hostport \<and> CHR '']'' \<notin> set hostport)"

definition JoinHostPort :: "string \<Rightarrow> string \<Rightarrow> string" where
  "JoinHostPort host port =
     (if CHR '':'' \<in> set host then ''['' @ host @ '']:'' @ port else host @ '':'' @ port)"

definition normalizePortal :: "string \<Rightarrow> string" where
  "normalizePortal addr = (if hasPort addr then addr else JoinHostPort addr ''3260'')"

text \<open>\<open>dial\<close> is the network: what the target sends, if it is reached at the address.\<close>

definition Dial :: "(string \<Rightarrow> LoginEnv option) \<Rightarrow> (nat \<Rightarrow> bool) \<Rightarrow> string \<Rightarrow> DialOption list \<Rightarrow> ApiError + Session" where
  "Dial dial accepts addr opts =
     (let addr = normalizePortal addr;
          cfg = dialOptions opts
      in case dial addr of
           None \<Rightarrow> Inl (TransportFailure ''dial'' CauseDial)
         | Some net \<Rightarrow>
             (case fst (Login net (dc_loginOpts cfg)) of
                Inl e \<Rightarrow>
                  Inl (case e of
                         LoginError class _ _ \<Rightarrow> if class = 2 then wrapAuthError e else TransportFailure ''login'' (CauseLogin e)
                       | _ \<Rightarrow> TransportFailure ''login'' (CauseLogin e))
              | Inr (params, conn) \<Rightarrow> Inr (NewSession conn params (WithReconnectInfo addr # dc_sessionOpts cfg) accepts)))"

definition Discover_targets :: "(string \<Rightarrow> LoginEnv option) \<Rightarrow> (nat \<Rightarrow> bool) \<Rightarrow> bool \<Rightarrow> TextRound list
    \<Rightarrow> (Session \<Rightarrow> Session) list \<Rightarrow> (Session \<Rightarrow> Session) \<Rightarrow> Reply \<Rightarrow> string \<Rightarrow> DialOption list \<Rightarrow> (ApiError + Target list) Step" where
  "Discover_targets dial accepts ctxEnds rounds ticks env reply addr opts =
     (let addr = normalizePortal addr;
          cfg = dialOptions opts
      in bindStep (Discover (dial addr) (dc_loginOpts cfg) accepts ctxEnds rounds ticks env reply) (\<lambda>res.
           Done (case res of
                   Inl e \<Rightarrow> Inl (TransportFailure ''discover'' (CauseDiscover e))
                 | Inr targets \<Rightarrow> Inr (map convertTarget targets))))"

section \<open>From Dial to data\<close>

lemma dialled_session:
  assumes "Dial dial accepts addr opts = Inr s"
  shows "session_reachable \<lparr>sy_s = s, sy_waiting = []\<rparr>" "submitCheck s = None"
    "\<exists>sn w. acquireFast (ss_window s) = Granted sn w" "\<forall>n. accepts n \<Longrightarrow> accepting (ss_write s)"
proof -
  obtain params conn os where s: "s = NewSession conn params os accepts"
    using assms by (auto simp: Dial_def Let_def split: option.splits sum.splits prod.splits)
  show "session_reachable \<lparr>sy_s = s, sy_waiting = []\<rparr>" unfolding s by (rule se_init)
  show "submitCheck s = None" "\<exists>sn w. acquireFast (ss_window s) = Granted sn w" "\<forall>n. accepts n \<Longrightarrow> accepting (ss_write s)"
    by (auto simp: s NewSession_def fireStateChange_def Let_def submitCheck_def accepting_def acquireFast_def takeSN_def newCmdWindow_def
        windowOpen_def InWindow_def LessThan_def)
qed

text \<open>The loop of the task that was submitted last receives PDUs while its caller waits.\<close>

definition lastTaskReceives :: "RawPDU list \<Rightarrow> Session \<Rightarrow> Session" where
  "lastTaskReceives raws s = (case receiveAll raws (length (ss_objs s) - 1) s of Done (_, s) \<Rightarrow> s | _ \<Rightarrow> s)"

lemma checked_read:
  assumes "di_Status (last fs) = 0" "\<not> di_ResidualOverflow (last fs)"
  shows "checkedResult (result_of fs) = Inr (unread (the (rs_Data (result_of fs))))"
  using assms by (simp add: checkedResult_def result_of_def statusResult_def io_ReadAll_def)

lemma submitAndCheck_read:
  assumes "submitCheck s = None" "acquireFast (ss_window s) = Granted sn w" "accepting (ss_write s)"
    "cm_Read cmd" "cm_Data cmd = None" "cm_LUN cmd \<le> 0xFFFF"
    "wf_fragments fs" "\<forall>k<length fs. carries (raws ! k) (fs ! k)" "set ks = {..<length fs - 1}"
    "np_ErrorRecoveryLevel (ss_params s) \<ge> 1 \<or> ks = [0..<length fs - 1]"
    "di_Status (last fs) = 0" "\<not> di_ResidualOverflow (last fs)"
  shows "\<exists>s'. submitAndCheck \<lparr>cl_submitEnds = c, cl_env = lastTaskReceives (map ((!) raws) (ks @ [length fs - 1])), cl_waitEnds = False\<rparr> cmd s
    = Done (Inr (concat (map di_Data fs)), s')"
proof -
  obtain a s' s'' where r: "Submit c cmd s = Done (Inr a, s')"
    "receiveAll (map ((!) raws) (ks @ [length fs - 1])) a s' = Done (False, s'')"
    "ch_buf (tk_resultCh (ss_objs s'' ! a)) = [result_of fs]" "unread (the (rs_Data (result_of fs))) = concat (map di_Data fs)"
    "length (ss_objs s') = Suc a"
    using read_command_run [OF assms(1-10), of c] by blast
  define env where "env = lastTaskReceives (map ((!) raws) (ks @ [length fs - 1]))"
  have e: "env s' = s''" by (simp only: env_def lastTaskReceives_def r(2,5) diff_Suc_1) simp
  obtain t where "takeResult a s'' = Done (result_of fs, t)" using r(3) by (simp add: takeResult_def chan_recv_def Let_def)
  then show ?thesis
    using checked_read [OF assms(11,12)] r(4) unfolding env_def [symmetric] by (simp add: submitAndCheck_def submitAndWait_def r(1) e)
qed

section \<open>Two ways to read\<close>

lemma rawCommand_read:
  assumes "blocks * blockSize \<noteq> 0"
  shows "rawCommand lun (cm_CDB (Read16 lun lba blocks blockSize [])) [WithDataIn (blocks * blockSize)] = Inr (Read16 lun lba blocks blockSize [])"
proof -
  have "length (cm_CDB (Read16 lun lba blocks blockSize [])) = 16"
    by (simp add: Read16_def zeroCommand_def applyOptions_def or_if_def PutUint64_def PutUint32_def Let_def)
  moreover have "blocks * blockSize > 0" using assms by (simp add: word_neq_0_conv)
  ultimately show ?thesis
    using assms by (simp add: rawCommand_def WithDataIn_def Read16_def zeroCommand_def Let_def)
qed

section \<open>What goes wrong\<close>

text \<open>A bracketed IPv6 address without a port gets a second pair of brackets.\<close>

lemma bracketed_address_is_bracketed_again: "normalizePortal ''[::1]'' = ''[[::1]]:3260''"
  by (simp add: normalizePortal_def hasPort_def JoinHostPort_def hasPrefix_def)

lemma plain_addresses:
  "normalizePortal ''10.0.0.1'' = ''10.0.0.1:3260''" "normalizePortal ''10.0.0.1:99'' = ''10.0.0.1:99''"
  "normalizePortal ''::1'' = ''[::1]:3260''" "normalizePortal ''[::1]:99'' = ''[::1]:99''"
  by (simp_all add: normalizePortal_def hasPort_def JoinHostPort_def hasPrefix_def)

text \<open>Every login failure of class 2 is reported as an authentication failure, whatever its detail.\<close>

lemma missing_target_is_auth_failure:
  assumes "dial (normalizePortal addr) = Some net" "fst (Login net (dc_loginOpts (dialOptions opts))) = Inl (LoginError 2 3 msg)"
  shows "Dial dial accepts addr opts = Inl (AuthFailure 2 3 msg)"
  using assms by (simp add: Dial_def wrapAuthError_def Let_def)

text \<open>A raw command does not report a residual overflow, which the typed commands treat as an error.\<close>

lemma raw_ignores_overflow:
  assumes "rawCommand lun cdb opts = Inr cmd" "submitAndWait call cmd s = Done (Inr r, s')" "rs_Err r = None" "rs_Status r = 0" "rs_Overflow r"
    "rs_Data r = None"
  shows "\<exists>rr. execute call lun cdb opts s = Done (Inr rr, s') \<and> CheckStatus (rr_Status rr) (rr_SenseData rr) = None"
    "\<exists>e. submitAndCheck call cmd s = Done (Inl (SCSIFailure e), s')"
  using assms by (simp_all add: execute_def CheckStatus_def submitAndCheck_def checkedResult_def)

text \<open>The capacity of a device that reports the largest block address is 0 blocks.\<close>

lemma capacity_wraps: "ca_LogicalBlocks (convertCapacity16 r) = 0" if "r16_LastLBA r = 0xFFFFFFFFFFFFFFFF"
  using that by (simp add: convertCapacity16_def)

section \<open>Properties\<close>

text \<open>C1. From \<open>Dial\<close> to data: on the session that a successful \<open>Dial\<close> returns, \<open>ReadBlocks\<close> returns exactly the bytes of the
  Data-In PDUs that the target sends for it, in any order and repetition with error recovery, when its status is GOOD.\<close>

theorem dialled_session_reads_blocks:
  assumes "Dial dial accepts addr opts = Inr s" "\<forall>n. accepts n" "lun \<le> 0xFFFF"
    "wf_fragments fs" "\<forall>k<length fs. carries (raws ! k) (fs ! k)" "set ks = {..<length fs - 1}"
    "np_ErrorRecoveryLevel (ss_params s) \<ge> 1 \<or> ks = [0..<length fs - 1]"
    "di_Status (last fs) = 0" "\<not> di_ResidualOverflow (last fs)"
  shows "\<exists>s'. SCSIOps_ReadBlocks \<lparr>cl_submitEnds = c, cl_env = lastTaskReceives (map ((!) raws) (ks @ [length fs - 1])), cl_waitEnds = False\<rparr>
      lun lba blocks blockSize s = Done (Inr (concat (map di_Data fs)), s')"
proof -
  obtain sn w where w: "acquireFast (ss_window s) = Granted sn w" using dialled_session(3) [OF assms(1)] by blast
  have "cm_Read (Read16 lun lba blocks blockSize [])" "cm_Data (Read16 lun lba blocks blockSize []) = None"
    "cm_LUN (Read16 lun lba blocks blockSize []) \<le> 0xFFFF"
    using assms(3) by (simp_all add: Read16_def zeroCommand_def Let_def)
  from submitAndCheck_read [OF dialled_session(2) [OF assms(1)] w dialled_session(4) [OF assms(1,2)] this assms(4-9), of c]
  show ?thesis by (simp add: SCSIOps_ReadBlocks_def)
qed


section \<open>Witnesses\<close>

abbreviation sampleCall :: Call where
  "sampleCall \<equiv> \<lparr>cl_submitEnds = False, cl_env = lastTaskReceives (map ((!) (map sampleRaw sampleFragments)) [0, 1, 2]), cl_waitEnds = False\<rparr>"

lemma sample_carried:
  "\<forall>k<length (map carriedFragment sampleFragments). carries (map sampleRaw sampleFragments ! k) (map carriedFragment sampleFragments ! k)"
  using sampleRaw_carries [OF carried_sample(2)] by simp

lemma sample_exchange:
  "length sampleFragments = 3" "concat (map di_Data (map carriedFragment sampleFragments)) = [1, 2, 3, 4]"
  "di_Status (last (map carriedFragment sampleFragments)) = 0" "\<not> di_ResidualOverflow (last (map carriedFragment sampleFragments))"
  by (simp_all add: sampleFragments_def sampleFragment_def carriedFragment_def norm_DataIn_def)

lemma sample_order: "set [0, 1] = {..<length (map carriedFragment sampleFragments) - 1}" "[0, 1] = [0..<length (map carriedFragment sampleFragments) - 1]"
  by (auto simp: sample_exchange(1) upt_rec)

theorem dialled_session_reads_blocks_witness:
  "\<exists>s s'. Dial (\<lambda>_. Some (sampleEnv plainStream)) (\<lambda>_. True) ''10.0.0.1'' [] = Inr s \<and>
    SCSIOps_ReadBlocks sampleCall 0 0 1 4 s = Done (Inr [1, 2, 3, 4], s')"
proof -
  have "\<exists>p conn tx. Login (sampleEnv plainStream) [] = (Inr (p, conn), tx)"
    using login_ok [of "[]" "sampleEnv plainStream" "[0x40, 1, 2, 3, 4, 5]" "sampleResp 0 []" "sampleResp 0 []" "[]"
        "buildInitiatorKeys [''None''] [''None''] None" Defaults] sampleResp_ok [of "[]" 0] sample_sizes sample_params
    by (fastforce simp: sampleEnv_def chooseISID_def defaultLoginConfig_def)
  then obtain s where s: "Dial (\<lambda>_. Some (sampleEnv plainStream)) (\<lambda>_. True) ''10.0.0.1'' [] = Inr s"
    by (auto simp: Dial_def dialOptions_def Let_def)
  from dialled_session_reads_blocks [OF s _ _ carried_sample(1) sample_carried sample_order(1) disjI2 [OF sample_order(2)]
      sample_exchange(3,4), of 0 False 0 1 4] s
  show ?thesis by (simp add: sample_exchange(1) sample_exchange(2) [simplified])
qed


end
