(* ===== verification/Spec2Isabelle.thy ===== *)
theory Spec2Isabelle
  imports Serial Pdu Pdu_String Framer Buffer_Pool Router Pump Cmd_Window Login Scsi_Command Scsi_Sense Scsi_Parse Task Data_Out
    Session Session_Control Session_Steps Session_IO Session_Write Session_Stream Session_Routes Discovery Recovery Session_Lifecycle Session_Requests
    Public_Types Public_Ops
begin

text \<open>
  uiscsi, a user-space iSCSI initiator (RFC 7143) in Go: a verification library of the program.

  \<^bold>\<open>How the program is put together.\<close> A caller connects with \<open>Dial\<close> (\<open>uiscsi.go\<close>): the network connection
  is opened, \<open>login.Login\<close> negotiates over it (\<open>internal/login\<close>), and \<open>session.NewSession\<close>
  (\<open>internal/session\<close>) starts a read pump and a write pump (\<open>internal/transport\<close>) on it. A command
  (\<open>internal/scsi\<close>) is submitted to the session, which takes a CmdSN from the command window, allocates
  an initiator task tag in the router, sends the SCSI Command PDU (\<open>internal/pdu\<close>) and starts a task loop.
  The read pump hands every PDU to the router, which delivers it to the loop registered for its tag, or
  to the goroutine for unsolicited PDUs. When the connection is lost the session is reinstated or the
  connection replaced, depending on the error recovery level.

  \<^bold>\<open>Theories and code.\<close> Each definition has the name of the code it models, as far as HOL allows.

  \<^item> \<open>ISCSI_Prelude\<close>: words for Go's unsigned integers, byte slices and their big-endian accessors,
    with the lemma collections \<open>wire\<close>, \<open>flags\<close> and \<open>gosimps\<close>. \<open>Go_Text\<close>: \<open>strings\<close>, \<open>strconv\<close>,
    \<open>hex\<close> and \<open>base64\<close>. \<open>Channels\<close>: Go channels.
  \<^item> \<open>Serial\<close>: \<open>internal/serial\<close>. \<open>Pdu_Base\<close>, \<open>Pdu_Initiator\<close>, \<open>Pdu_Target\<close>, \<open>Pdu\<close>, \<open>Pdu_Frame\<close>:
    \<open>internal/pdu\<close>, with one record, encoder and decoder for each of the 18 PDU types. \<open>Pdu_String\<close>:
    their texts (\<open>pdu/stringer.go\<close>).
  \<^item> \<open>Digest\<close>: \<open>internal/digest\<close>. \<open>Framer\<close>, \<open>Buffer_Pool\<close>, \<open>Router\<close>, \<open>Pump\<close>: \<open>internal/transport\<close>.
  \<^item> \<open>Text_KV\<close>, \<open>Md5\<close>, \<open>Chap\<close>, \<open>Negotiation\<close>, \<open>Login\<close>: \<open>internal/login\<close>.
  \<^item> \<open>Scsi_Command\<close>, \<open>Scsi_Sense\<close>, \<open>Scsi_Parse\<close>: \<open>internal/scsi\<close>.
  \<^item> \<open>Session_Types\<close> (\<open>types.go\<close>, \<open>state.go\<close>), \<open>Cmd_Window\<close> (\<open>cmdwindow.go\<close>), \<open>Task\<close> (\<open>datain.go\<close>,
    \<open>snack.go\<close>, \<open>chanreader.go\<close>), \<open>Data_Out\<close> (\<open>dataout.go\<close>), \<open>Session\<close> (\<open>session.go\<close>),
    \<open>Session_Control\<close> (\<open>keepalive.go\<close>, \<open>tmf.go\<close>, \<open>logout.go\<close>, \<open>async.go\<close> and the unsolicited PDUs, drain
    and close of \<open>session.go\<close>), \<open>Discovery\<close> (\<open>discovery.go\<close>), \<open>Recovery\<close> (\<open>recovery.go\<close>,
    \<open>connreplace.go\<close>): \<open>internal/session\<close>.
  \<^item> \<open>Session_Steps\<close>: the session's operations as one step relation; \<open>Session_Routes\<close>: what its steps do to
    the router; \<open>Session_IO\<close>, \<open>Session_Write\<close> and \<open>Session_Stream\<close>: complete exchanges; \<open>Session_Requests\<close>: the requests the session builds;
    \<open>Session_Lifecycle\<close>: a session across its reinstatements.
  \<^item> \<open>Public_Types\<close> (\<open>types.go\<close>, \<open>errors.go\<close>, \<open>sense.go\<close>, \<open>options.go\<close>) and \<open>Public_Ops\<close>
    (\<open>uiscsi.go\<close>, \<open>session.go\<close>, \<open>scsi_ops.go\<close>, \<open>tmf_ops.go\<close>, \<open>raw_ops.go\<close>, \<open>protocol_ops.go\<close>).

  \<^bold>\<open>State, errors and effects.\<close> A struct is a record. The session's state is the record \<open>Session\<close>: its
  tasks live in a store (\<open>ss_objs\<close>) and the task map, the loops and the callers refer to them by index,
  as the code shares pointers. An operation takes the state and returns it updated; a Go error is the left
  side of a sum. A function of the session ends in \<open>Done\<close>, or it is \<open>Stuck\<close> (it waits for ever) or it is a
  \<open>Crash\<close> (a run-time panic); \<open>Outcome\<close> has the panics of the response parsers. What code outside the
  program decides is an argument: the bytes that the target sends, whether a write or a dial succeeds, the
  buffer that \<open>sync.Pool\<close> returns, random bytes, the order in which a map is ranged over, the moment a
  context ends or a timer fires, and what the other goroutines do while one waits (\<open>env\<close>).

  \<^bold>\<open>Interleaving.\<close> \<open>Router\<close>, \<open>Cmd_Window\<close> and \<open>Session_Steps\<close> have step relations: a step is what one
  goroutine does between two waits, so that a run is any interleaving of the goroutines. Their
  invariants are proved by rule induction over the reachable states.

  \<^bold>\<open>Loops.\<close> A loop over a list is structural recursion and a loop over an offset has a termination proof;
  the burst loop of Data-Out is a \<open>partial_function\<close>, for which \<open>Data_Out\<close> proves that it always returns.
  The loop of the SendTargets exchange is driven by the list of the answers that arrive and the reconnect
  loop by the list of its attempts, cut at the configured number. The entry loops of the response parsers
  count the iterations that the length field in the data allows. There is no fuel.

  \<^bold>\<open>What is shown.\<close>

  \<^item> From the public interface: on the session that \<open>Dial\<close> returns, \<open>ReadBlocks\<close> returns the bytes the
    target sends (\<open>Public_Ops\<close>); the typed and the raw tier agree.
  \<^item> Sessions: an invariant of all interleavings relates the task map, the task loops and the router
    (\<open>session_inv\<close> in \<open>Session_Steps\<close>), also across any number of reinstatements
    (\<open>Session_Lifecycle\<close>); reads complete with one result, a submission puts the right PDU on the wire,
    \<open>Close\<close> answers every task (\<open>Session_IO\<close>, \<open>Session_Lifecycle\<close>); writes send each byte once and at its offset
    (\<open>Session_Write\<close>); a streaming read delivers every byte in order in bounded memory, and its task loop and
    its caller never wait for each other (\<open>Session_Stream\<close>); all requests encode (\<open>Session_Requests\<close>).
  \<^item> Recovery: an interrupted read completes on the new connection; reinstatement forgets no task; when it
    fails, every task is answered (\<open>Recovery\<close>, \<open>Session_Lifecycle\<close>).
  \<^item> Tasks: Data-In in any order refines the set of the fragments received (\<open>Task\<close>); a burst sends the
    announced bytes (\<open>Data_Out\<close>); the command window grants distinct numbers inside the window and wakes
    its waiters (\<open>Cmd_Window\<close>).
  \<^item> Transport: streams of frames are read back, corrupted frames are detected (\<open>Framer\<close>); PDUs reach
    their waiters once and tags are distinct (\<open>Router\<close>); the pumps keep the order (\<open>Pump\<close>).
  \<^item> Login: a login completes with the parameters the target answered, mutual CHAP accepts only a
    target that knows the secret, errors are reported (\<open>Login\<close>); negotiated values are in the legal ranges
    (\<open>Negotiation\<close>).
  \<^item> Formats: round trips of PDUs, additional headers, text keys, CDBs, SendTargets answers and sense data;
    no response parser reads out of bounds.

  Several theories also have a section of the behaviours that the code does not intend, as lemmas
  on concrete states or conditions.

  \<^bold>\<open>Interfaces.\<close> The locales state what a client uses of a component: \<open>bhs_codec\<close> (PDU encoders),
  \<open>byte_order\<close>, \<open>byte_fold\<close> (digests), \<open>fifo\<close> (channels), \<open>buffer_source\<close> (pool), \<open>tag_routes\<close> (router), \<open>serial_arith\<close>,
  \<open>splitter\<close>, \<open>number_text\<close>, \<open>binary_text\<close>, \<open>text_codec\<close> and \<open>response_parser\<close>. Each is interpreted
  on the model's definitions in the theory that provides them.

  \<^bold>\<open>Bounds.\<close> Integers keep their width, so sequence numbers, tags and offsets wrap. Where a theorem needs a
  bound it says so: fewer than \<open>2 ^ 32 - 1\<close> tags in use at a time, at most \<open>2 ^ 32\<close> fragments of a read, LUNs
  up to \<open>0xFFFF\<close>, segments up to \<open>0xFFFFFF\<close> bytes.

  \<^bold>\<open>Not modelled.\<close> Logging, the metrics, PDU and state hooks apart from the order of the reported states: they only observe. \<open>transport/conn.go\<close>: accessors of
  \<open>net.Conn\<close>, whose settings are arguments of the pumps. Deadlines are the moments at which a context ends.
  Data races that the Go memory model leaves undefined: a step is atomic. The examples, the
  mock target of the tests, and the tests themselves.
\<close>

end
